(* ===== verification/Prelude.thy ===== *)
theory Prelude
  imports Complex_Main "HOL-Library.Word" "HOL-Library.Stream" "HOL-Library.Multiset"
begin

unbundle bit_operations_syntax

text \<open>
  What every component of the development shares: the outcomes a C++ call can have besides
  returning (exceptions, failed assertions, calls of exit, undefined behaviour) as the values of
  one datatype, the result type with its sequencing operator, the names of the machine integer
  types, the fact collections, and the generic lemmas on lists, streams and words.
\<close>

section \<open>Machine integers and strings\<close>

type_synonym u64 = "64 word"
type_synonym u32 = "32 word"
type_synonym cstring = string

section \<open>Outcomes of a call\<close>

text \<open>
  \<open>Assert_failed\<close> is a failing assert (the build defines no NDEBUG), \<open>Invalid_argument\<close>,
  \<open>Out_of_range\<close> and \<open>Length_error\<close> are the exceptions of the standard library, \<open>Utils_exception\<close> is
  utils::Exception, \<open>Bad_path\<close> and \<open>Bad_data\<close> are the two exceptions of boost's property tree,
  \<open>Exit\<close> is a call of exit with its status and the text printed just before, \<open>Undefined_behaviour\<close> a state in which the C++ standard gives no
  meaning to the next step, and \<open>Diverges\<close> a loop or a wait that never ends.
\<close>

datatype exn =
    Assert_failed string
  | Invalid_argument string
  | Out_of_range string
  | Length_error string
  | Utils_exception string
  | Bad_path string
  | Bad_data string
  | Exit int string
  | Undefined_behaviour string
  | Diverges string

type_synonym 'a result = "exn + 'a"

abbreviation returns :: "'a result \<Rightarrow> bool" where
  "returns r \<equiv> \<exists>x. r = Inr x"

definition bindR :: "'a result \<Rightarrow> ('a \<Rightarrow> 'b result) \<Rightarrow> 'b result" where
  "bindR m f = (case m of Inl e \<Rightarrow> Inl e | Inr x \<Rightarrow> f x)"

definition assertR :: "bool \<Rightarrow> string \<Rightarrow> unit result" where
  "assertR b msg = (if b then Inr () else Inl (Assert_failed msg))"

text \<open>
  The collections: \<open>res_simps\<close> rewrites sequenced results, \<open>fp_simps\<close> evaluates floating
  point operations on values that need no rounding, \<open>model_defs\<close> unfolds the small operations
  of a component.
\<close>

named_theorems res_simps
named_theorems fp_simps
named_theorems model_defs

lemma bindR_Inl [simp, res_simps]: "bindR (Inl e) f = Inl e"
  by (simp add: bindR_def)

lemma bindR_Inr [simp, res_simps]: "bindR (Inr x) f = f x"
  by (simp add: bindR_def)

lemma bindR_eq_Inr_iff [res_simps]: "bindR m f = Inr y \<longleftrightarrow> (\<exists>x. m = Inr x \<and> f x = Inr y)"
  by (simp add: bindR_def split: sum.splits)

lemma bindR_returns: "(\<exists>y. bindR m f = Inr y) \<longleftrightarrow> (\<exists>x. m = Inr x \<and> (\<exists>y. f x = Inr y))"
  by (auto simp: bindR_eq_Inr_iff)

lemma bindR_eq_Inl_iff: "bindR m f = Inl e \<longleftrightarrow> m = Inl e \<or> (\<exists>x. m = Inr x \<and> f x = Inl e)"
  by (auto simp: bindR_def split: sum.splits)

lemma bindR_elim: "bindR m f = Inr y \<Longrightarrow> (\<And>x. m = Inr x \<Longrightarrow> f x = Inr y \<Longrightarrow> P) \<Longrightarrow> P"
  by (auto simp: bindR_eq_Inr_iff)

lemma bindR_elim2:
  "bindR m (\<lambda>(a, b). f a b) = Inr y \<Longrightarrow> (\<And>a b. m = Inr (a, b) \<Longrightarrow> f a b = Inr y \<Longrightarrow> P) \<Longrightarrow> P"
  by (auto simp: bindR_eq_Inr_iff)

lemma bindR_elim3:
  "bindR m (\<lambda>(a, b, c). f a b c) = Inr y \<Longrightarrow>
   (\<And>a b c. m = Inr (a, b, c) \<Longrightarrow> f a b c = Inr y \<Longrightarrow> P) \<Longrightarrow> P"
  by (auto simp: bindR_eq_Inr_iff)

lemma bindR_elim4:
  "bindR m (\<lambda>(a, b, c, d). f a b c d) = Inr y \<Longrightarrow>
   (\<And>a b c d. m = Inr (a, b, c, d) \<Longrightarrow> f a b c d = Inr y \<Longrightarrow> P) \<Longrightarrow> P"
  by (auto simp: bindR_eq_Inr_iff)

lemmas bindR_elims = bindR_elim4 bindR_elim3 bindR_elim2 bindR_elim

lemma bindR_assoc: "bindR (bindR m f) g = bindR m (\<lambda>x. bindR (f x) g)"
  by (simp add: bindR_def split: sum.splits)

lemma assertR_eq_Inr_iff [simp, res_simps]: "assertR b msg = Inr u \<longleftrightarrow> b"
  by (simp add: assertR_def)

lemma assertR_True [simp, res_simps]: "assertR True msg = Inr ()"
  by (simp add: assertR_def)

lemma assertR_False [simp, res_simps]: "assertR False msg = Inl (Assert_failed msg)"
  by (simp add: assertR_def)

section \<open>Lists, streams and words\<close>

lemma count_list_append_one: "count_list (xs @ [y]) x = count_list xs x + (if x = y then 1 else 0)"
  by (induction xs) auto

lemma foldl_append_one: "foldl f a (xs @ [x]) = f (foldl f a xs) x"
  by simp

lemma sum_list_take_Suc: "i < length cs \<Longrightarrow> sum_list (take (Suc i) cs) = sum_list (take i cs) + cs ! i"
  by (simp add: take_Suc_conv_app_nth)

lemma sum_list_take_mono: "i \<le> j \<Longrightarrow> sum_list (take i cs) \<le> sum_list (take j (cs :: nat list))"
proof -
  assume "i \<le> j"
  then have "take j cs = take i cs @ drop i (take j cs)"
    by (metis append_take_drop_id min.absorb1 take_take)
  then show ?thesis by (metis le_add1 sum_list_append)
qed

lemma sset_stl: "sset s \<subseteq> A \<Longrightarrow> sset (stl s) \<subseteq> A"
  by (cases s) auto

lemma shd_in: "sset s \<subseteq> A \<Longrightarrow> shd s \<in> A"
  by (cases s) auto

lemma unat_Suc_less: "i < (j :: 'a::len word) \<Longrightarrow> unat (i + 1) = Suc (unat i)"
proof -
  assume "i < j"
  then have "unat i < unat j" by (simp add: word_less_nat_alt)
  then have "unat i + 1 < 2 ^ LENGTH('a)" using unsigned_less [of j] by (metis Suc_eq_plus1 Suc_leI le_less_trans)
  then show ?thesis by (simp add: unat_word_ariths)
qed

end
