(* ===== verification/Double.thy ===== *)
theory Double
  imports Prelude "HOL-Library.Log_Nat"
begin

text \<open>
  The type double of the program: IEEE 754 binary64 with rounding to nearest, ties to even.
  A finite double is the rational number it denotes; \<open>rnd\<close> is the rounding of a rational to
  53 significant bits with gradual underflow at the exponent \<open>-1074\<close>, and every arithmetic
  operation is the exact one followed by \<open>rnd\<close>, or an infinity when the rounded magnitude
  reaches \<open>2 ^ 1024\<close>. The two zeros of the standard are one value here (the program never
  divides by a zero that a rounding could have made negative), and all NaNs are one value.

  The theory proves what the components need of rounding: it is monotone, it is the identity
  on representable numbers, its result is representable, and its relative error is at most
  \<open>2 ^ -53\<close> on normal numbers.
\<close>

section \<open>Rounding\<close>

definition ilog2 :: "rat \<Rightarrow> int" where
  "ilog2 x = (let (n, d) = quotient_of x; k = bitlen n - bitlen d
              in if x < 2 powi k then k - 1 else k)"

definition round_even :: "rat \<Rightarrow> int" where
  "round_even y = (let f = \<lfloor>y\<rfloor>; r = y - of_int f in
     if r < 1/2 then f else if 1/2 < r then f + 1 else if even f then f else f + 1)"

definition ulp_exp :: "rat \<Rightarrow> int" where
  "ulp_exp x = max (ilog2 x - 52) (- 1074)"

definition rnd_pos :: "rat \<Rightarrow> rat" where
  "rnd_pos x = of_int (round_even (x / 2 powi ulp_exp x)) * 2 powi ulp_exp x"

definition rnd :: "rat \<Rightarrow> rat" where
  "rnd x = (if x = 0 then 0 else if x < 0 then - rnd_pos (- x) else rnd_pos x)"

lemma two_powi_pos: "0 < (2::rat) powi k"
  by simp

lemma two_powi_mono: "j \<le> k \<Longrightarrow> (2::rat) powi j \<le> 2 powi k"
  by (rule power_int_increasing) simp_all

lemma two_powi_less_iff: "(2::rat) powi j < 2 powi k \<longleftrightarrow> j < k"
  using two_powi_mono [of k j] power_int_strict_increasing [of j k "2::rat"] by (auto simp: not_less [symmetric])

lemma two_powi_add: "(2::rat) powi (j + k) = 2 powi j * 2 powi k"
  by (simp add: power_int_add)

lemma bitlen_bounds_rat:
  assumes "0 < n"
  shows "(2::rat) powi (bitlen n - 1) \<le> of_int n" and "of_int n < (2::rat) powi bitlen n"
proof -
  have b: "1 \<le> bitlen n"
    using assms bitlen_nonneg [of n] bitlen_eq_zero_iff [of n] by linarith
  have "2 ^ nat (bitlen n - 1) \<le> n" "n < 2 ^ nat (bitlen n)"
    using bitlen_bounds [OF assms] by auto
  then have "(of_int (2 ^ nat (bitlen n - 1)) :: rat) \<le> of_int n" "(of_int n :: rat) < of_int (2 ^ nat (bitlen n))"
    by (simp_all only: of_int_le_iff of_int_less_iff)
  then show "(2::rat) powi (bitlen n - 1) \<le> of_int n" "of_int n < (2::rat) powi bitlen n"
    using b by (simp_all add: power_int_nonneg_exp)
qed

lemma ilog2_bounds:
  assumes "0 < x"
  shows "2 powi ilog2 x \<le> x" and "x < 2 powi (ilog2 x + 1)"
proof -
  obtain n d where q: "quotient_of x = (n, d)" by (cases "quotient_of x")
  have d: "0 < d" using q by (rule quotient_of_denom_pos)
  have x: "x = of_int n / of_int d" using q by (rule quotient_of_div)
  have n: "0 < n" using assms x d by (simp add: zero_less_divide_iff)
  let ?k = "bitlen n - bitlen d"
  have lo: "2 powi (?k - 1) \<le> x"
  proof -
    have "2 powi (?k - 1) * of_int d \<le> 2 powi (?k - 1) * (2::rat) powi bitlen d"
      using bitlen_bounds_rat(2) [OF d] by (intro mult_left_mono) simp_all
    also have "\<dots> = 2 powi (bitlen n - 1)" by (simp flip: two_powi_add)
    also have "\<dots> \<le> of_int n" by (rule bitlen_bounds_rat(1) [OF n])
    finally show ?thesis using d by (simp add: x pos_le_divide_eq)
  qed
  have hi: "x < 2 powi (?k + 1)"
  proof -
    have "of_int n < (2::rat) powi bitlen n" by (rule bitlen_bounds_rat(2) [OF n])
    also have "\<dots> = 2 powi (?k + 1) * 2 powi (bitlen d - 1)" by (simp flip: two_powi_add)
    also have "\<dots> \<le> 2 powi (?k + 1) * of_int d"
      using bitlen_bounds_rat(1) [OF d] by (intro mult_left_mono) simp_all
    finally show ?thesis using d by (simp add: x pos_divide_less_eq)
  qed
  show "2 powi ilog2 x \<le> x" "x < 2 powi (ilog2 x + 1)"
    using lo hi by (auto simp: ilog2_def q Let_def)
qed

lemma ilog2_unique:
  assumes "2 powi k \<le> x" and "x < 2 powi (k + 1)"
  shows "ilog2 x = k"
proof -
  have x: "0 < x" using assms(1) two_powi_pos [of k] by linarith
  have "k < ilog2 x + 1"
    using two_powi_less_iff [of k "ilog2 x + 1"] ilog2_bounds [OF x] assms by linarith
  moreover have "ilog2 x < k + 1"
    using two_powi_less_iff [of "ilog2 x" "k + 1"] ilog2_bounds [OF x] assms by linarith
  ultimately show ?thesis by simp
qed

lemma ilog2_mono: assumes "0 < x" "x \<le> y" shows "ilog2 x \<le> ilog2 y"
proof -
  have "ilog2 x < ilog2 y + 1"
    using two_powi_less_iff [of "ilog2 x" "ilog2 y + 1"] ilog2_bounds [OF assms(1)]
      ilog2_bounds [of y] assms by linarith
  then show ?thesis by simp
qed

lemma round_even_mono: "x \<le> y \<Longrightarrow> round_even x \<le> round_even y"
proof -
  assume xy: "x \<le> y"
  then have f: "\<lfloor>x\<rfloor> \<le> \<lfloor>y\<rfloor>" by (rule floor_mono)
  show ?thesis
  proof (cases "\<lfloor>x\<rfloor> = \<lfloor>y\<rfloor>")
    case True then show ?thesis using xy by (auto simp: round_even_def Let_def)
  next
    case False
    with f have "\<lfloor>x\<rfloor> + 1 \<le> \<lfloor>y\<rfloor>" by simp
    then show ?thesis by (auto simp: round_even_def Let_def)
  qed
qed

lemma round_even_of_int [simp]: "round_even (of_int m) = m"
  by (simp add: round_even_def)

lemma round_even_err: "\<bar>of_int (round_even y) - y\<bar> \<le> 1/2"
proof -
  have "of_int \<lfloor>y\<rfloor> \<le> y" "y < of_int \<lfloor>y\<rfloor> + 1" using floor_correct [of y] by simp_all
  moreover have "of_int (round_even y) = (of_int \<lfloor>y\<rfloor> :: rat) \<and> y - of_int \<lfloor>y\<rfloor> \<le> 1/2
      \<or> of_int (round_even y) = (of_int \<lfloor>y\<rfloor> + 1 :: rat) \<and> 1/2 \<le> y - of_int \<lfloor>y\<rfloor>"
    by (auto simp: round_even_def Let_def)
  ultimately show ?thesis by linarith
qed

lemma round_even_ge: "of_int m \<le> y \<Longrightarrow> m \<le> round_even y"
  using round_even_mono [of "of_int m" y] by simp

lemma round_even_le: "y \<le> of_int m \<Longrightarrow> round_even y \<le> m"
  using round_even_mono [of y "of_int m"] by simp

lemma ulp_exp_mono: "0 < x \<Longrightarrow> x \<le> y \<Longrightarrow> ulp_exp x \<le> ulp_exp y"
  using ilog2_mono [of x y] by (simp add: ulp_exp_def)

lemma ulp_exp_ge: "- 1074 \<le> ulp_exp x"
  by (simp add: ulp_exp_def)

lemma rnd_pos_nonneg: "0 \<le> x \<Longrightarrow> 0 \<le> rnd_pos x"
  using round_even_ge [of 0 "x / 2 powi ulp_exp x"] by (simp add: rnd_pos_def)

lemma scaled_less: "0 < x \<Longrightarrow> x < 2 powi (ulp_exp x + 53)"
proof -
  assume "0 < x"
  then have "x < 2 powi (ilog2 x + 1)" by (rule ilog2_bounds)
  also have "\<dots> \<le> 2 powi (ulp_exp x + 53)" by (intro two_powi_mono) (simp add: ulp_exp_def)
  finally show ?thesis .
qed

lemma scaled_le: "0 < x \<Longrightarrow> x / 2 powi ulp_exp x \<le> of_int (2 ^ 53)"
  using scaled_less [of x] by (simp add: two_powi_add pos_divide_le_eq mult.commute)

lemma rnd_pos_le: "0 < x \<Longrightarrow> rnd_pos x \<le> 2 powi (ulp_exp x + 53)"
proof -
  assume "0 < x"
  then have "round_even (x / 2 powi ulp_exp x) \<le> 2 ^ 53" by (intro round_even_le scaled_le)
  then have "(of_int (round_even (x / 2 powi ulp_exp x)) :: rat) \<le> of_int (2 ^ 53)"
    by (simp only: of_int_le_iff)
  then show ?thesis by (simp add: rnd_pos_def two_powi_add mult_ac)
qed

lemma rnd_pos_mono:
  assumes "0 < x" "x \<le> y"
  shows "rnd_pos x \<le> rnd_pos y"
proof (cases "ulp_exp x = ulp_exp y")
  case True
  have "x / 2 powi ulp_exp y \<le> y / 2 powi ulp_exp y" using assms by (simp add: divide_right_mono)
  then show ?thesis by (simp add: rnd_pos_def True round_even_mono)
next
  case False
  with ulp_exp_mono [OF assms] have lt: "ulp_exp x < ulp_exp y" by simp
  with ulp_exp_ge [of x] have u: "ulp_exp y = ilog2 y - 52" by (auto simp: ulp_exp_def)
  have "2 powi (ulp_exp y + 52) \<le> y" using ilog2_bounds(1) [of y] assms by (simp add: u)
  then have "of_int (2 ^ 52) \<le> y / 2 powi ulp_exp y"
    by (simp add: two_powi_add pos_le_divide_eq mult.commute)
  then have "2 ^ 52 \<le> round_even (y / 2 powi ulp_exp y)" by (rule round_even_ge)
  then have "(of_int (2 ^ 52) :: rat) \<le> of_int (round_even (y / 2 powi ulp_exp y))"
    by (simp only: of_int_le_iff)
  then have hi: "2 powi (ulp_exp y + 52) \<le> rnd_pos y"
    by (simp add: rnd_pos_def two_powi_add mult_ac)
  have "rnd_pos x \<le> 2 powi (ulp_exp x + 53)" by (rule rnd_pos_le [OF assms(1)])
  also have "\<dots> \<le> 2 powi (ulp_exp y + 52)" using lt by (intro two_powi_mono) simp
  finally show ?thesis using hi by simp
qed

lemma rnd_0 [simp]: "rnd 0 = 0" by (simp add: rnd_def)

lemma rnd_minus: "rnd (- x) = - rnd x"
  by (simp add: rnd_def)

lemma rnd_nonneg: "0 \<le> x \<Longrightarrow> 0 \<le> rnd x"
  by (simp add: rnd_def rnd_pos_nonneg)

lemma rnd_mono: "x \<le> y \<Longrightarrow> rnd x \<le> rnd y"
proof -
  assume xy: "x \<le> y"
  consider "0 < x" | "x \<le> 0" "0 \<le> y" | "y < 0" using xy by linarith
  then show ?thesis
  proof cases
    case 1 then show ?thesis using xy by (simp add: rnd_def rnd_pos_mono)
  next
    case 2
    have "0 \<le> rnd (- x)" "0 \<le> rnd y" using 2 by (simp_all add: rnd_nonneg)
    then show ?thesis by (simp add: rnd_minus)
  next
    case 3 then show ?thesis using xy rnd_pos_mono [of "- y" "- x"] by (simp add: rnd_def)
  qed
qed

lemma ulp_exp_rep:
  assumes "0 < m" "m < 2 ^ 53" "- 1074 \<le> e"
  shows "ulp_exp (of_int m * 2 powi e) \<le> e"
proof -
  let ?x = "of_int m * 2 powi e :: rat"
  have x: "0 < ?x" using assms by simp
  have "(of_int m :: rat) < of_int (2 ^ 53)" using assms by (simp only: of_int_less_iff)
  then have "?x < 2 powi (e + 53)" by (simp add: two_powi_add mult_ac)
  then have "2 powi ilog2 ?x < (2::rat) powi (e + 53)" using ilog2_bounds(1) [OF x] by linarith
  then show ?thesis using assms(3) by (simp add: two_powi_less_iff ulp_exp_def)
qed

lemma rnd_rep_pos:
  assumes "0 < m" "m < 2 ^ 53" "- 1074 \<le> e"
  shows "rnd (of_int m * 2 powi e) = of_int m * 2 powi e"
proof -
  let ?x = "of_int m * 2 powi e :: rat"
  let ?u = "ulp_exp ?x"
  have u: "?u \<le> e" by (rule ulp_exp_rep [OF assms])
  have "?x / 2 powi ?u = of_int m * 2 powi (e - ?u)"
    by (simp add: power_int_diff)
  also have "\<dots> = of_int (m * 2 ^ nat (e - ?u))" using u by (simp add: power_int_nonneg_exp)
  finally have q: "?x / 2 powi ?u = of_int (m * 2 ^ nat (e - ?u))" .
  have "rnd_pos ?x = of_int (m * 2 ^ nat (e - ?u)) * 2 powi ?u"
    by (simp only: rnd_pos_def q round_even_of_int)
  also have "\<dots> = ?x / 2 powi ?u * 2 powi ?u" by (simp only: q)
  also have "\<dots> = ?x" by simp
  finally have "rnd_pos ?x = ?x" .
  moreover have "0 < ?x" using assms(1) by simp
  ultimately show ?thesis by (simp only: rnd_def) auto
qed

lemma rnd_rep:
  assumes "\<bar>m\<bar> \<le> 2 ^ 53" "- 1074 \<le> e"
  shows "rnd (of_int m * 2 powi e) = of_int m * 2 powi e"
proof -
  have pos: "rnd (of_int k * 2 powi e) = of_int k * 2 powi e" if k: "0 \<le> k" "k \<le> 2 ^ 53" for k
  proof -
    consider "k = 0" | "0 < k" "k < 2 ^ 53" | "k = 2 ^ 53" using k by linarith
    then show ?thesis
    proof cases
      case 3
      have eq: "of_int k * 2 powi e = of_int 1 * (2::rat) powi (e + 53)"
        using 3 by (simp add: two_powi_add)
      show ?thesis unfolding eq by (rule rnd_rep_pos) (use assms in simp_all)
    qed (use assms rnd_rep_pos in simp_all)
  qed
  show ?thesis
  proof (cases "0 \<le> m")
    case True then show ?thesis using pos assms by simp
  next
    case False
    then have "rnd (of_int (- m) * 2 powi e) = of_int (- m) * 2 powi e" using assms by (intro pos) simp_all
    then show ?thesis by (simp add: rnd_minus)
  qed
qed

definition is_double :: "rat \<Rightarrow> bool" where "is_double x \<longleftrightarrow> rnd x = x"

lemma rnd_pos_form:
  assumes "0 < x"
  obtains m where "rnd_pos x = of_int m * 2 powi ulp_exp x" "0 \<le> m" "m \<le> 2 ^ 53"
proof
  show "rnd_pos x = of_int (round_even (x / 2 powi ulp_exp x)) * 2 powi ulp_exp x"
    by (simp add: rnd_pos_def)
  show "0 \<le> round_even (x / 2 powi ulp_exp x)" using assms by (intro round_even_ge) simp
  show "round_even (x / 2 powi ulp_exp x) \<le> 2 ^ 53" by (intro round_even_le scaled_le assms)
qed

lemma is_double_rnd [simp]: "is_double (rnd x)"
proof -
  have pos: "is_double (rnd_pos y)" if y: "0 < y" for y
  proof -
    obtain m where "rnd_pos y = of_int m * 2 powi ulp_exp y" "0 \<le> m" "m \<le> 2 ^ 53"
      using y by (rule rnd_pos_form)
    then show ?thesis using rnd_rep [of m "ulp_exp y"] by (simp add: is_double_def ulp_exp_ge)
  qed
  show ?thesis
  proof (cases "x < 0")
    case True
    then have "is_double (rnd_pos (- x))" by (intro pos) simp
    moreover have "rnd x = - rnd_pos (- x)" using True by (simp add: rnd_def)
    ultimately show ?thesis by (simp add: is_double_def rnd_minus)
  next
    case False then show ?thesis using pos [of x] by (auto simp: rnd_def is_double_def)
  qed
qed

lemma rnd_err:
  assumes "2 powi (- 1022) \<le> x"
  shows "\<bar>rnd x - x\<bar> \<le> x / 2 ^ 53"
proof -
  have x: "0 < x" using assms two_powi_pos [of "- 1022"] by linarith
  have "2 powi (- 1022) < (2::rat) powi (ilog2 x + 1)" using assms ilog2_bounds(2) [OF x] by linarith
  then have u: "ulp_exp x = ilog2 x - 52" by (simp only: two_powi_less_iff) (simp add: ulp_exp_def)
  let ?r = "of_int (round_even (x / 2 powi ulp_exp x)) :: rat"
  have "\<bar>rnd x - x\<bar> = \<bar>?r - x / 2 powi ulp_exp x\<bar> * 2 powi ulp_exp x"
  proof -
    have "rnd x - x = (?r - x / 2 powi ulp_exp x) * 2 powi ulp_exp x"
      using x by (simp add: rnd_def rnd_pos_def left_diff_distrib)
    then show ?thesis by (simp add: abs_mult)
  qed
  also have "\<dots> \<le> 1/2 * 2 powi ulp_exp x" by (intro mult_right_mono round_even_err) simp
  also have "\<dots> = 2 powi ilog2 x / 2 ^ 53" by (simp add: u power_int_diff)
  also have "\<dots> \<le> x / 2 ^ 53" using ilog2_bounds(1) [OF x] by (simp add: divide_right_mono)
  finally show ?thesis .
qed

lemma is_double_rep: "\<bar>m\<bar> \<le> 2 ^ 53 \<Longrightarrow> - 1074 \<le> e \<Longrightarrow> is_double (of_int m * 2 powi e)"
  by (simp add: is_double_def rnd_rep)

lemma is_double_int: "\<bar>m\<bar> \<le> 2 ^ 53 \<Longrightarrow> is_double (of_int m)"
  using is_double_rep [of m 0] by simp

lemma is_double_numeral [fp_simps]: "(numeral n :: int) \<le> 2 ^ 53 \<Longrightarrow> is_double (numeral n)"
  using is_double_int [of "numeral n"] by simp

lemma is_double_0 [simp]: "is_double 0"
  by (simp add: is_double_def)

lemma is_double_1 [simp]: "is_double 1"
  using is_double_int [of 1] by simp

lemma rnd_is_double: "is_double x \<Longrightarrow> rnd x = x"
  by (simp add: is_double_def)

lemma rnd_le_double: "x \<le> y \<Longrightarrow> is_double y \<Longrightarrow> rnd x \<le> y"
  using rnd_mono [of x y] by (simp add: is_double_def)

lemma rnd_ge_double: "y \<le> x \<Longrightarrow> is_double y \<Longrightarrow> y \<le> rnd x"
  using rnd_mono [of y x] by (simp add: is_double_def)

lemma is_double_minus: "is_double x \<Longrightarrow> is_double (- x)"
  by (simp add: is_double_def rnd_minus)

text \<open>The largest double below 1.\<close>

lemma is_double_below_one:
  assumes "is_double x" "x < 1"
  shows "x \<le> 1 - 1 / 2 ^ 53"
proof (cases "x \<le> 1/2")
  case True
  then show ?thesis by (rule order_trans) simp
next
  case False
  then have pos: "0 < x" by simp
  have "ilog2 x = - 1" using False assms(2) by (intro ilog2_unique) (simp_all add: power_int_minus)
  then have u: "ulp_exp x = - 53" by (simp add: ulp_exp_def)
  have rx: "rnd_pos x = x" using assms(1) pos by (simp add: is_double_def rnd_def)
  obtain m where m: "rnd_pos x = of_int m * 2 powi ulp_exp x" "0 \<le> m" "m \<le> 2 ^ 53"
    by (rule rnd_pos_form [OF pos])
  have two: "(2::rat) powi (- 53) = 1 / 2 ^ 53" by (simp add: power_int_minus)
  have "rnd_pos x = of_int m / 2 ^ 53" unfolding m(1) u two by simp
  then have x: "x = of_int m / 2 ^ 53" unfolding rx .
  have "(of_int m :: rat) < of_int (2 ^ 53)" using assms(2) unfolding x by simp
  then have "m \<le> 2 ^ 53 - 1" by (simp only: of_int_less_iff)
  then have "(of_int m :: rat) \<le> of_int (2 ^ 53 - 1)" by (simp only: of_int_le_iff)
  then show ?thesis unfolding x by simp
qed

section \<open>The values and their arithmetic\<close>

datatype double = Fin rat | PInf | MInf | NaN

definition of_rat_d :: "rat \<Rightarrow> double" where
  "of_rat_d x = (let r = rnd x in
     if 2 ^ 1024 \<le> r then PInf else if r \<le> - (2 ^ 1024) then MInf else Fin r)"

fun fin_d :: "double \<Rightarrow> bool" where
  "fin_d (Fin x) = (is_double x \<and> \<bar>x\<bar> < 2 ^ 1024)"
| "fin_d _ = False"

fun val_d :: "double \<Rightarrow> rat" where
  "val_d (Fin x) = x"
| "val_d _ = 0"

fun neg_d :: "double \<Rightarrow> double" where
  "neg_d (Fin x) = Fin (- x)"
| "neg_d PInf = MInf"
| "neg_d MInf = PInf"
| "neg_d NaN = NaN"

fun add_d :: "double \<Rightarrow> double \<Rightarrow> double" where
  "add_d (Fin x) (Fin y) = of_rat_d (x + y)"
| "add_d NaN y = NaN"
| "add_d x NaN = NaN"
| "add_d PInf MInf = NaN"
| "add_d MInf PInf = NaN"
| "add_d PInf y = PInf"
| "add_d MInf y = MInf"
| "add_d x y = y"

fun sgn_inf :: "rat \<Rightarrow> double" where
  "sgn_inf x = (if x = 0 then NaN else if 0 < x then PInf else MInf)"

fun mul_d :: "double \<Rightarrow> double \<Rightarrow> double" where
  "mul_d (Fin x) (Fin y) = of_rat_d (x * y)"
| "mul_d NaN y = NaN"
| "mul_d x NaN = NaN"
| "mul_d (Fin x) PInf = sgn_inf x"
| "mul_d (Fin x) MInf = sgn_inf (- x)"
| "mul_d PInf (Fin y) = sgn_inf y"
| "mul_d MInf (Fin y) = sgn_inf (- y)"
| "mul_d PInf y = y"
| "mul_d MInf y = neg_d y"

fun div_d :: "double \<Rightarrow> double \<Rightarrow> double" where
  "div_d (Fin x) (Fin y) = (if y = 0 then sgn_inf x else of_rat_d (x / y))"
| "div_d NaN y = NaN"
| "div_d x NaN = NaN"
| "div_d (Fin x) y = Fin 0"
| "div_d PInf (Fin y) = (if 0 \<le> y then PInf else MInf)"
| "div_d MInf (Fin y) = (if 0 \<le> y then MInf else PInf)"
| "div_d x y = NaN"

fun less_d :: "double \<Rightarrow> double \<Rightarrow> bool" where
  "less_d (Fin x) (Fin y) = (x < y)"
| "less_d MInf (Fin y) = True"
| "less_d MInf PInf = True"
| "less_d (Fin x) PInf = True"
| "less_d x y = False"

text \<open>
  With these operations double is an instance of the library's syntactic classes, so the
  components are written with \<open>+\<close>, \<open>-\<close>, \<open>*\<close>, \<open>/\<close>, \<open><\<close> and \<open>\<le>\<close>. The comparisons with a
  NaN are false, as in C++: the order is not total, and no law of an order class is claimed.
\<close>

instantiation double :: "{plus, minus, times, inverse, ord, zero, one}"
begin

definition zero_double_def [fp_simps]: "0 = Fin 0"
definition one_double_def [fp_simps]: "1 = Fin 1"
definition plus_double_def [fp_simps]: "x + y = add_d x y"
definition minus_double_def [fp_simps]: "x - y = add_d x (neg_d y)"
definition times_double_def [fp_simps]: "x * y = mul_d x y"
definition divide_double_def [fp_simps]: "(x :: double) div y = div_d x y"
definition inverse_double_def [fp_simps]: "inverse x = div_d (Fin 1) x"
definition less_double_def [fp_simps]: "x < y \<longleftrightarrow> less_d x y"
definition less_eq_double_def [fp_simps]: "x \<le> y \<longleftrightarrow> less_d x y \<or> x = y \<and> x \<noteq> NaN"

instance ..

end

text \<open>The conversions: double to int and to uint64\_t truncate, and have no defined result
  outside the range of the target; an integer is rounded when it becomes a double.\<close>

definition trunc_rat :: "rat \<Rightarrow> int" where
  "trunc_rat x = (if 0 \<le> x then \<lfloor>x\<rfloor> else - \<lfloor>- x\<rfloor>)"

fun int_of_d :: "double \<Rightarrow> int result" where
  "int_of_d (Fin x) = (let t = trunc_rat x in
     if - (2 ^ 31) \<le> t \<and> t < 2 ^ 31 then Inr t
     else Inl (Undefined_behaviour ''double to int''))"
| "int_of_d _ = Inl (Undefined_behaviour ''double to int'')"

fun u64_of_d :: "double \<Rightarrow> u64 result" where
  "u64_of_d (Fin x) = (let t = trunc_rat x in
     if 0 \<le> t \<and> t < 2 ^ 64 then Inr (word_of_int t)
     else Inl (Undefined_behaviour ''double to uint64_t''))"
| "u64_of_d _ = Inl (Undefined_behaviour ''double to uint64_t'')"

definition d_of_int :: "int \<Rightarrow> double" where
  "d_of_int n = of_rat_d (of_int n)"

definition d_of_u64 :: "u64 \<Rightarrow> double" where
  "d_of_u64 w = of_rat_d (of_int (uint w))"

section \<open>Evaluation without rounding, and bounds\<close>

lemma of_rat_d_exact [fp_simps]: "is_double x \<Longrightarrow> \<bar>x\<bar> < 2 ^ 1024 \<Longrightarrow> of_rat_d x = Fin x"
  by (auto simp: of_rat_d_def Let_def rnd_is_double abs_if split: if_splits)

text \<open>The same function for evaluation: small results are not compared with \<open>2 ^ 1024\<close>.\<close>

lemma of_rat_d_code [code]: "of_rat_d x = (let r = rnd x in
   if - 18446744073709551616 \<le> r \<and> r \<le> 18446744073709551616 then Fin r
   else if 2 ^ 1024 \<le> r then PInf else if r \<le> - (2 ^ 1024) then MInf else Fin r)"
  by (auto simp: of_rat_d_def Let_def intro: order_trans)

lemma of_rat_d_0 [simp]: "of_rat_d 0 = Fin 0"
  by (simp add: of_rat_d_exact)

lemma of_rat_d_1 [simp]: "of_rat_d 1 = Fin 1"
  by (simp add: of_rat_d_exact)

lemma fin_d_int: "\<bar>m\<bar> \<le> 2 ^ 53 \<Longrightarrow> fin_d (Fin (of_int m))"
proof -
  assume m: "\<bar>m\<bar> \<le> 2 ^ 53"
  then have "(of_int \<bar>m\<bar> :: rat) \<le> of_int (2 ^ 53)" by (simp only: of_int_le_iff)
  moreover have "(of_int (2 ^ 53) :: rat) < 2 ^ 1024" by simp
  ultimately show ?thesis using m is_double_int [of m] by simp
qed

lemma of_rat_d_int: "\<bar>m\<bar> \<le> 2 ^ 53 \<Longrightarrow> of_rat_d (of_int m) = Fin (of_int m)"
  using fin_d_int [of m] by (simp add: of_rat_d_exact)

lemma d_of_int_exact [fp_simps]: "\<bar>m\<bar> \<le> 2 ^ 53 \<Longrightarrow> d_of_int m = Fin (of_int m)"
  by (simp add: d_of_int_def of_rat_d_int)

lemma of_rat_d_bounded:
  assumes "lo \<le> x" "x \<le> hi" "fin_d (Fin lo)" "fin_d (Fin hi)"
  shows "of_rat_d x = Fin (rnd x)" and "lo \<le> rnd x" and "rnd x \<le> hi" and "fin_d (Fin (rnd x))"
proof -
  show lo: "lo \<le> rnd x" using assms by (simp add: rnd_ge_double)
  show hi: "rnd x \<le> hi" using assms by (simp add: rnd_le_double)
  have "\<bar>rnd x\<bar> < 2 ^ 1024" using lo hi assms(3,4) by (auto simp: abs_if split: if_splits)
  then show "of_rat_d x = Fin (rnd x)" "fin_d (Fin (rnd x))"
    by (auto simp: of_rat_d_def Let_def abs_if split: if_splits)
qed

lemma fin_d_cases:
  assumes "fin_d d"
  obtains x where "d = Fin x" "is_double x" "\<bar>x\<bar> < 2 ^ 1024"
  using assms by (cases d) auto

lemma fin_d_powi:
  assumes "- 1074 \<le> e" "e < 1024"
  shows "fin_d (Fin (2 powi e))"
proof -
  have "(2::rat) powi e < 2 powi 1024" using assms(2) by (simp only: two_powi_less_iff)
  then show ?thesis using is_double_rep [of 1 e] assms(1) by simp
qed

lemma Fin_arith [simp]:
  "Fin x + Fin y = of_rat_d (x + y)"
  "Fin x - Fin y = of_rat_d (x - y)"
  "Fin x * Fin y = of_rat_d (x * y)"
  "y \<noteq> 0 \<Longrightarrow> Fin x / Fin y = of_rat_d (x / y)"
  by (simp_all add: fp_simps)

lemma Fin_order [simp]:
  "Fin x < Fin y \<longleftrightarrow> x < y"
  "Fin x \<le> Fin y \<longleftrightarrow> x \<le> y"
  by (auto simp: less_double_def less_eq_double_def)

lemma zero_one_Fin [simp]:
  "(0 :: double) = Fin 0"
  "(1 :: double) = Fin 1"
  by (simp_all add: fp_simps)

lemma NaN_arith [simp]:
  "x + NaN = NaN" "NaN + x = NaN" "x * NaN = NaN" "NaN * x = NaN" "\<not> NaN < x" "\<not> x < NaN"
  by (cases x; simp add: fp_simps)+

lemma fin_d_dyadic: "\<bar>m\<bar> \<le> 2 ^ 53 \<Longrightarrow> n \<le> 1074 \<Longrightarrow> fin_d (Fin (of_int m / 2 ^ n))"
proof -
  assume m: "\<bar>m\<bar> \<le> 2 ^ 53" and n: "n \<le> 1074"
  have eq: "(of_int m / 2 ^ n :: rat) = of_int m * 2 powi (- int n)"
    by (simp add: power_int_minus divide_inverse)
  have "\<bar>of_int m / 2 ^ n :: rat\<bar> \<le> \<bar>of_int m\<bar> / 1"
    unfolding abs_divide by (intro divide_left_mono) simp_all
  also have "\<dots> < 2 ^ 1024" using fin_d_int [OF m] by simp
  finally show ?thesis
    using is_double_rep [OF m, of "- int n"] n by (simp add: eq)
qed

end
