(* ===== verification/Histogram.thy ===== *)
theory Histogram
  imports Double
begin

text \<open>
  The latency histogram (utils/histogram.cc, utils/histogram.h). The state is the record
  \<open>histogram\<close> with the fields of the class; every field is a double of the IEEE model of
  theory Double, the buckets are the list of the 154 counters. \<open>Add\<close> is the reference
  insertion by linear search, \<open>AddFast\<close> the one the client uses, which computes the bucket by
  repeated division by ten.
\<close>

section \<open>State and operations\<close>

definition kNumBuckets :: nat where
  "kNumBuckets = 154"

definition bucket_limit_ints :: "int list" where
  "bucket_limit_ints =
    [1, 2, 3, 4, 5, 6, 7, 8,
     9, 10, 12, 14, 16, 18, 20, 25,
     30, 35, 40, 45, 50, 60, 70, 80,
     90, 100, 120, 140, 160, 180, 200, 250,
     300, 350, 400, 450, 500, 600, 700, 800,
     900, 1000, 1200, 1400, 1600, 1800, 2000, 2500,
     3000, 3500, 4000, 4500, 5000, 6000, 7000, 8000,
     9000, 10000, 12000, 14000, 16000, 18000, 20000, 25000,
     30000, 35000, 40000, 45000, 50000, 60000, 70000, 80000,
     90000, 100000, 120000, 140000, 160000, 180000, 200000, 250000,
     300000, 350000, 400000, 450000, 500000, 600000, 700000, 800000,
     900000, 1000000, 1200000, 1400000, 1600000, 1800000, 2000000, 2500000,
     3000000, 3500000, 4000000, 4500000, 5000000, 6000000, 7000000, 8000000,
     9000000, 10000000, 12000000, 14000000, 16000000, 18000000, 20000000, 25000000,
     30000000, 35000000, 40000000, 45000000, 50000000, 60000000, 70000000, 80000000,
     90000000, 100000000, 120000000, 140000000, 160000000, 180000000, 200000000, 250000000,
     300000000, 350000000, 400000000, 450000000, 500000000, 600000000, 700000000, 800000000,
     900000000, 1000000000, 1200000000, 1400000000, 1600000000, 1800000000, 2000000000, 2500000000,
     3000000000, 3500000000, 4000000000, 4500000000, 5000000000, 6000000000, 7000000000, 8000000000,
     9000000000]"

definition kBucketLimit :: "double list" where
  "kBucketLimit = map (\<lambda>n. Fin (of_int n)) bucket_limit_ints @ [of_rat_d (10 ^ 200)]"

record histogram =
  hmin :: double
  hmax :: double
  hnum :: double
  hsum :: double
  hsum_squares :: double
  buckets :: "double list"

definition Clear :: "histogram \<Rightarrow> histogram" where
  "Clear h = h\<lparr>hmin := kBucketLimit ! (kNumBuckets - 1), hmax := 0, hnum := 0, hsum := 0,
     hsum_squares := 0, buckets := replicate kNumBuckets 0\<rparr>"

text \<open>The common tail of both insertions: the counter of the bucket and the five summaries.\<close>

definition record_at :: "nat \<Rightarrow> double \<Rightarrow> histogram \<Rightarrow> histogram" where
  "record_at b value h = h\<lparr>
     buckets := (buckets h)[b := buckets h ! b + 1],
     hmin := (if value < hmin h then value else hmin h),
     hmax := (if hmax h < value then value else hmax h),
     hnum := hnum h + 1,
     hsum := hsum h + value,
     hsum_squares := hsum_squares h + value * value\<rparr>"

function add_loop :: "double \<Rightarrow> nat \<Rightarrow> nat" where
  "add_loop value b =
     (if b < kNumBuckets - 1 \<and> kBucketLimit ! b \<le> value then add_loop value (b + 1) else b)"
  by pat_completeness auto
termination
  by (relation "measure (\<lambda>(value, b). kNumBuckets - b)") (auto simp: kNumBuckets_def)

definition Add :: "histogram \<Rightarrow> double \<Rightarrow> histogram" where
  "Add h value = record_at (add_loop value 0) value h"

text \<open>
  The loop of AddFast: it does not end on an infinite value, so its result is an option, and
  None stands for the loop that never ends.
\<close>

partial_function (option) scale_down :: "double \<Rightarrow> int \<Rightarrow> (double \<times> int) option" where
  "scale_down b cal_pos =
     (if Fin 100 \<le> b then scale_down (b / Fin 10) (cal_pos + 16) else Some (b, cal_pos))"

text \<open>The three assignments \<open>cal_pos += ...\<close> add in double and truncate back to int.\<close>

definition fast_pos :: "double \<Rightarrow> int result" where
  "fast_pos value =
     (if Fin 0 \<le> value \<and> value < Fin 10 then int_of_d value
      else case scale_down value 0 of
        None \<Rightarrow> Inl (Diverges ''while (b >= 100)'')
      | Some (b, cal_pos) \<Rightarrow>
          if Fin 10 \<le> b \<and> b < Fin 20 then
            int_of_d (d_of_int cal_pos + (Fin 10 + (b - Fin 10) / Fin 2))
          else if Fin 20 \<le> b \<and> b < Fin 50 then
            int_of_d (d_of_int cal_pos + (Fin 15 + (b - Fin 20) / Fin 5))
          else if Fin 50 \<le> b \<and> b < Fin 100 then
            int_of_d (d_of_int cal_pos + (Fin 21 + (b - Fin 50) / Fin 10))
          else Inr cal_pos)"

definition AddFast :: "histogram \<Rightarrow> double \<Rightarrow> histogram result" where
  "AddFast h value = bindR (fast_pos value) (\<lambda>p.
     let cal_pos = (if int kNumBuckets \<le> p then int kNumBuckets - 1 else p)
     in if cal_pos < 0 then Inl (Undefined_behaviour ''buckets_[cal_pos]'')
        else Inr (record_at (nat cal_pos) value h))"

definition Merge :: "histogram \<Rightarrow> histogram \<Rightarrow> histogram" where
  "Merge h other = h\<lparr>
     hmin := (if hmin other < hmin h then hmin other else hmin h),
     hmax := (if hmax h < hmax other then hmax other else hmax h),
     hnum := hnum h + hnum other,
     hsum := hsum h + hsum other,
     hsum_squares := hsum_squares h + hsum_squares other,
     buckets := map2 (+) (buckets h) (buckets other)\<rparr>"

fun percentile_loop :: "histogram \<Rightarrow> double \<Rightarrow> nat \<Rightarrow> double \<Rightarrow> double list \<Rightarrow> double" where
  "percentile_loop h threshold b sum0 [] = hmax h"
| "percentile_loop h threshold b sum0 (c # cs) =
     (let sum1 = sum0 + c in
      if threshold \<le> sum1 then
        let left_point = (if b = 0 then Fin 0 else kBucketLimit ! (b - 1));
            right_point = kBucketLimit ! b;
            left_sum = sum1 - c;
            right_sum = sum1;
            pos = (threshold - left_sum) / (right_sum - left_sum);
            r = left_point + (right_point - left_point) * pos;
            r = (if r < hmin h then hmin h else r);
            r = (if hmax h < r then hmax h else r)
        in r
      else percentile_loop h threshold (b + 1) sum1 cs)"

definition Percentile :: "histogram \<Rightarrow> double \<Rightarrow> double" where
  "Percentile h p = percentile_loop h (hnum h * (p / Fin 100)) 0 (Fin 0) (buckets h)"

definition Median :: "histogram \<Rightarrow> double" where
  "Median h = Percentile h (Fin 50)"

definition Average :: "histogram \<Rightarrow> double" where
  "Average h = (if hnum h = 0 then 0 else hsum h / hnum h)"

section \<open>The bucket limits\<close>

declare add_loop.simps [simp del]

lemma length_bucket_limit_ints [simp]: "length bucket_limit_ints = 153"
  by (simp add: bucket_limit_ints_def)

lemma length_kBucketLimit [simp]: "length kBucketLimit = 154"
  by (simp add: kBucketLimit_def)

lemma kBucketLimit_nth: "b < 153 \<Longrightarrow> kBucketLimit ! b = Fin (of_int (bucket_limit_ints ! b))"
  by (simp add: kBucketLimit_def nth_append)

lemma sorted_bucket_limits: "sorted_wrt (<) bucket_limit_ints"
  by (simp add: bucket_limit_ints_def sorted_wrt2_simps del: sorted_wrt.simps)

lemma bucket_limits_bound: "l \<in> set bucket_limit_ints \<Longrightarrow> 1 \<le> l \<and> l \<le> 9000000000"
  by (auto simp: bucket_limit_ints_def)

text \<open>From the tenth bucket on, each decade repeats the same sixteen steps.\<close>

definition decade_steps :: "int list" where
  "decade_steps = [10, 12, 14, 16, 18, 20, 25, 30, 35, 40, 45, 50, 60, 70, 80, 90, 100]"

lemma bucket_limits_decade_eval:
  "\<forall>k\<in>{0..<9}. \<forall>j\<in>{0..<16}. 
     bucket_limit_ints ! (9 + 16 * k + j) = decade_steps ! j * 10 ^ k \<and> 
     (9 + 16 * k + j = 152 \<or> bucket_limit_ints ! (10 + 16 * k + j) = decade_steps ! (j + 1) * 10 ^ k)"
  by code_simp

lemma bucket_limits_decade:
  assumes "k < 9" "j < 16"
  shows "bucket_limit_ints ! (9 + 16 * k + j) = decade_steps ! j * 10 ^ k"
    and "9 + 16 * k + j < 152 \<Longrightarrow>
      bucket_limit_ints ! (10 + 16 * k + j) = decade_steps ! (j + 1) * 10 ^ k"
  using bspec [OF bspec [OF bucket_limits_decade_eval, of k], of j] assms by simp_all

lemma add_loop_spec:
  assumes "b \<le> 153" "\<forall>c<b. of_int (bucket_limit_ints ! c) \<le> x"
  shows "add_loop (Fin x) b \<le> 153
    \<and> (\<forall>c<add_loop (Fin x) b. of_int (bucket_limit_ints ! c) \<le> x)
    \<and> (add_loop (Fin x) b < 153 \<longrightarrow> x < of_int (bucket_limit_ints ! add_loop (Fin x) b))"
  using assms
proof (induction "153 - b" arbitrary: b)
  case 0
  then have "add_loop (Fin x) b = b" by (subst add_loop.simps) (simp add: kNumBuckets_def)
  with 0 show ?case by simp
next
  case (Suc n)
  then have b: "b < 153" by simp
  show ?case
  proof (cases "of_int (bucket_limit_ints ! b) \<le> x")
    case True
    then have "add_loop (Fin x) b = add_loop (Fin x) (b + 1)"
      using b by (subst add_loop.simps) (simp add: kNumBuckets_def kBucketLimit_nth)
    then show ?thesis using Suc.hyps(1) [of "b + 1"] Suc.hyps(2) Suc.prems True b
      by (auto simp: less_Suc_eq)
  next
    case False
    then have "add_loop (Fin x) b = b"
      using b by (subst add_loop.simps) (simp add: kNumBuckets_def kBucketLimit_nth)
    with False Suc.prems show ?thesis by (simp add: not_le)
  qed
qed

lemma add_loop_bounds:
  "add_loop (Fin x) 0 \<le> 153"
  "c < add_loop (Fin x) 0 \<Longrightarrow> of_int (bucket_limit_ints ! c) \<le> x"
  "add_loop (Fin x) 0 < 153 \<Longrightarrow> x < of_int (bucket_limit_ints ! add_loop (Fin x) 0)"
  using add_loop_spec [of 0 x] by simp_all

section \<open>The loop of AddFast\<close>

lemma div10_bounds:
  assumes "0 \<le> x" "x \<le> 2 ^ Suc m" "m < 1024"
  shows "Fin x / Fin 10 = Fin (rnd (x / 10))" and "0 \<le> rnd (x / 10)" and "rnd (x / 10) < 2 ^ m"
proof -
  have up: "x / 10 \<le> 2 powi (int m - 1)" using assms by (simp add: power_int_diff)
  have "fin_d (Fin (2 powi (int m - 1)))" using assms(3) by (intro fin_d_powi) simp_all
  note b = of_rat_d_bounded [OF _ up _ this, of 0]
  show "Fin x / Fin 10 = Fin (rnd (x / 10))" "0 \<le> rnd (x / 10)" using b assms(1) by simp_all
  have "rnd (x / 10) \<le> 2 powi (int m - 1)" using b assms(1) by simp
  also have "\<dots> < 2 ^ m" by (simp add: power_int_diff)
  finally show "rnd (x / 10) < 2 ^ m" .
qed

lemma scale_down_total:
  assumes "0 \<le> x" "x < 2 ^ m" "m \<le> 1024"
  shows "\<exists>b q. scale_down (Fin x) p = Some (Fin b, q) \<and> p \<le> q \<and> q \<le> p + 16 * int m
    \<and> 0 \<le> b \<and> b < 100 \<and> (10 \<le> x \<longrightarrow> 10 \<le> b)"
  using assms
proof (induction m arbitrary: x p)
  case 0
  then show ?case by (auto simp: scale_down.simps)
next
  case (Suc m)
  show ?case
  proof (cases "100 \<le> x")
    case False
    with Suc.prems show ?thesis by (auto simp: scale_down.simps)
  next
    case True
    note d = div10_bounds [of x m]
    have x': "Fin x / Fin 10 = Fin (rnd (x / 10))" "0 \<le> rnd (x / 10)" "rnd (x / 10) < 2 ^ m"
      using d Suc.prems by simp_all
    have "10 \<le> rnd (x / 10)" using True by (intro rnd_ge_double) (simp_all add: fp_simps)
    moreover obtain b q where "scale_down (Fin (rnd (x / 10))) (p + 16) = Some (Fin b, q)"
      "p + 16 \<le> q" "q \<le> p + 16 + 16 * int m" "0 \<le> b" "b < 100"
      "10 \<le> rnd (x / 10) \<longrightarrow> 10 \<le> b"
      using Suc.IH [of "rnd (x / 10)" "p + 16"] x' Suc.prems by auto
    ultimately show ?thesis using True x' by (subst scale_down.simps) auto
  qed
qed

lemma scale_down_chain:
  assumes "10 * 10 ^ k \<le> x" "k \<le> 9" "fin_d (Fin x)"
  shows "\<exists>b. scale_down (Fin x) p = scale_down (Fin b) (p + 16 * int k) \<and> fin_d (Fin b)
    \<and> (\<forall>c::int. \<bar>c\<bar> \<le> 100 \<longrightarrow> of_int c * 10 ^ k \<le> x \<longrightarrow> of_int c \<le> b)
    \<and> b \<le> x / 10 ^ k * (1 + 1 / 2 ^ 53) ^ k"
  using assms
proof (induction k arbitrary: x p)
  case 0
  then show ?case by (intro exI [of _ x]) auto
next
  case (Suc k)
  let ?y = "rnd (x / 10)"
  have "(100::rat) \<le> 10 * 10 ^ Suc k" by simp
  then have x100: "100 \<le> x" using Suc.prems(1) by (rule order_trans)
  have y: "Fin x / Fin 10 = Fin ?y" "fin_d (Fin ?y)"
    using of_rat_d_bounded [of 0 "x / 10" x] x100 Suc.prems(3) by simp_all
  have step: "scale_down (Fin x) p = scale_down (Fin ?y) (p + 16)"
    using x100 by (subst scale_down.simps) (simp add: y del: Fin_arith)
  have low: "of_int c * 10 ^ k \<le> ?y" if c: "\<bar>c\<bar> \<le> 100" "of_int c * 10 ^ Suc k \<le> x" for c :: int
  proof -
    have ten: "(10::int) ^ k \<le> 10 ^ 9" using Suc.prems(2) by (intro power_increasing) simp_all
    have "is_double (of_int (c * 10 ^ k))"
    proof (rule is_double_int)
      have "\<bar>c * 10 ^ k\<bar> \<le> 100 * 10 ^ 9"
        unfolding abs_mult using c ten by (intro mult_mono) simp_all
      then show "\<bar>c * 10 ^ k\<bar> \<le> 2 ^ 53" by simp
    qed
    then have "of_int (c * 10 ^ k) \<le> ?y" using c by (intro rnd_ge_double) simp_all
    then show ?thesis by simp
  qed
  have up: "?y \<le> x / 10 * (1 + 1 / 2 ^ 53)"
  proof -
    have "(2::rat) powi (- 1022) \<le> 1" by (simp add: power_int_le_one power_int_minus)
    then have "2 powi (- 1022) \<le> x / 10" using x100 by linarith
    from abs_le_D1 [OF rnd_err [OF this]] show ?thesis by (simp add: distrib_left)
  qed
  have "10 * 10 ^ k \<le> ?y" using low [of 10] Suc.prems(1) by simp
  then obtain b where b: "scale_down (Fin ?y) (p + 16) = scale_down (Fin b) (p + 16 + 16 * int k)"
    "fin_d (Fin b)" "\<forall>c::int. \<bar>c\<bar> \<le> 100 \<longrightarrow> of_int c * 10 ^ k \<le> ?y \<longrightarrow> of_int c \<le> b"
    "b \<le> ?y / 10 ^ k * (1 + 1 / 2 ^ 53) ^ k"
    using Suc.IH [of ?y "p + 16"] Suc.prems(2) y(2) by auto
  have "b \<le> x / 10 * (1 + 1 / 2 ^ 53) / 10 ^ k * (1 + 1 / 2 ^ 53) ^ k"
    by (rule order_trans [OF b(4)], intro mult_right_mono divide_right_mono up) simp_all
  then have "b \<le> x / 10 ^ Suc k * (1 + 1 / 2 ^ 53) ^ Suc k" by (simp add: field_simps)
  with b low show ?case by (intro exI [of _ b]) (auto simp: step add.assoc)
qed


text \<open>One rounded operation between two bounds that are representable: an integer below, and
  a dyadic number just under the next integer above.\<close>

lemma of_rat_d_between:
  assumes "of_int m \<le> x" "x \<le> of_int n - 1 / 2 ^ g" "0 \<le> m" "m \<le> 2 ^ 53" "0 < n" "n * 2 ^ g \<le> 2 ^ 53"
    "g \<le> 1074"
  shows "of_rat_d x = Fin (rnd x)" "of_int m \<le> rnd x" "rnd x \<le> of_int n - 1 / 2 ^ g"
proof -
  have eq: "(of_int n - 1 / 2 ^ g :: rat) = of_int (n * 2 ^ g - 1) / 2 ^ g"
    by (simp add: diff_divide_distrib)
  have "1 \<le> n * 2 ^ g" using assms(5) by (metis int_one_le_iff_zero_less mult_pos_pos zero_less_numeral zero_less_power)
  then have hi: "fin_d (Fin (of_int n - 1 / 2 ^ g))"
    unfolding eq using assms(6,7) by (intro fin_d_dyadic) simp_all
  have lo: "fin_d (Fin (of_int m))" using assms(3,4) by (intro fin_d_int) simp
  from of_rat_d_bounded [OF assms(1,2) lo hi]
  show "of_rat_d x = Fin (rnd x)" "of_int m \<le> rnd x" "rnd x \<le> of_int n - 1 / 2 ^ g" by simp_all
qed

lemma int_of_d_between:
  assumes "of_int m \<le> x" "x < of_int m + 1" "0 \<le> m" "m < 2 ^ 31"
  shows "int_of_d (Fin x) = Inr m"
proof -
  have "\<lfloor>x\<rfloor> = m" using assms(1,2) by (simp add: floor_unique)
  moreover have "0 \<le> x" using assms(1,3) by (meson of_int_0_le_iff order_trans)
  ultimately show ?thesis using assms(3,4) by (simp add: trunc_rat_def)
qed

lemma int_of_d_floor: "0 \<le> x \<Longrightarrow> \<lfloor>x\<rfloor> < 2 ^ 31 \<Longrightarrow> int_of_d (Fin x) = Inr \<lfloor>x\<rfloor>"
  by (simp add: trunc_rat_def)

lemma fast_stage:
  fixes s q off j p :: int
  assumes q: "q \<in> {2, 5, 10}" and j: "0 \<le> j" "j \<le> 5" and s: "0 \<le> s" "s \<le> 50"
    and off: "0 \<le> off" "off \<le> 21" and p: "0 \<le> p" "p \<le> 128"
    and lo: "of_int (s + q * j) \<le> b" and hi: "b \<le> of_int (s + q * (j + 1)) - 1 / 2 ^ 37"
  shows "int_of_d (d_of_int p + (Fin (of_int off) + (Fin b - Fin (of_int s)) / Fin (of_int q)))
    = Inr (p + off + j)"
proof -
  have qr: "(0::rat) < of_int q" "(of_int q :: rat) \<le> 2 ^ 4" using q by auto
  have qj: "0 \<le> q * j" "q * j \<le> 50" "0 < q * (j + 1)" "q * (j + 1) \<le> 60" using q j by auto
  let ?b1 = "rnd (b - of_int s)"
  have b1: "of_rat_d (b - of_int s) = Fin ?b1" "of_int (q * j) \<le> ?b1"
      "?b1 \<le> of_int (q * (j + 1)) - 1 / 2 ^ 37"
    using of_rat_d_between [of "q * j" "b - of_int s" "q * (j + 1)" 37] lo hi qj by simp_all
  let ?b2 = "rnd (?b1 / of_int q)"
  have l2: "of_int j \<le> ?b1 / of_int q" using b1(2) qr by (simp add: pos_le_divide_eq mult.commute)
  have "?b1 / of_int q \<le> (of_int (q * (j + 1)) - 1 / 2 ^ 37) / of_int q"
    using b1(3) qr by (intro divide_right_mono) simp_all
  also have "\<dots> = of_int (j + 1) - 1 / (2 ^ 37 * of_int q)" using qr by (simp add: field_simps)
  also have "\<dots> \<le> of_int (j + 1) - 1 / (2 ^ 37 * 2 ^ 4)"
    using qr by (intro diff_left_mono divide_left_mono mult_left_mono) simp_all
  finally have h2: "?b1 / of_int q \<le> of_int (j + 1) - 1 / 2 ^ 41" by simp
  have b2: "of_rat_d (?b1 / of_int q) = Fin ?b2" "of_int j \<le> ?b2" "?b2 \<le> of_int (j + 1) - 1 / 2 ^ 41"
    using of_rat_d_between [OF l2 h2] j by simp_all
  let ?b3 = "rnd (of_int off + ?b2)"
  have b3: "of_rat_d (of_int off + ?b2) = Fin ?b3" "of_int (off + j) \<le> ?b3"
      "?b3 \<le> of_int (off + j + 1) - 1 / 2 ^ 41"
    using of_rat_d_between [of "off + j" "of_int off + ?b2" "off + j + 1" 41] b2 j off by simp_all
  let ?b4 = "rnd (of_int p + ?b3)"
  have b4: "of_rat_d (of_int p + ?b3) = Fin ?b4" "of_int (p + off + j) \<le> ?b4"
      "?b4 \<le> of_int (p + off + j + 1) - 1 / 2 ^ 41"
    using of_rat_d_between [of "p + off + j" "of_int p + ?b3" "p + off + j + 1" 41] b3 j off p by simp_all
  have "?b4 < of_int (p + off + j) + 1" using b4(3) by (rule le_less_trans) simp
  then have "int_of_d (Fin ?b4) = Inr (p + off + j)"
    using b4(2) j off p by (intro int_of_d_between) simp_all
  then show ?thesis using qr p by (simp add: b1(1) b2(1) b3(1) b4(1) d_of_int_exact)
qed

lemma fast_stage_ge:
  fixes s q off j p :: int
  assumes q: "q \<in> {2, 5, 10}" and j: "0 \<le> j" "j \<le> 5" and s: "0 \<le> s" "s \<le> 50"
    and off: "0 \<le> off" "off \<le> 21" and p: "0 \<le> p" "p \<le> 2 ^ 20"
    and lo: "of_int (s + q * j) \<le> b" and hi: "b \<le> 100"
  shows "\<exists>t. int_of_d (d_of_int p + (Fin (of_int off) + (Fin b - Fin (of_int s)) / Fin (of_int q)))
    = Inr t \<and> p + off + j \<le> t"
proof -
  have f: "fin_d (Fin (of_int m))" if "\<bar>m\<bar> \<le> 2 ^ 30" for m :: int
    using that by (intro fin_d_int) simp
  have qr: "(1::rat) \<le> of_int q" using q by auto
  have qj: "0 \<le> q * j" "q * j \<le> 50" using q j by auto
  let ?b1 = "rnd (b - of_int s)"
  have b1: "of_rat_d (b - of_int s) = Fin ?b1" "of_int (q * j) \<le> ?b1" "?b1 \<le> of_int 100"
    using of_rat_d_bounded [of "of_int (q * j)" "b - of_int s" "of_int 100"] f [of "q * j"] f [of 100]
      lo hi s qj by simp_all
  let ?b2 = "rnd (?b1 / of_int q)"
  have l2: "of_int j \<le> ?b1 / of_int q" using b1(2) qr by (simp add: pos_le_divide_eq mult.commute)
  have "0 \<le> ?b1" using b1(2) qj by (meson of_int_0_le_iff order_trans)
  then have "?b1 / of_int q \<le> ?b1 / 1" using qr by (intro divide_left_mono) simp_all
  then have h2: "?b1 / of_int q \<le> of_int 100" using b1(3) by simp
  have b2: "of_rat_d (?b1 / of_int q) = Fin ?b2" "of_int j \<le> ?b2" "?b2 \<le> of_int 100"
    using of_rat_d_bounded [OF l2 h2 f f] j by simp_all
  let ?b3 = "rnd (of_int off + ?b2)"
  have b3: "of_rat_d (of_int off + ?b2) = Fin ?b3" "of_int (off + j) \<le> ?b3" "?b3 \<le> of_int (off + 100)"
    using of_rat_d_bounded [of "of_int (off + j)" "of_int off + ?b2" "of_int (off + 100)"]
      f [of "off + j"] f [of "off + 100"] b2 j off by simp_all
  let ?b4 = "rnd (of_int p + ?b3)"
  have b4: "of_rat_d (of_int p + ?b3) = Fin ?b4" "of_int (p + off + j) \<le> ?b4"
      "?b4 \<le> of_int (p + off + 100)"
    using of_rat_d_bounded [of "of_int (p + off + j)" "of_int p + ?b3" "of_int (p + off + 100)"]
      f [of "p + off + j"] f [of "p + off + 100"] b3 j off p by simp_all
  have fl: "p + off + j \<le> \<lfloor>?b4\<rfloor>" "\<lfloor>?b4\<rfloor> \<le> p + off + 100"
    using b4(2,3) by (simp_all add: le_floor_iff floor_le_iff)
  have "int_of_d (Fin ?b4) = Inr \<lfloor>?b4\<rfloor>"
  proof (rule int_of_d_floor)
    have "(of_int 0 :: rat) \<le> of_int (p + off + j)" using p off j by (simp only: of_int_le_iff)
    then show "0 \<le> ?b4" using b4(2) by simp
    have "p + off + 100 < 2 ^ 31" using p off by simp
    with fl(2) show "\<lfloor>?b4\<rfloor> < 2 ^ 31" by (rule order_le_less_trans)
  qed
  then show ?thesis using qr p fl(1) by (simp add: b1(1) b2(1) b3(1) b4(1) d_of_int_exact)
qed

section \<open>AddFast computes the bucket of Add\<close>

definition clear_of_limits :: "rat \<Rightarrow> bool" where
  "clear_of_limits x \<longleftrightarrow> (\<forall>l\<in>set bucket_limit_ints. x < of_int l \<longrightarrow> x \<le> of_int l - 1 / 1024)"

lemma scaled_upper:
  fixes x :: rat
  assumes "k \<le> 8" "0 \<le> x" "x \<le> of_int c * 10 ^ k - 1 / 1024" "0 \<le> c" "c \<le> 100"
  shows "x / 10 ^ k * (1 + 1 / 2 ^ 53) ^ k \<le> of_int c - 1 / 2 ^ 37"
proof -
  let ?e = "(1 + 1 / 2 ^ 53 :: rat)"
  have p10: "(10::rat) ^ k \<le> 10 ^ 8" using assms(1) by (intro power_increasing) simp_all
  have e: "?e ^ k \<le> ?e ^ 8" using assms(1) by (intro power_increasing) simp_all
  have "1 / (1024 * 10 ^ 8) \<le> 1 / (1024 * 10 ^ k :: rat)"
    using p10 by (intro divide_left_mono) simp_all
  moreover have "x / 10 ^ k \<le> (of_int c * 10 ^ k - 1 / 1024) / 10 ^ k"
    using assms(3) by (intro divide_right_mono) simp_all
  moreover have "(of_int c * 10 ^ k - 1 / 1024) / 10 ^ k = of_int c - 1 / (1024 * 10 ^ k :: rat)"
    by (simp add: diff_divide_distrib)
  ultimately have y: "x / 10 ^ k \<le> of_int c - 1 / (1024 * 10 ^ 8)" by linarith
  have "x / 10 ^ k * ?e ^ k \<le> (of_int c - 1 / (1024 * 10 ^ 8)) * ?e ^ 8"
  proof (intro mult_mono y e)
    show "0 \<le> of_int c - 1 / (1024 * 10 ^ 8 :: rat)" using y assms(2) by (meson divide_nonneg_nonneg order_trans zero_le_numeral zero_le_power)
  qed simp
  also have "\<dots> = of_int c - 1 / (1024 * 10 ^ 8) + (of_int c - 1 / (1024 * 10 ^ 8)) * (?e ^ 8 - 1)"
    by (simp add: algebra_simps)
  also have "\<dots> \<le> of_int c - 1 / (1024 * 10 ^ 8) + 100 * (?e ^ 8 - 1)"
  proof (intro add_left_mono mult_right_mono)
    have "(of_int c :: rat) \<le> 100" using assms(5) by simp
    then show "of_int c - 1 / (1024 * 10 ^ 8) \<le> (100::rat)" by simp
  qed simp
  also have "\<dots> \<le> of_int c - 1 / 2 ^ 37"
  proof -
    have "?e ^ 8 - 1 \<le> 1 / 2 ^ 49" by (simp add: power_divide)
    then have "100 * (?e ^ 8 - 1) \<le> 100 * (1 / 2 ^ 49)" by (intro mult_left_mono) simp_all
    moreover have "100 * (1 / 2 ^ 49) \<le> 1 / (1024 * 10 ^ 8) - (1 / 2 ^ 37 :: rat)" by simp
    ultimately show ?thesis by linarith
  qed
  finally show ?thesis .
qed

lemma scale_down_decade:
  assumes k: "k \<le> 8" and j: "j < 16" and x: "fin_d (Fin x)"
    and lo: "of_int (decade_steps ! j) * 10 ^ k \<le> x"
    and hi: "x \<le> of_int (decade_steps ! Suc j) * 10 ^ k - 1 / 1024"
  obtains b where "scale_down (Fin x) 0 = Some (Fin b, 16 * int k)"
    "of_int (decade_steps ! j) \<le> b" "b \<le> of_int (decade_steps ! Suc j) - 1 / 2 ^ 37"
proof -
  have steps: "\<forall>j\<in>{0..<16}. 10 \<le> decade_steps ! j \<and> decade_steps ! j \<le> 100
      \<and> 0 \<le> decade_steps ! Suc j \<and> decade_steps ! Suc j \<le> 100"
    by code_simp
  have c: "10 \<le> decade_steps ! j" "decade_steps ! j \<le> 100" "0 \<le> decade_steps ! Suc j"
      "decade_steps ! Suc j \<le> 100"
    using bspec [OF steps, of j] j by simp_all
  have "(10::rat) * 10 ^ k \<le> of_int (decade_steps ! j) * 10 ^ k"
    using c(1) by (intro mult_right_mono) simp_all
  then have x10: "10 * 10 ^ k \<le> x" using lo by (rule order_trans)
  moreover have "(0::rat) \<le> 10 * 10 ^ k" by simp
  ultimately have x0: "0 \<le> x" by linarith
  obtain b where b: "scale_down (Fin x) 0 = scale_down (Fin b) (0 + 16 * int k)"
      "\<forall>c::int. \<bar>c\<bar> \<le> 100 \<longrightarrow> of_int c * 10 ^ k \<le> x \<longrightarrow> of_int c \<le> b"
      "b \<le> x / 10 ^ k * (1 + 1 / 2 ^ 53) ^ k"
    using scale_down_chain [OF x10 _ x, of 0] k by auto
  have bh: "b \<le> of_int (decade_steps ! Suc j) - 1 / 2 ^ 37"
    using b(3) scaled_upper [OF k x0 hi c(3,4)] by simp
  have "(of_int (decade_steps ! Suc j) :: rat) \<le> 100" using c(4) by simp
  then have "b < 100" using bh by simp
  then have "scale_down (Fin b) (0 + 16 * int k) = Some (Fin b, 16 * int k)"
    by (subst scale_down.simps) simp
  then show ?thesis using that [of b] b(1,2) bh lo c by simp
qed

lemma fast_pos_decade:
  assumes k: "k \<le> 8" and j: "j < 16" and x: "fin_d (Fin x)"
    and lo: "of_int (decade_steps ! j) * 10 ^ k \<le> x"
    and hi: "x \<le> of_int (decade_steps ! Suc j) * 10 ^ k - 1 / 1024"
  shows "fast_pos (Fin x) = Inr (10 + 16 * int k + int j)"
proof -
  obtain b where b: "scale_down (Fin x) 0 = Some (Fin b, 16 * int k)"
    "of_int (decade_steps ! j) \<le> b" "b \<le> of_int (decade_steps ! Suc j) - 1 / 2 ^ 37"
    using scale_down_decade [OF assms] .
  have "\<forall>j\<in>{0..<16}. 10 \<le> decade_steps ! j" by code_simp
  then have "10 \<le> decade_steps ! j" using j by simp
  then have "(10::rat) * 1 \<le> of_int (decade_steps ! j) * 10 ^ k" by (intro mult_mono) simp_all
  then have x10: "10 \<le> x" using lo by simp
  have cases: "j = 0 \<or> j = 1 \<or> j = 2 \<or> j = 3 \<or> j = 4 \<or> j = 5 \<or> j = 6 \<or> j = 7 \<or> j = 8 \<or> j = 9 \<or> j = 10
      \<or> j = 11 \<or> j = 12 \<or> j = 13 \<or> j = 14 \<or> j = 15" using j by presburger
  have k16: "0 \<le> 16 * int k" "16 * int k \<le> 128" using k by simp_all
  consider "j \<le> 4" | "5 \<le> j" "j \<le> 10" | "11 \<le> j" by linarith
  then show ?thesis
  proof cases
    case jj: 1
    then have lim: "decade_steps ! j = 10 + 2 * int j" "decade_steps ! Suc j = 10 + 2 * (int j + 1)"
      using cases by (elim disjE; simp add: decade_steps_def)+
    then have "10 \<le> b" "b < 20" using b(2,3) jj by auto
    then show ?thesis
      using fast_stage [of 2 "int j" 10 10 "16 * int k" b] b lim k16 jj x10 by (simp add: fast_pos_def)
  next
    case jj: 2
    then have lim: "decade_steps ! j = 20 + 5 * (int j - 5)" "decade_steps ! Suc j = 20 + 5 * (int j - 5 + 1)"
      using cases by (elim disjE; simp add: decade_steps_def)+
    then have "20 \<le> b" "b < 50" using b(2,3) jj by auto
    then show ?thesis
      using fast_stage [of 5 "int j - 5" 20 15 "16 * int k" b] b lim k16 jj x10 by (simp add: fast_pos_def)
  next
    case jj: 3
    then have lim: "decade_steps ! j = 50 + 10 * (int j - 11)" "decade_steps ! Suc j = 50 + 10 * (int j - 11 + 1)"
      using cases by (elim disjE; simp add: decade_steps_def)+
    then have "50 \<le> b" "b < 100" using b(2,3) jj j by auto
    then show ?thesis
      using fast_stage [of 10 "int j - 11" 50 21 "16 * int k" b] b lim k16 jj x10 by (simp add: fast_pos_def)
  qed
qed

text \<open>Wherever the loop stops, the stage after it yields at least the first bucket of the decade.\<close>

definition last_stage :: "rat \<Rightarrow> int \<Rightarrow> int result" where
  "last_stage b p =
     (if b < 20 then int_of_d (d_of_int p + (Fin 10 + (Fin b - Fin 10) / Fin 2))
      else if b < 50 then int_of_d (d_of_int p + (Fin 15 + (Fin b - Fin 20) / Fin 5))
      else int_of_d (d_of_int p + (Fin 21 + (Fin b - Fin 50) / Fin 10)))"

lemma fast_pos_last_stage:
  assumes "10 \<le> x" "scale_down (Fin x) 0 = Some (Fin b, p)" "10 \<le> b" "b < 100"
  shows "fast_pos (Fin x) = last_stage b p"
  using assms by (auto simp: fast_pos_def last_stage_def)

lemma last_stage_ge:
  assumes "10 \<le> b" "b < 100" "0 \<le> p" "p \<le> 2 ^ 20"
  obtains t where "last_stage b p = Inr t" "p + 10 \<le> t" "90 \<le> b \<Longrightarrow> p + 25 \<le> t"
proof -
  consider "b < 20" | "20 \<le> b" "b < 50" | "50 \<le> b" by linarith
  then show ?thesis
  proof cases
    case 1
    then show ?thesis
      using fast_stage_ge [of 2 0 10 10 p b] assms by (auto simp: last_stage_def intro: that)
  next
    case 2
    then show ?thesis
      using fast_stage_ge [of 5 0 20 15 p b] assms by (auto simp: last_stage_def intro: that)
  next
    case 3
    show ?thesis
    proof (cases "90 \<le> b")
      case True
      then show ?thesis
        using fast_stage_ge [of 10 4 50 21 p b] assms 3 by (auto simp: last_stage_def intro: that)
    next
      case False
      then show ?thesis
        using fast_stage_ge [of 10 0 50 21 p b] assms 3 by (auto simp: last_stage_def intro: that)
    qed
  qed
qed

lemma fast_pos_total:
  assumes "10 \<le> x" "x < 2 ^ 1024"
  obtains t where "fast_pos (Fin x) = Inr t" "10 \<le> t"
proof -
  obtain b p where b: "scale_down (Fin x) 0 = Some (Fin b, p)" "0 \<le> p" "p \<le> 0 + 16 * int 1024"
      "b < 100" "10 \<le> b"
    using scale_down_total [of x 1024 0] assms by auto
  then obtain t where "last_stage b p = Inr t" "p + 10 \<le> t"
    using last_stage_ge [of b p] by auto
  then show ?thesis using that [of t] fast_pos_last_stage [OF assms(1) b(1)] b by simp
qed

lemma fast_pos_large:
  assumes x: "fin_d (Fin x)" "9000000000 \<le> x"
  obtains t where "fast_pos (Fin x) = Inr t" "153 \<le> t"
proof -
  obtain b where b: "scale_down (Fin x) 0 = scale_down (Fin b) 128" "fin_d (Fin b)" "90 \<le> b"
  proof -
    have x10: "10 * 10 ^ 8 \<le> x" using x(2) by simp
    obtain b where b: "scale_down (Fin x) 0 = scale_down (Fin b) (0 + 16 * int 8)" "fin_d (Fin b)"
        "\<forall>c::int. \<bar>c\<bar> \<le> 100 \<longrightarrow> of_int c * 10 ^ 8 \<le> x \<longrightarrow> of_int c \<le> b"
      using scale_down_chain [OF x10 _ x(1), of 0] by auto
    have "90 \<le> b" using spec [OF b(3), of 90] x(2) by simp
    with b that show ?thesis by simp
  qed
  obtain c p where c: "scale_down (Fin b) 128 = Some (Fin c, p)" "128 \<le> p" "p \<le> 128 + 16 * int 1024"
      "c < 100" "10 \<le> c"
    using scale_down_total [of b 1024 128] b by auto
  then obtain t where t: "last_stage c p = Inr t" "p + 10 \<le> t" "90 \<le> c \<Longrightarrow> p + 25 \<le> t"
    using last_stage_ge [of c p] by auto
  have "90 \<le> c \<or> 144 \<le> p"
  proof (cases "100 \<le> b")
    case True
    then have "scale_down (Fin b) 128 = scale_down (Fin (rnd (b / 10))) 144"
      using of_rat_d_bounded [of 0 "b / 10" b] b(2) by (subst scale_down.simps) simp
    then show ?thesis
      using scale_down_total [of "rnd (b / 10)" 1024 144] of_rat_d_bounded [of 0 "b / 10" b] b c True
      by auto
  next
    case False
    then have "scale_down (Fin b) 128 = Some (Fin b, 128)" by (subst scale_down.simps) simp
    with c(1) b(3) show ?thesis by simp
  qed
  then have "153 \<le> t" using t c(2) by auto
  then show ?thesis
    using that [of t] fast_pos_last_stage [of x c p] x b(1) c t(1) by simp
qed

lemma fast_pos_small: "0 \<le> x \<Longrightarrow> x < 10 \<Longrightarrow> fast_pos (Fin x) = Inr \<lfloor>x\<rfloor>"
  using int_of_d_floor [of x] by (simp add: fast_pos_def floor_less_iff del: int_of_d.simps)

lemma fast_pos_negative: "x < 0 \<Longrightarrow> fast_pos (Fin x) = Inr 0"
  by (simp add: fast_pos_def scale_down.simps)

lemma add_loop_negative: "x < 0 \<Longrightarrow> add_loop (Fin x) 0 = 0"
  by (subst add_loop.simps) (simp add: kNumBuckets_def kBucketLimit_nth bucket_limit_ints_def)

lemma fast_pos_add_loop_nonneg:
  assumes x: "fin_d (Fin x)" "0 \<le> x" "clear_of_limits x"
  obtains t where "fast_pos (Fin x) = Inr t" "min t 153 = int (add_loop (Fin x) 0)"
proof -
  let ?i = "add_loop (Fin x) 0"
  note i = add_loop_bounds [where x = x]
  consider "?i < 10" | "10 \<le> ?i" "?i < 153" | "?i = 153" using i(1) by linarith
  then show ?thesis
  proof cases
    case 1
    have "\<forall>b\<in>{0..<10}. bucket_limit_ints ! b = int b + 1" by code_simp
    then have lim: "b < 10 \<Longrightarrow> bucket_limit_ints ! b = int b + 1" for b by simp
    have "x < of_int (int ?i + 1)" using i(3) lim [OF 1] 1 by simp
    moreover have "of_int (int ?i) \<le> x"
      using i(2) [of "?i - 1"] lim [of "?i - 1"] 1 x(2) by (cases "?i = 0") (auto simp: of_nat_diff)
    ultimately have "\<lfloor>x\<rfloor> = int ?i" by (intro floor_unique) simp_all
    moreover have "x < 10" using \<open>x < of_int (int ?i + 1)\<close> 1 by simp
    ultimately show ?thesis using fast_pos_small [OF x(2)] that 1 by simp
  next
    case 2
    define k where "k = (?i - 10) div 16"
    define j where "j = (?i - 10) mod 16"
    have kj: "?i = 10 + 16 * k + j" "j < 16" using 2(1) by (simp_all add: k_def j_def)
    then have k: "k < 9" "9 + 16 * k + j < 152" using 2(2) by simp_all
    have lo: "of_int (decade_steps ! j) * 10 ^ k \<le> x"
      using i(2) [of "9 + 16 * k + j"] bucket_limits_decade(1) [OF k(1) kj(2)] kj by simp
    have lim: "bucket_limit_ints ! ?i = decade_steps ! Suc j * 10 ^ k"
      using bucket_limits_decade(2) [OF k(1) kj(2) k(2)] kj(1) by simp
    have "x \<le> of_int (bucket_limit_ints ! ?i) - 1 / 1024"
      using i(3) [OF 2(2)] x(3) 2(2) by (auto simp: clear_of_limits_def)
    then have hi: "x \<le> of_int (decade_steps ! Suc j) * 10 ^ k - 1 / 1024" by (simp add: lim)
    show ?thesis using fast_pos_decade [OF _ kj(2) x(1) lo hi] that k kj(1) by simp
  next
    case 3
    have "bucket_limit_ints ! 152 = 9000000000" by code_simp
    then have "9000000000 \<le> x" using i(2) [of 152] 3 by simp
    then show ?thesis using fast_pos_large [OF x(1)] that 3 by (metis min.absorb2 of_nat_numeral)
  qed
qed

lemma fast_pos_add_loop:
  assumes "fin_d (Fin x)" "clear_of_limits x"
  obtains t where "fast_pos (Fin x) = Inr t" "min t 153 = int (add_loop (Fin x) 0)"
proof (cases "0 \<le> x")
  case True
  then show ?thesis using fast_pos_add_loop_nonneg assms that by blast
next
  case False
  then show ?thesis using fast_pos_negative [of x] add_loop_negative [of x] that [of 0] by simp
qed

lemma AddFast_eq_Add:
  assumes "fin_d (Fin x)" "clear_of_limits x"
  shows "AddFast h (Fin x) = Inr (Add h (Fin x))"
proof -
  obtain t where t: "fast_pos (Fin x) = Inr t" "min t 153 = int (add_loop (Fin x) 0)"
    using fast_pos_add_loop [OF assms] .
  then have "0 \<le> t" "nat (if 154 \<le> t then 153 else t) = add_loop (Fin x) 0"
    by (auto simp: min_def split: if_splits)
  with t(1) show ?thesis by (auto simp: AddFast_def Add_def kNumBuckets_def Let_def)
qed

lemma timer_value:
  fixes n :: int
  assumes n: "\<bar>n\<bar> \<le> 2 ^ 53"
  shows "fin_d (Fin (rnd (of_int n / 1000)))"
    and "of_rat_d (of_int n / 1000) = Fin (rnd (of_int n / 1000))"
    and "clear_of_limits (rnd (of_int n / 1000))"
proof -
  let ?x = "of_int n / 1000 :: rat"
  have "(of_int \<bar>n\<bar> :: rat) \<le> of_int (2 ^ 53)" using n by (simp only: of_int_le_iff)
  then have b: "of_int (- (2 ^ 53)) \<le> ?x" "?x \<le> of_int (2 ^ 53)" by (simp_all add: abs_if split: if_splits)
  have f: "fin_d (Fin (of_int (- (2 ^ 53))))" "fin_d (Fin (of_int (2 ^ 53)))"
    by (intro fin_d_int; simp)+
  from of_rat_d_bounded [OF b f]
  show "fin_d (Fin (rnd ?x))" "of_rat_d ?x = Fin (rnd ?x)" by simp_all
  show "clear_of_limits (rnd ?x)"
    unfolding clear_of_limits_def
  proof (intro ballI impI)
    fix l assume l: "l \<in> set bucket_limit_ints" and lt: "rnd ?x < of_int l"
    have lb: "1 \<le> l" "l \<le> 9000000000" using bucket_limits_bound [OF l] by auto
    have "?x < of_int l"
      using lt lb rnd_ge_double [of "of_int l" ?x] is_double_int [of l] by (auto simp: not_le [symmetric])
    then have "of_int n < (of_int (1000 * l) :: rat)" by simp
    then have "n \<le> 1000 * l - 1" by (simp only: of_int_less_iff)
    then have "(of_int n :: rat) \<le> of_int (1000 * l - 1)" by (simp only: of_int_le_iff)
    then have "?x \<le> of_int l - 1 / 2 ^ 10" by simp
    moreover have "fin_d (Fin (of_int (l * 2 ^ 10 - 1) / 2 ^ 10))"
      using lb by (intro fin_d_dyadic) simp_all
    moreover have "of_int (l * 2 ^ 10 - 1) / 2 ^ 10 = (of_int l - 1 / 2 ^ 10 :: rat)"
      by (simp add: diff_divide_distrib)
    ultimately show "rnd ?x \<le> of_int l - 1 / 1024"
      using rnd_le_double [of ?x "of_int l - 1 / 2 ^ 10"] by (simp only: fin_d.simps) simp
  qed
qed

section \<open>Termination of AddFast\<close>

lemma scale_down_PInf: "scale_down PInf p = None"
proof (rule ccontr)
  assume "scale_down PInf p \<noteq> None"
  then obtain r where r: "scale_down PInf p = Some r" by auto
  have "PInf \<noteq> PInf"
  proof (rule scale_down.raw_induct [where P = "\<lambda>b p r. b \<noteq> PInf", OF _ r])
    fix f b p r
    assume IH: "\<And>b p r. f b p = Some r \<Longrightarrow> b \<noteq> PInf"
      and eq: "(if Fin 100 \<le> b then f (b / Fin 10) (p + 16) else Some (b, p)) = Some r"
    show "b \<noteq> PInf"
    proof
      assume b: "b = PInf"
      then have "f PInf (p + 16) = Some r" using eq by (simp add: fp_simps)
      then show False using IH by blast
    qed
  qed
  then show False by simp
qed

lemma AddFast_finite:
  assumes "fin_d (Fin x)"
  obtains b where "b < 154" "AddFast h (Fin x) = Inr (record_at b (Fin x) h)"
proof -
  obtain t where t: "fast_pos (Fin x) = Inr t" "0 \<le> t"
  proof -
    consider "x < 0" | "0 \<le> x" "x < 10" | "10 \<le> x" by linarith
    then show ?thesis
    proof cases
      case 1 then show ?thesis using fast_pos_negative that by simp
    next
      case 2 then show ?thesis using fast_pos_small that by simp
    next
      case 3
      then obtain t where "fast_pos (Fin x) = Inr t" "10 \<le> t" using fast_pos_total [of x] assms by auto
      then show ?thesis using that [of t] by simp
    qed
  qed
  have "AddFast h (Fin x) = Inr (record_at (nat (if 154 \<le> t then 153 else t)) (Fin x) h)"
    using t by (auto simp: AddFast_def kNumBuckets_def Let_def)
  then show ?thesis by (rule that [rotated]) (use t(2) in auto)
qed

end
