(* ===== verification/Timer.thy ===== *)
theory Timer
  imports Double
begin

text \<open>
  The stopwatch (core/timer.h). A time point of the high resolution clock is its count of
  nanoseconds; End casts the difference to a duration whose count is a double, which divides
  the count, converted to double, by the number of nanoseconds in the unit. The program uses
  microseconds for the latency of one operation and seconds for a whole phase.
\<close>

record timer =
  time_point :: int

definition Start :: "int \<Rightarrow> timer \<Rightarrow> timer" where
  "Start now t = t\<lparr>time_point := now\<rparr>"

definition End_us :: "int \<Rightarrow> timer \<Rightarrow> double" where
  "End_us now t = d_of_int (now - time_point t) / Fin 1000"

definition End_s :: "int \<Rightarrow> timer \<Rightarrow> double" where
  "End_s now t = d_of_int (now - time_point t) / Fin 1000000000"

lemma End_us_Start:
  assumes "\<bar>now - start\<bar> \<le> 2 ^ 53"
  shows "End_us now (Start start t) = of_rat_d (of_int (now - start) / 1000)"
  using d_of_int_exact [OF assms] by (simp add: End_us_def Start_def)

end
