(* ===== verification/Histogram_Stats.thy ===== *)
theory Histogram_Stats
  imports Histogram Timer
begin

text \<open>
  What the histogram promises: it represents the list of samples it has received
  (\<open>hist_repr\<close>, a simulation kept by Clear, Add, AddFast and Merge), and its percentiles lie
  between the extremes and grow with the percentage.
\<close>

section \<open>The histogram represents the samples\<close>

text \<open>
  The abstract state of a histogram is the list of the samples it has received. As long as there
  are at most \<open>2 ^ 53\<close> of them every counter is exact.
\<close>

definition top_limit :: rat where
  "top_limit = rnd (10 ^ 200)"

definition in_bucket :: "rat list \<Rightarrow> nat \<Rightarrow> nat" where
  "in_bucket xs b = length (filter (\<lambda>x. add_loop (Fin x) 0 = b) xs)"

definition hist_repr :: "histogram \<Rightarrow> rat list \<Rightarrow> bool" where
  "hist_repr h xs \<longleftrightarrow> length xs \<le> 2 ^ 53
     \<and> hnum h = Fin (of_nat (length xs))
     \<and> buckets h = map (\<lambda>b. Fin (of_nat (in_bucket xs b))) [0..<154]
     \<and> hmin h = Fin (foldr min xs top_limit)
     \<and> hmax h = Fin (foldr max xs 0)"

lemma top_limit_bounds: "2 ^ 600 \<le> top_limit" "top_limit \<le> 2 ^ 800" "fin_d (Fin top_limit)"
    "of_rat_d (10 ^ 200) = Fin top_limit"
proof -
  have m: "(8::rat) ^ 200 \<le> 10 ^ 200" "(10::rat) ^ 200 \<le> 16 ^ 200" by (rule power_mono; simp)+
  have e: "(8::rat) ^ 200 = 2 powi 600" "(16::rat) ^ 200 = 2 powi 800"
    using power_mult [of "2::rat" 3 200] power_mult [of "2::rat" 4 200] by simp_all
  have f: "fin_d (Fin (2 powi 600))" "fin_d (Fin (2 powi 800))" by (rule fin_d_powi; simp)+
  note b = of_rat_d_bounded [OF m [unfolded e] f, folded top_limit_def]
  show "2 ^ 600 \<le> top_limit" "top_limit \<le> 2 ^ 800" "fin_d (Fin top_limit)"
    "of_rat_d (10 ^ 200) = Fin top_limit"
    using b by (simp_all only: power_int_numeral)
qed

lemma kBucketLimit_last: "kBucketLimit ! 153 = Fin top_limit"
  unfolding kBucketLimit_def top_limit_bounds(4) by (simp add: nth_append)

lemma of_rat_d_nat: "n \<le> 2 ^ 53 \<Longrightarrow> of_rat_d (of_nat n) = Fin (of_nat n)"
  using of_rat_d_int [of "int n"] by simp

lemma add_nat_d: "m + n \<le> 2 ^ 53 \<Longrightarrow> Fin (of_nat m) + Fin (of_nat n) = Fin (of_nat (m + n))"
  using of_rat_d_nat [of "m + n"] by simp

lemma in_bucket_le: "in_bucket xs b \<le> length xs"
  by (simp add: in_bucket_def)

lemma hist_repr_Clear: "hist_repr (Clear h) []"
proof -
  have "buckets (Clear h) = map (\<lambda>b. Fin 0) [0..<154]"
    by (simp add: Clear_def kNumBuckets_def map_replicate_const)
  then show ?thesis
    by (simp add: hist_repr_def in_bucket_def) (simp add: Clear_def kNumBuckets_def kBucketLimit_last)
qed

lemma foldr_min_le: "foldr min xs (t::rat) \<le> t"
  by (induction xs) (auto intro: min.coboundedI2)

lemma foldr_max_ge: "(t::rat) \<le> foldr max xs t"
  by (induction xs) (auto intro: max.coboundedI2)

lemma foldr_min_split: "(c::rat) \<le> t \<Longrightarrow> foldr min xs c = min (foldr min xs t) c"
  by (induction xs) (simp_all add: min.assoc)

lemma foldr_max_split: "(t::rat) \<le> c \<Longrightarrow> foldr max xs c = max (foldr max xs t) c"
  by (induction xs) (simp_all add: max.assoc)

lemma hist_repr_Add:
  assumes h: "hist_repr h xs" and n: "length xs < 2 ^ 53"
  shows "hist_repr (Add h (Fin x)) (x # xs)"
proof -
  let ?i = "add_loop (Fin x) 0"
  have i: "?i < 154" using add_loop_bounds(1) [of x] by simp
  have one: "Fin (of_nat k) + 1 = Fin (of_nat (Suc k))" if "k < 2 ^ 53" for k
    using add_nat_d [of k 1] that by simp
  have "in_bucket xs ?i < 2 ^ 53" using in_bucket_le [of xs ?i] n by simp
  then have "buckets (Add h (Fin x)) = map (\<lambda>b. Fin (of_nat (in_bucket (x # xs) b))) [0..<154]"
    using h i one
    by (auto simp: Add_def record_at_def hist_repr_def in_bucket_def nth_list_update intro!: nth_equalityI simp del: zero_one_Fin)
  then show ?thesis
    using h n one [of "length xs"]
    by (simp add: hist_repr_def Add_def record_at_def min_def max_def del: zero_one_Fin)
qed

lemma hist_repr_Merge:
  assumes h: "hist_repr h xs" and g: "hist_repr g ys" and n: "length xs + length ys \<le> 2 ^ 53"
  shows "hist_repr (Merge h g) (xs @ ys)"
proof -
  have "in_bucket xs b + in_bucket ys b \<le> 2 ^ 53" for b
    using in_bucket_le [of xs b] in_bucket_le [of ys b] n by simp
  then have "buckets (Merge h g) = map (\<lambda>b. Fin (of_nat (in_bucket (xs @ ys) b))) [0..<154]"
    using h g by (intro nth_equalityI) (simp_all add: Merge_def hist_repr_def in_bucket_def add_nat_d del: Fin_arith)
  moreover have "foldr min xs (foldr min ys top_limit) = min (foldr min xs top_limit) (foldr min ys top_limit)"
    by (rule foldr_min_split [OF foldr_min_le])
  moreover have "foldr max xs (foldr max ys 0) = max (foldr max xs 0) (foldr max ys 0)"
    by (rule foldr_max_split [OF foldr_max_ge])
  ultimately show ?thesis
    using h g n by (simp add: hist_repr_def Merge_def min_def max_def add_nat_d del: Fin_arith)
qed

section \<open>Percentiles\<close>

text \<open>The interpolation inside the bucket found, and the clamping by the extremes.\<close>

definition interp_d :: "nat \<Rightarrow> double \<Rightarrow> double \<Rightarrow> double \<Rightarrow> double" where
  "interp_d b threshold sum1 c =
     (let left_point = (if b = 0 then Fin 0 else kBucketLimit ! (b - 1)); left_sum = sum1 - c in
      left_point + (kBucketLimit ! b - left_point) * ((threshold - left_sum) / (sum1 - left_sum)))"

definition clamp_d :: "histogram \<Rightarrow> double \<Rightarrow> double" where
  "clamp_d h r = (let r = (if r < hmin h then hmin h else r) in if hmax h < r then hmax h else r)"

lemma percentile_loop_Cons:
  "percentile_loop h threshold b s (c # cs) =
     (if threshold \<le> s + c then clamp_d h (interp_d b threshold (s + c) c)
      else percentile_loop h threshold (b + 1) (s + c) cs)"
  by (simp only: percentile_loop.simps Let_def interp_d_def clamp_d_def)

declare percentile_loop.simps(2) [simp del]

definition left_of :: "nat \<Rightarrow> rat" where
  "left_of b = (if b = 0 then 0 else of_int (bucket_limit_ints ! (b - 1)))"

lemma percentile_loop_finds:
  assumes "of_nat s < T" "T \<le> of_nat (s + sum_list cs)" "s + sum_list cs \<le> 2 ^ 53"
  shows "\<exists>b<length cs. of_nat (s + sum_list (take b cs)) < T
    \<and> T \<le> of_nat (s + sum_list (take b cs) + cs ! b)
    \<and> percentile_loop h (Fin T) b0 (Fin (of_nat s)) (map (\<lambda>n. Fin (of_nat n)) cs)
      = clamp_d h (interp_d (b0 + b) (Fin T) (Fin (of_nat (s + sum_list (take b cs) + cs ! b))) (Fin (of_nat (cs ! b))))"
  using assms
proof (induction cs arbitrary: s b0)
  case Nil
  then show ?case by simp
next
  case (Cons c cs)
  have sum: "Fin (of_nat s) + Fin (of_nat c) = Fin (of_nat (s + c))"
    using Cons.prems(3) by (intro add_nat_d) simp
  show ?case
  proof (cases "T \<le> of_nat (s + c)")
    case True
    then show ?thesis
      using Cons.prems(1) sum by (intro exI [of _ 0]) (simp add: percentile_loop_Cons del: Fin_arith)
  next
    case False
    then have "of_nat (s + c) < T" by simp
    then obtain b where b: "b < length cs" "of_nat (s + c + sum_list (take b cs)) < T"
      "T \<le> of_nat (s + c + sum_list (take b cs) + cs ! b)"
      "percentile_loop h (Fin T) (b0 + 1) (Fin (of_nat (s + c))) (map (\<lambda>n. Fin (of_nat n)) cs)
      = clamp_d h (interp_d (b0 + 1 + b) (Fin T) (Fin (of_nat (s + c + sum_list (take b cs) + cs ! b))) (Fin (of_nat (cs ! b))))"
      using Cons.IH [of "s + c" "b0 + 1"] Cons.prems(2,3) by (auto simp: add.assoc)
    have "percentile_loop h (Fin T) b0 (Fin (of_nat s)) (map (\<lambda>n. Fin (of_nat n)) (c # cs))
      = percentile_loop h (Fin T) (b0 + 1) (Fin (of_nat (s + c))) (map (\<lambda>n. Fin (of_nat n)) cs)"
      using False sum by (simp add: percentile_loop_Cons del: Fin_arith)
    with b show ?thesis by (intro exI [of _ "Suc b"]) (simp add: add.assoc)
  qed
qed

definition right_of :: "nat \<Rightarrow> rat" where
  "right_of b = (if b < 153 then of_int (bucket_limit_ints ! b) else top_limit)"

definition interp_r :: "nat \<Rightarrow> nat \<Rightarrow> nat \<Rightarrow> rat \<Rightarrow> rat" where
  "interp_r b left c T =
     rnd (left_of b + rnd (rnd (right_of b - left_of b) * rnd (rnd (T - of_nat left) / of_nat c)))"

lemma limit_points:
  assumes "b < 154"
  shows "(if b = 0 then Fin 0 else kBucketLimit ! (b - 1)) = Fin (left_of b)"
    and "kBucketLimit ! b = Fin (right_of b)"
proof -
  have "b < 153 \<or> b = 153" using assms by linarith
  then show "kBucketLimit ! b = Fin (right_of b)"
    using kBucketLimit_last by (auto simp: right_of_def kBucketLimit_nth)
  show "(if b = 0 then Fin 0 else kBucketLimit ! (b - 1)) = Fin (left_of b)"
    using assms by (simp add: left_of_def kBucketLimit_nth)
qed

lemma left_of_int:
  assumes "b < 154"
  obtains l where "left_of b = of_int l" "0 \<le> l" "l \<le> 9000000000"
proof (cases "b = 0")
  case True
  then show ?thesis using that [of 0] by (simp add: left_of_def)
next
  case False
  then have "bucket_limit_ints ! (b - 1) \<in> set bucket_limit_ints" using assms by (intro nth_mem) simp
  from bucket_limits_bound [OF this] show ?thesis
    using that [of "bucket_limit_ints ! (b - 1)"] False by (simp add: left_of_def)
qed

lemma right_of_int:
  assumes "b < 153"
  obtains r where "right_of b = of_int r" "0 \<le> r" "r \<le> 9000000000"
  using assms bucket_limits_bound [OF nth_mem, of b] that [of "bucket_limit_ints ! b"]
  by (auto simp: right_of_def)

lemma left_right:
  assumes "b < c" "c < 154"
  shows "right_of b \<le> left_of c"
proof -
  have "bucket_limit_ints ! b \<le> bucket_limit_ints ! (c - 1)"
    using sorted_wrt_nth_less [OF sorted_bucket_limits, of b "c - 1"] assms
    by (cases "b = c - 1") (auto intro: less_imp_le)
  then show ?thesis using assms by (simp add: left_of_def right_of_def)
qed

lemma left_le_right:
  assumes "b < 154"
  shows "left_of b \<le> right_of b"
proof (cases "b < 153")
  case True
  have "b \<noteq> 0 \<Longrightarrow> bucket_limit_ints ! (b - 1) < bucket_limit_ints ! b"
    using sorted_wrt_nth_less [OF sorted_bucket_limits, of "b - 1" b] True by simp
  moreover have "0 \<le> bucket_limit_ints ! b"
    using bucket_limits_bound [OF nth_mem, of b] True by simp
  ultimately show ?thesis using True by (cases "b = 0") (simp_all add: left_of_def right_of_def less_imp_le)
next
  case False
  obtain l where "left_of b = of_int l" "l \<le> 9000000000" using left_of_int [OF assms] .
  then have "left_of b \<le> 9000000000" by simp
  also have "\<dots> \<le> (2::rat) ^ 600" by simp
  finally show ?thesis using False top_limit_bounds(1) by (simp add: right_of_def)
qed

lemma right_of_fin: "b < 154 \<Longrightarrow> fin_d (Fin (right_of b)) \<and> right_of b \<le> 2 ^ 800"
proof (cases "b < 153")
  case True
  then obtain r where r: "right_of b = of_int r" "0 \<le> r" "r \<le> 9000000000" by (rule right_of_int)
  then have "right_of b \<le> 9000000000" by simp
  also have "\<dots> \<le> (2::rat) ^ 800" by simp
  finally show ?thesis using r fin_d_int [of r] by simp
next
  case False
  then show ?thesis using top_limit_bounds by (simp add: right_of_def)
qed

lemma interp_d_eq:
  assumes b: "b < 154" and T: "of_nat left < T" "T \<le> of_nat (left + c)" and n: "left + c \<le> 2 ^ 53"
  shows "interp_d b (Fin T) (Fin (of_nat (left + c))) (Fin (of_nat c)) = Fin (interp_r b left c T)"
    and "left_of b \<le> interp_r b left c T"
    and "b < 153 \<Longrightarrow> interp_r b left c T \<le> right_of b"
proof -
  let ?L = "left_of b" and ?R = "right_of b"
  have c: "0 < c" using T by (cases c) auto
  have cn: "fin_d (Fin (of_nat c))" using fin_d_int [of "int c"] n by simp
  have ls: "Fin (of_nat (left + c)) - Fin (of_nat c) = Fin (of_nat left)"
      "Fin (of_nat (left + c)) - Fin (of_nat left) = Fin (of_nat c)"
    using of_rat_d_nat [of left] of_rat_d_nat [of c] n by simp_all
  let ?a = "rnd (T - of_nat left)"
  have a: "of_rat_d (T - of_nat left) = Fin ?a" "0 \<le> ?a" "?a \<le> of_nat c"
    using of_rat_d_bounded [of 0 "T - of_nat left" "of_nat c"] T cn by simp_all
  let ?p = "rnd (?a / of_nat c)"
  have p: "of_rat_d (?a / of_nat c) = Fin ?p" "0 \<le> ?p" "?p \<le> 1"
    using of_rat_d_bounded [of 0 "?a / of_nat c" 1] a c by simp_all
  let ?w = "rnd (?R - ?L)"
  obtain l where l: "?L = of_int l" "0 \<le> l" "l \<le> 9000000000" using left_of_int [OF b] .
  have R: "fin_d (Fin ?R)" "?R \<le> 2 ^ 800" using right_of_fin [OF b] by simp_all
  have w: "of_rat_d (?R - ?L) = Fin ?w" "0 \<le> ?w" "?w \<le> ?R" "fin_d (Fin ?w)"
    using of_rat_d_bounded [of 0 "?R - ?L" ?R] left_le_right [OF b] R l by simp_all
  let ?m = "rnd (?w * ?p)"
  have wp: "0 \<le> ?w * ?p" "?w * ?p \<le> ?w" using w p by (simp_all add: mult_left_le)
  have m: "of_rat_d (?w * ?p) = Fin ?m" "0 \<le> ?m" "?m \<le> ?w"
    using of_rat_d_bounded [OF wp _ w(4)] by simp_all
  have "(of_int l :: rat) \<le> 2 ^ 800" using l(3) by (rule_tac order_trans [of _ "9000000000"]) simp_all
  then have "?L + ?m \<le> 2 powi 801" using m(3) w(3) R(2) l(1) by simp
  moreover have "fin_d (Fin ?L)" using l fin_d_int [of l] by simp
  moreover have "fin_d (Fin (2 powi 801))" by (intro fin_d_powi) simp_all
  ultimately have s: "of_rat_d (?L + ?m) = Fin (rnd (?L + ?m))" "?L \<le> rnd (?L + ?m)"
    using of_rat_d_bounded [of ?L "?L + ?m" "2 powi 801"] m(2) by simp_all
  show "interp_d b (Fin T) (Fin (of_nat (left + c))) (Fin (of_nat c)) = Fin (interp_r b left c T)"
    unfolding interp_d_def Let_def limit_points [OF b] ls
    using c by (simp add: a(1) p(1) w(1) m(1) s(1) interp_r_def)
  show "?L \<le> interp_r b left c T" using s(2) by (simp add: interp_r_def)
  assume b': "b < 153"
  obtain r where r: "?R = of_int r" "0 \<le> r" "r \<le> 9000000000" using right_of_int [OF b'] .
  have "?w = ?R - ?L" using is_double_int [of "r - l"] r l by (simp add: is_double_def)
  then have "?L + ?m \<le> ?R" using m(3) by simp
  then show "interp_r b left c T \<le> ?R" using R(1) by (simp add: interp_r_def rnd_le_double)
qed

lemma interp_r_mono: "T \<le> U \<Longrightarrow> b < 154 \<Longrightarrow> interp_r b left c T \<le> interp_r b left c U"
  using left_le_right [of b] unfolding interp_r_def
  by (intro rnd_mono add_left_mono mult_left_mono divide_right_mono diff_right_mono rnd_nonneg) simp_all

lemma sum_in_bucket: "sum_list (map (in_bucket xs) [0..<154]) = length xs"
proof (induction xs)
  case Nil
  then show ?case by (simp add: in_bucket_def)
next
  case (Cons x xs)
  have "add_loop (Fin x) 0 < 154" using add_loop_bounds(1) [of x] by simp
  then have one: "(\<Sum>b\<in>{0..<154}. if b = add_loop (Fin x) 0 then 1 else 0) = (1::nat)"
    by (simp add: sum.delta)
  have "in_bucket (x # xs) b = in_bucket xs b + (if b = add_loop (Fin x) 0 then 1 else 0)" for b
    by (simp add: in_bucket_def)
  then have "(\<Sum>b\<in>{0..<154}. in_bucket (x # xs) b) = (\<Sum>b\<in>{0..<154}. in_bucket xs b) + 1"
    by (simp only: sum.distrib one)
  with Cons show ?case by (simp add: interv_sum_list_conv_sum_set_nat)
qed

definition rank_of :: "nat \<Rightarrow> rat \<Rightarrow> rat" where
  "rank_of n p = rnd (of_nat n * rnd (p / 100))"

lemma rank_of_bounds:
  assumes n: "0 < n" "n \<le> 2 ^ 53" and p: "1 \<le> p" "p \<le> 100"
  shows "Fin (of_nat n) * (Fin p / Fin 100) = Fin (rank_of n p)"
    and "0 < rank_of n p" and "rank_of n p \<le> of_nat n"
proof -
  have q: "of_rat_d (p / 100) = Fin (rnd (p / 100))" "2 powi (- 7) \<le> rnd (p / 100)" "rnd (p / 100) \<le> 1"
    using of_rat_d_bounded [of "2 powi (- 7)" "p / 100" 1] fin_d_powi [of "- 7"] p by simp_all
  have nd: "fin_d (Fin (of_nat n))" using fin_d_int [of "int n"] n by simp
  have "1 * 2 powi (- 7) \<le> of_nat n * rnd (p / 100)" using n q(2) by (intro mult_mono) simp_all
  moreover have "of_nat n * rnd (p / 100) \<le> of_nat n" using q(3) by (simp add: mult_left_le)
  ultimately have r: "of_rat_d (of_nat n * rnd (p / 100)) = Fin (rank_of n p)"
      "2 powi (- 7) \<le> rank_of n p" "rank_of n p \<le> of_nat n"
    using of_rat_d_bounded [of "2 powi (- 7)" "of_nat n * rnd (p / 100)" "of_nat n"]
      fin_d_powi [of "- 7"] nd by (simp_all add: rank_of_def)
  show "Fin (of_nat n) * (Fin p / Fin 100) = Fin (rank_of n p)" using q(1) r(1) by simp
  show "0 < rank_of n p" using r(2) two_powi_pos [of "- 7"] by linarith
  show "rank_of n p \<le> of_nat n" by (rule r(3))
qed

lemma rank_of_mono: "p \<le> q \<Longrightarrow> rank_of n p \<le> rank_of n q"
  unfolding rank_of_def by (intro rnd_mono mult_left_mono divide_right_mono) simp_all

lemma Percentile_form:
  assumes h: "hist_repr h xs" and xs: "xs \<noteq> []" and p: "1 \<le> p" "p \<le> 100"
  obtains b left c where "b < 154" "left = sum_list (take b (map (in_bucket xs) [0..<154]))"
    "c = map (in_bucket xs) [0..<154] ! b" "left + c \<le> 2 ^ 53"
    "of_nat left < rank_of (length xs) p" "rank_of (length xs) p \<le> of_nat (left + c)"
    "Percentile h (Fin p) = clamp_d h (Fin (interp_r b left c (rank_of (length xs) p)))"
proof -
  let ?cs = "map (in_bucket xs) [0..<154]" and ?T = "rank_of (length xs) p"
  have n: "0 < length xs" "length xs \<le> 2 ^ 53" using xs h by (auto simp: hist_repr_def)
  note T = rank_of_bounds [OF n p]
  obtain b where b: "b < length ?cs" "of_nat (0 + sum_list (take b ?cs)) < ?T"
    "?T \<le> of_nat (0 + sum_list (take b ?cs) + ?cs ! b)"
    "percentile_loop h (Fin ?T) 0 (Fin (of_nat 0)) (map (\<lambda>n. Fin (of_nat n)) ?cs)
      = clamp_d h (interp_d (0 + b) (Fin ?T) (Fin (of_nat (0 + sum_list (take b ?cs) + ?cs ! b))) (Fin (of_nat (?cs ! b))))"
    using percentile_loop_finds [of 0 ?T ?cs h 0] T n sum_in_bucket [of xs] by auto
  have b': "b < 154" using b(1) by simp
  have bound: "sum_list (take b ?cs) + ?cs ! b \<le> 2 ^ 53"
    using sum_list_take_mono [of "Suc b" 154 ?cs] sum_list_take_Suc [OF b(1)] n(2) sum_in_bucket [of xs] b' by simp
  have "Percentile h (Fin p) = percentile_loop h (Fin ?T) 0 (Fin (of_nat 0)) (map (\<lambda>n. Fin (of_nat n)) ?cs)"
    using h T(1) by (simp add: Percentile_def hist_repr_def comp_def del: Fin_arith)
  also have "\<dots> = clamp_d h (Fin (interp_r b (sum_list (take b ?cs)) (?cs ! b) ?T))"
    using b(4) interp_d_eq(1) [OF b', of "sum_list (take b ?cs)" ?T "?cs ! b"] b(2,3) bound by simp
  finally show ?thesis using that [OF b' refl refl bound] b(2,3) by simp
qed

lemma clamp_d_bounds:
  assumes h: "hist_repr h xs" and xs: "xs \<noteq> []"
  shows "clamp_d h (Fin r) = Fin (max (min r (foldr max xs 0)) (foldr min xs top_limit))"
    and "foldr min xs top_limit \<le> foldr max xs 0"
proof -
  obtain x ys where x: "xs = x # ys" using xs by (cases xs) auto
  have le: "foldr min xs top_limit \<le> x" "x \<le> foldr max xs 0" by (simp_all add: x)
  then show "foldr min xs top_limit \<le> foldr max xs 0" by linarith
  then show "clamp_d h (Fin r) = Fin (max (min r (foldr max xs 0)) (foldr min xs top_limit))"
    using h by (auto simp: clamp_d_def hist_repr_def min_def max_def)
qed

lemma Percentile_between:
  assumes "hist_repr h xs" "xs \<noteq> []" "1 \<le> p" "p \<le> 100"
  shows "\<exists>r. Percentile h (Fin p) = Fin r \<and> foldr min xs top_limit \<le> r \<and> r \<le> foldr max xs 0"
proof -
  obtain r where "Percentile h (Fin p) = clamp_d h (Fin r)" using Percentile_form [OF assms] by metis
  then show ?thesis using clamp_d_bounds [OF assms(1,2)] by auto
qed

lemma Percentile_mono:
  assumes h: "hist_repr h xs" and xs: "xs \<noteq> []" and pq: "1 \<le> p" "p \<le> q" "q \<le> 100"
  shows "Percentile h (Fin p) \<le> Percentile h (Fin q)"
proof -
  let ?cs = "map (in_bucket xs) [0..<154]"
  let ?T = "rank_of (length xs) p" and ?U = "rank_of (length xs) q"
  have TU: "?T \<le> ?U" using pq(2) by (rule rank_of_mono)
  obtain b l c where b: "b < 154" "l = sum_list (take b ?cs)" "c = ?cs ! b" "l + c \<le> 2 ^ 53"
    "of_nat l < ?T" "?T \<le> of_nat (l + c)" "Percentile h (Fin p) = clamp_d h (Fin (interp_r b l c ?T))"
    using Percentile_form [OF h xs, of p] pq by auto
  obtain b' l' c' where b': "b' < 154" "l' = sum_list (take b' ?cs)" "c' = ?cs ! b'" "l' + c' \<le> 2 ^ 53"
    "of_nat l' < ?U" "?U \<le> of_nat (l' + c')" "Percentile h (Fin q) = clamp_d h (Fin (interp_r b' l' c' ?U))"
    using Percentile_form [OF h xs, of q] pq by auto
  have "\<not> b' < b"
  proof
    assume lt: "b' < b"
    have "l' + c' \<le> l"
      using sum_list_take_mono [of "Suc b'" b ?cs] sum_list_take_Suc [of b' ?cs] lt b'(1) b(2) b'(2,3) by simp
    then have "(of_nat (l' + c') :: rat) \<le> of_nat l" by (simp only: of_nat_le_iff)
    then show False using b(5) b'(6) TU by linarith
  qed
  then consider "b = b'" | "b < b'" by linarith
  then have "interp_r b l c ?T \<le> interp_r b' l' c' ?U"
  proof cases
    case 1
    then show ?thesis using b b' TU interp_r_mono by simp
  next
    case 2
    have "interp_r b l c ?T \<le> right_of b" using interp_d_eq(3) [OF b(1,5,6,4)] 2 b'(1) by simp
    also have "\<dots> \<le> left_of b'" using 2 b'(1) by (rule left_right)
    also have "\<dots> \<le> interp_r b' l' c' ?U" using interp_d_eq(2) [OF b'(1,5,6,4)] .
    finally show ?thesis .
  qed
  then show ?thesis unfolding b(7) b'(7) clamp_d_bounds(1) [OF h xs] by (auto simp: min_def max_def)
qed

text \<open>On a histogram that has received nothing the interpolation divides zero by zero.\<close>

lemma Percentile_empty:
  assumes h: "hist_repr h []" and p: "0 \<le> p" "p \<le> 100"
  shows "Percentile h (Fin p) = NaN"
proof -
  have "of_rat_d (p / 100) = Fin (rnd (p / 100))"
    using of_rat_d_bounded(1) [of 0 "p / 100" 1] p by simp
  moreover have "[0..<154] = 0 # [1..<154]" by (simp add: upt_conv_Cons)
  ultimately have "Percentile h (Fin p) = clamp_d h (interp_d 0 (Fin 0) (Fin 0) (Fin 0))"
    using h by (simp add: Percentile_def hist_repr_def in_bucket_def percentile_loop_Cons fp_simps)
  also have "interp_d 0 (Fin 0) (Fin 0) (Fin 0) = NaN"
  proof -
    have "Fin 0 / Fin 0 = NaN" by (simp add: fp_simps)
    then show ?thesis by (simp add: interp_d_def limit_points Let_def)
  qed
  finally show ?thesis by (simp add: clamp_d_def)
qed


section \<open>Recording a run\<close>

text \<open>The samples of a run, recorded one after the other as the client loop does.\<close>

fun AddFast_all :: "histogram \<Rightarrow> double list \<Rightarrow> histogram result" where
  "AddFast_all h [] = Inr h"
| "AddFast_all h (v # vs) = bindR (AddFast h v) (\<lambda>h. AddFast_all h vs)"

definition us_value :: "int \<Rightarrow> rat" where
  "us_value n = rnd (of_int n / 1000)"

lemma hist_repr_AddFast:
  assumes "hist_repr h xs" "length xs < 2 ^ 53" "\<bar>n\<bar> \<le> 2 ^ 53"
  shows "AddFast h (of_rat_d (of_int n / 1000)) = Inr (Add h (Fin (us_value n)))"
    and "hist_repr (Add h (Fin (us_value n))) (us_value n # xs)"
  using AddFast_eq_Add [of "us_value n" h] timer_value [OF assms(3)] hist_repr_Add [OF assms(1,2)]
  by (simp_all add: us_value_def)

lemma AddFast_all_repr:
  assumes "hist_repr h xs" "length xs + length ns \<le> 2 ^ 53" "\<forall>n\<in>set ns. \<bar>n\<bar> \<le> 2 ^ 53"
  shows "\<exists>h'. AddFast_all h (map (\<lambda>n. of_rat_d (of_int n / 1000)) ns) = Inr h'
    \<and> hist_repr h' (rev (map us_value ns) @ xs)"
  using assms
proof (induction ns arbitrary: h xs)
  case Nil
  then show ?case by simp
next
  case (Cons n ns)
  have n: "length xs < 2 ^ 53" "\<bar>n\<bar> \<le> 2 ^ 53" using Cons.prems by simp_all
  note step = hist_repr_AddFast [OF Cons.prems(1) n]
  from Cons.IH [OF step(2)] Cons.prems(2,3) step(1) show ?case by auto
qed

section \<open>Properties\<close>

text \<open>
  C8. The bucket computed by AddFast is the one found by the linear search of Add for every value
  the stopwatch can deliver: whatever two clock readings at most \<open>2 ^ 53\<close> nanoseconds apart
  are given, with every division and addition rounded as the hardware does, both insertions
  leave the same histogram.
\<close>

theorem AddFast_agrees_with_Add:
  assumes "\<bar>now - start\<bar> \<le> 2 ^ 53"
  shows "AddFast h (End_us now (Start start t)) = Inr (Add h (End_us now (Start start t)))"
  using AddFast_eq_Add [of "rnd (of_int (now - start) / 1000)" h] timer_value [OF assms]
    End_us_Start [OF assms, of t] by simp

definition sample_histogram :: histogram where
  "sample_histogram = \<lparr>hmin = Fin 0, hmax = Fin 0, hnum = Fin 0, hsum = Fin 0,
     hsum_squares = Fin 0, buckets = []\<rparr>"

theorem AddFast_agrees_with_Add_witness:
  "\<bar>1999999 - (0::int)\<bar> \<le> 2 ^ 53
    \<and> AddFast (Clear sample_histogram) (End_us 1999999 (Start 0 \<lparr>time_point = 0\<rparr>))
      = Inr (Add (Clear sample_histogram) (End_us 1999999 (Start 0 \<lparr>time_point = 0\<rparr>)))"
  using AddFast_agrees_with_Add [of 1999999 0 "Clear sample_histogram" "\<lparr>time_point = 0\<rparr>"] by simp

text \<open>
  C7. Recording a run: from a cleared histogram, inserting the latencies of any run of at most
  \<open>2 ^ 53\<close> operations with AddFast always returns, and the result represents exactly these
  samples: num_ is their number, every bucket holds the number of samples between its limits,
  min_ and max_ are their extremes.
\<close>

theorem AddFast_run_represents_samples:
  assumes "length ns \<le> 2 ^ 53" "\<forall>n\<in>set ns. \<bar>n\<bar> \<le> 2 ^ 53"
  shows "\<exists>h'. AddFast_all (Clear h) (map (\<lambda>n. End_us n (Start 0 t)) ns) = Inr h'
    \<and> hist_repr h' (rev (map us_value ns))"
proof -
  have "map (\<lambda>n. End_us n (Start 0 t)) ns = map (\<lambda>n. of_rat_d (of_int n / 1000)) ns"
    using assms(2) End_us_Start [of _ 0 t] by simp
  moreover have "\<exists>h'. AddFast_all (Clear h) (map (\<lambda>n. of_rat_d (of_int n / 1000)) ns) = Inr h'
      \<and> hist_repr h' (rev (map us_value ns) @ [])"
    using assms by (intro AddFast_all_repr hist_repr_Clear) simp_all
  ultimately show ?thesis by (simp only: append_Nil2)
qed

theorem AddFast_run_represents_samples_witness:
  "length [1500, 250000 :: int] \<le> 2 ^ 53 \<and> list_all (\<lambda>n. \<bar>n\<bar> \<le> 2 ^ 53) [1500, 250000 :: int]
   \<and> (\<exists>h'. AddFast_all (Clear sample_histogram)
         (map (\<lambda>n. End_us n (Start 0 \<lparr>time_point = 0\<rparr>)) [1500, 250000]) = Inr h'
       \<and> hist_repr h' (rev (map us_value [1500, 250000])))"
proof -
  have h: "length [1500, 250000 :: int] \<le> 2 ^ 53" "\<forall>n\<in>set [1500, 250000 :: int]. \<bar>n\<bar> \<le> 2 ^ 53"
    by simp_all
  then have "list_all (\<lambda>n. \<bar>n\<bar> \<le> 2 ^ 53) [1500, 250000 :: int]" by simp
  with h show ?thesis
    using AddFast_run_represents_samples [OF h, of sample_histogram "\<lparr>time_point = 0\<rparr>"] by blast
qed

text \<open>
  C9. Merging the histograms of two client threads gives a histogram that represents the samples
  of both: counts, buckets and extremes are those of the concatenated lists of samples.
\<close>

theorem Merge_represents_both:
  assumes "hist_repr h xs" "hist_repr other ys" "length xs + length ys \<le> 2 ^ 53"
  shows "hist_repr (Merge h other) (xs @ ys)"
  using assms by (rule hist_repr_Merge)

theorem Merge_represents_both_witness:
  "hist_repr (Add (Clear sample_histogram) (Fin 7)) [7]
   \<and> hist_repr (Add (Clear sample_histogram) (Fin 120)) [120]
   \<and> hist_repr (Merge (Add (Clear sample_histogram) (Fin 7)) (Add (Clear sample_histogram) (Fin 120)))
       ([7] @ [120])"
proof -
  have a: "hist_repr (Add (Clear sample_histogram) (Fin x)) [x]" for x
    using hist_repr_Add [OF hist_repr_Clear] by simp
  show ?thesis using a Merge_represents_both [OF a a, of 7 120] by simp
qed

text \<open>
  C15. The reported percentiles are ordered: on a histogram that represents at least one sample,
  Percentile is monotone in its argument between 1 and 100 (so Median, P95, P99 and P99.9 never
  decrease; the percentage 0, which the program does not ask for, is excluded), although the interpolation is computed with rounding at every step.
\<close>

theorem Percentile_monotone:
  assumes "hist_repr h xs" "xs \<noteq> []" "1 \<le> p" "p \<le> q" "q \<le> 100"
  shows "Percentile h (Fin p) \<le> Percentile h (Fin q)"
  using assms by (rule Percentile_mono)

theorem Percentile_monotone_witness:
  "hist_repr (Add (Clear sample_histogram) (Fin 7)) [7]
   \<and> Percentile (Add (Clear sample_histogram) (Fin 7)) (Fin 50)
     \<le> Percentile (Add (Clear sample_histogram) (Fin 7)) (Fin 95)"
proof -
  have h: "hist_repr (Add (Clear sample_histogram) (Fin 7)) [7]"
    using hist_repr_Add [OF hist_repr_Clear] by simp
  show ?thesis using h Percentile_monotone [OF h, of 50 95] by simp
qed

text \<open>
  C16. Every reported percentile is a finite number between the smallest and the largest sample
  (with 0 and the top limit as the initial extremes), for every percentage between 1 and 100
  (Percentile 0 can be a NaN).
\<close>

theorem Percentile_within_extremes:
  assumes "hist_repr h xs" "xs \<noteq> []" "1 \<le> p" "p \<le> 100"
  shows "\<exists>r. Percentile h (Fin p) = Fin r \<and> hmin h \<le> Fin r \<and> Fin r \<le> hmax h"
  using Percentile_between [OF assms] assms(1) by (auto simp: hist_repr_def)

theorem Percentile_within_extremes_witness:
  "hist_repr (Add (Clear sample_histogram) (Fin 7)) [7]
   \<and> (\<exists>r. Percentile (Add (Clear sample_histogram) (Fin 7)) (Fin 99) = Fin r
        \<and> hmin (Add (Clear sample_histogram) (Fin 7)) \<le> Fin r
        \<and> Fin r \<le> hmax (Add (Clear sample_histogram) (Fin 7)))"
proof -
  have h: "hist_repr (Add (Clear sample_histogram) (Fin 7)) [7]"
    using hist_repr_Add [OF hist_repr_Clear] by simp
  show ?thesis using h Percentile_within_extremes [OF h, of 99] by simp
qed

text \<open>
  C17. AddFast ends on every finite value, writes inside the array of buckets and changes one
  bucket; it does not end on an infinite one, where its loop divides infinity by ten for ever.
\<close>

theorem AddFast_terminates_iff_finite:
  "(fin_d v \<longrightarrow> (\<exists>b<kNumBuckets. AddFast h v = Inr (record_at b v h)))
   \<and> AddFast h PInf = Inl (Diverges ''while (b >= 100)'')"
proof
  show "fin_d v \<longrightarrow> (\<exists>b<kNumBuckets. AddFast h v = Inr (record_at b v h))"
  proof
    assume "fin_d v"
    then obtain x where x: "v = Fin x" "fin_d (Fin x)" by (cases v) auto
    obtain b where "b < 154" "AddFast h (Fin x) = Inr (record_at b (Fin x) h)"
      using AddFast_finite [OF x(2)] .
    then show "\<exists>b<kNumBuckets. AddFast h v = Inr (record_at b v h)" by (auto simp: x kNumBuckets_def)
  qed
  show "AddFast h PInf = Inl (Diverges ''while (b >= 100)'')"
    by (simp add: AddFast_def fast_pos_def scale_down_PInf fp_simps)
qed

theorem AddFast_terminates_iff_finite_witness:
  "fin_d (Fin 1000) \<and> (\<exists>b<kNumBuckets. AddFast sample_histogram (Fin 1000) = Inr (record_at b (Fin 1000) sample_histogram))"
  using AddFast_terminates_iff_finite [of "Fin 1000" sample_histogram] fin_d_int [of 1000] by simp

end
