(* ===== verification/Cxx_Lib.thy ===== *)
theory Cxx_Lib
  imports Double "HOL-Library.Char_ord" "HOL-Library.List_Lexorder"
begin

text \<open>
  The part of the C++ standard library the program calls on strings: character classes,
  std::to_string, std::stoi, std::stod, std::string::find_first_of, c_str, and the order of
  strings, which is the lexicographic order of their bytes (the instances of
  \<open>HOL-Library.Char_ord\<close> and \<open>HOL-Library.List_Lexorder\<close>). A string is a list of bytes.
\<close>

section \<open>Characters\<close>

definition endl :: string where
  "endl = [CHR 0x0A]"

definition isspace :: "char \<Rightarrow> bool" where
  "isspace c \<longleftrightarrow> of_char c \<in> {9, 10, 11, 12, 13, 32 :: nat}"

definition isdigit :: "char \<Rightarrow> bool" where
  "isdigit c \<longleftrightarrow> 48 \<le> (of_char c :: nat) \<and> (of_char c :: nat) \<le> 57"

definition tolower :: "char \<Rightarrow> char" where
  "tolower c = (if 65 \<le> (of_char c :: nat) \<and> (of_char c :: nat) \<le> 90
                then char_of ((of_char c :: nat) + 32) else c)"

definition digit_val :: "char \<Rightarrow> nat" where
  "digit_val c = of_char c - 48"

definition digit_char :: "nat \<Rightarrow> char" where
  "digit_char d = char_of (48 + d)"

text \<open>The characters seen through c_str: a C string ends at the first NUL.\<close>

definition c_str :: "string \<Rightarrow> string" where
  "c_str s = takeWhile (\<lambda>c. of_char c \<noteq> (0::nat)) s"

section \<open>Numbers and strings\<close>

fun digits10 :: "nat \<Rightarrow> string" where
  "digits10 n = (if n < 10 then [digit_char n] else digits10 (n div 10) @ [digit_char (n mod 10)])"

declare digits10.simps [simp del]

definition to_string_u64 :: "u64 \<Rightarrow> string" where
  "to_string_u64 w = digits10 (unat w)"

definition to_string_int :: "int \<Rightarrow> string" where
  "to_string_int i = (if i < 0 then CHR ''-'' # digits10 (nat (- i)) else digits10 (nat i))"

definition num10 :: "string \<Rightarrow> nat" where
  "num10 s = foldl (\<lambda>a c. 10 * a + digit_val c) 0 s"

text \<open>An optional sign: whether it is a minus, and the rest of the input.\<close>

definition read_sign :: "string \<Rightarrow> bool \<times> string" where
  "read_sign s = (case s of
       c # r \<Rightarrow> if c = CHR ''-'' then (True, r) else if c = CHR ''+'' then (False, r) else (False, s)
     | [] \<Rightarrow> (False, s))"

definition stoi :: "string \<Rightarrow> int result" where
  "stoi s = (let (neg, r) = read_sign (dropWhile isspace s); ds = takeWhile isdigit r in
     if ds = [] then Inl (Invalid_argument ''stoi'')
     else let v = (if neg then - int (num10 ds) else int (num10 ds)) in
       if - (2 ^ 31) \<le> v \<and> v < 2 ^ 31 then Inr v else Inl (Out_of_range ''stoi''))"

text \<open>
  std::stod is strtod with its two failures as exceptions. After blanks and a sign it reads
  inf, infinity or nan (in any case), a hexadecimal number after 0x, or a decimal number; the
  value is rounded once. Overflow, and a nonzero result below the normal range that is not
  exact, are range errors.
\<close>

definition ishex :: "char \<Rightarrow> bool" where
  "ishex c \<longleftrightarrow> isdigit c \<or> (let n = of_char (tolower c) in 97 \<le> n \<and> n \<le> (102::nat))"

definition hex_val :: "char \<Rightarrow> nat" where
  "hex_val c = (if isdigit c then digit_val c else of_char (tolower c) - 87)"

definition num_base :: "nat \<Rightarrow> (char \<Rightarrow> nat) \<Rightarrow> string \<Rightarrow> nat" where
  "num_base b val s = foldl (\<lambda>a c. b * a + val c) 0 s"

definition read_exponent :: "char \<Rightarrow> string \<Rightarrow> int" where
  "read_exponent e s = (case s of [] \<Rightarrow> 0
     | c # r \<Rightarrow> if tolower c \<noteq> e then 0
         else let (neg, t) = read_sign r; ds = takeWhile isdigit t
              in if neg then - int (num10 ds) else int (num10 ds))"

definition read_mantissa ::
  "nat \<Rightarrow> (char \<Rightarrow> bool) \<Rightarrow> (char \<Rightarrow> nat) \<Rightarrow> string \<Rightarrow> (string \<times> rat \<times> string)" where
  "read_mantissa b is val s =
     (let ip = takeWhile is s; r = drop (length ip) s;
          (fp, r') = (case r of
               c # t \<Rightarrow> if c = CHR ''.'' then (takeWhile is t, dropWhile is t) else ([], r)
             | [] \<Rightarrow> ([], r))
      in (ip @ fp, of_nat (num_base b val (ip @ fp)) / of_nat b ^ length fp, r'))"

definition read_decimal :: "string \<Rightarrow> rat option" where
  "read_decimal s = (let (ds, m, r) = read_mantissa 10 isdigit digit_val s
     in if ds = [] then None else Some (m * 10 powi read_exponent (CHR ''e'') r))"

definition read_hex :: "string \<Rightarrow> rat option" where
  "read_hex s = (case s of
       z # x # t \<Rightarrow>
         (if z = CHR ''0'' \<and> tolower x = CHR ''x'' then
            (let (ds, m, r) = read_mantissa 16 ishex hex_val t
             in if ds = [] then None else Some (m * 2 powi read_exponent (CHR ''p'') r))
          else None)
     | _ \<Rightarrow> None)"

definition range_checked :: "rat \<Rightarrow> double result" where
  "range_checked x = (case of_rat_d x of
       Fin r \<Rightarrow> if x \<noteq> 0 \<and> \<bar>r\<bar> < 2 powi (- 1022) \<and> r \<noteq> x then Inl (Out_of_range ''stod'')
               else Inr (Fin r)
     | _ \<Rightarrow> Inl (Out_of_range ''stod''))"

text \<open>The same function for evaluation: a result that is not tiny is not compared with \<open>2 powi -1022\<close>.\<close>

lemma range_checked_code [code]: "range_checked x = (case of_rat_d x of
       Fin r \<Rightarrow> if 1 / 1099511627776 \<le> \<bar>r\<bar> then Inr (Fin r)
               else if x \<noteq> 0 \<and> \<bar>r\<bar> < 2 powi (- 1022) \<and> r \<noteq> x then Inl (Out_of_range ''stod'')
               else Inr (Fin r)
     | _ \<Rightarrow> Inl (Out_of_range ''stod''))"
proof -
  have "(2::rat) powi (- 1022) \<le> 2 powi (- 40)" by (rule two_powi_mono) simp
  also have "(2::rat) powi (- 40) = 1 / 1099511627776" by (simp add: power_int_minus)
  finally have "\<not> \<bar>r\<bar> < 2 powi (- 1022)" if "1 / 1099511627776 \<le> \<bar>r\<bar>" for r :: rat
    using that by linarith
  then show ?thesis by (simp add: range_checked_def split: double.splits)
qed

definition stod :: "string \<Rightarrow> double result" where
  "stod s = (let (neg, r) = read_sign (dropWhile isspace s); low = map tolower r in
     if take 3 low = ''inf'' then Inr (if neg then MInf else PInf)
     else if take 3 low = ''nan'' then Inr NaN
     else case (case read_hex r of Some x \<Rightarrow> Some x | None \<Rightarrow> read_decimal r) of
       None \<Rightarrow> Inl (Invalid_argument ''stod'')
     | Some x \<Rightarrow> range_checked (if neg then - x else x))"

section \<open>Decimal strings\<close>

lemma digit_val_char [simp]: "d < 10 \<Longrightarrow> digit_val (digit_char d) = d"
  by (simp add: digit_val_def digit_char_def)

lemma isdigit_digit_char [simp]: "d < 10 \<Longrightarrow> isdigit (digit_char d)"
  by (simp add: isdigit_def digit_char_def)

lemma digits10_isdigit: "\<forall>c\<in>set (digits10 n). isdigit c"
proof (induction n rule: digits10.induct)
  case (1 n)
  then show ?case by (subst digits10.simps) auto
qed

lemma digits10_nonempty [simp]: "digits10 n \<noteq> []"
  by (subst digits10.simps) simp

lemma num10_append_one: "num10 (s @ [c]) = 10 * num10 s + digit_val c"
  by (simp add: num10_def)

lemma num10_digits10 [simp]: "num10 (digits10 n) = n"
proof (induction n rule: digits10.induct)
  case (1 n)
  show ?case
  proof (cases "n < 10")
    case True
    then show ?thesis by (subst digits10.simps) (simp add: num10_def)
  next
    case False
    with "1.IH" show ?thesis by (subst digits10.simps) (simp add: num10_append_one)
  qed
qed

lemma digits10_inj: "digits10 m = digits10 n \<longleftrightarrow> m = n"
  by (metis num10_digits10)

lemma length_digits10_le: "0 < k \<Longrightarrow> length (digits10 n) \<le> k \<longleftrightarrow> n < 10 ^ k"
proof (induction n arbitrary: k rule: digits10.induct)
  case (1 n)
  show ?case
  proof (cases "n < 10")
    case True
    moreover have "(10::nat) ^ 1 \<le> 10 ^ k" using "1.prems" by (intro power_increasing) simp_all
    ultimately show ?thesis using "1.prems" by (subst digits10.simps) simp
  next
    case False
    then have len: "length (digits10 n) = Suc (length (digits10 (n div 10)))"
      by (subst digits10.simps) simp
    show ?thesis
    proof (cases "k = 1")
      case True
      then show ?thesis using False len by simp
    next
      case k: False
      then obtain j where j: "k = Suc j" "0 < j" using "1.prems" by (cases k) auto
      have "n div 10 < 10 ^ j \<longleftrightarrow> n < 10 ^ k" by (simp add: j div_less_iff_less_mult mult.commute)
      then show ?thesis using "1.IH" [OF False j(2)] len j(1) by simp
    qed
  qed
qed

lemma takeWhile_isdigit_digits10 [simp]: "takeWhile isdigit (digits10 n) = digits10 n"
  using digits10_isdigit by (simp add: takeWhile_eq_all_conv)

lemma digit_not_space: "isdigit c \<Longrightarrow> \<not> isspace c"
  by (auto simp: isdigit_def isspace_def)

lemma digit_not_sign: "isdigit c \<Longrightarrow> c \<noteq> CHR ''-'' \<and> c \<noteq> CHR ''+''"
  by (auto simp: isdigit_def)

lemma stoi_digits10: "n < 2 ^ 31 \<Longrightarrow> stoi (digits10 n) = Inr (int n)"
proof -
  assume n: "n < 2 ^ 31"
  obtain c r where cr: "digits10 n = c # r" by (cases "digits10 n") simp_all
  then have c: "isdigit c" using digits10_isdigit [of n] by simp
  have "dropWhile isspace (digits10 n) = digits10 n" using cr digit_not_space [OF c] by simp
  moreover have "read_sign (digits10 n) = (False, digits10 n)"
    using cr digit_not_sign [OF c] by (simp add: read_sign_def)
  moreover have "int n < 2 ^ 31" using n by (metis of_nat_less_iff of_nat_numeral of_nat_power)
  ultimately show ?thesis by (simp add: stoi_def)
qed

section \<open>The order of padded numbers\<close>

lemma foldl_num10:
  "foldl (\<lambda>a c. 10 * a + digit_val c) m s = m * 10 ^ length s + num10 s"
proof (induction s rule: rev_induct)
  case Nil
  show ?case by (simp add: num10_def)
next
  case (snoc c s)
  then show ?case unfolding num10_append_one by (simp add: algebra_simps)
qed

lemma num10_Cons: "num10 (c # s) = digit_val c * 10 ^ length s + num10 s"
  unfolding num10_def [of "c # s"] using foldl_num10 [of "digit_val c" s] by simp

lemma num10_bound: "\<forall>c\<in>set s. isdigit c \<Longrightarrow> num10 s < 10 ^ length s"
proof (induction s)
  case Nil
  then show ?case by (simp add: num10_def)
next
  case (Cons c s)
  have "digit_val c \<le> 9" using Cons.prems by (auto simp: digit_val_def isdigit_def)
  then have "digit_val c * 10 ^ length s \<le> 9 * 10 ^ length s" by (rule mult_right_mono) simp
  moreover have "num10 s < 10 ^ length s" using Cons by simp
  ultimately have "digit_val c * 10 ^ length s + num10 s < 9 * 10 ^ length s + 10 ^ length s"
    by (rule add_le_less_mono)
  then show ?case by (simp add: num10_Cons)
qed

lemma digit_val_eq_iff: "isdigit c \<Longrightarrow> isdigit d \<Longrightarrow> c = d \<longleftrightarrow> digit_val c = digit_val d"
proof
  assume dig: "isdigit c" "isdigit d" and eq: "digit_val c = digit_val d"
  have "(of_char c :: nat) = digit_val c + 48" "(of_char d :: nat) = digit_val d + 48"
    using dig by (simp_all add: digit_val_def isdigit_def)
  then have "(of_char c :: nat) = of_char d" using eq by (simp del: of_char_eq_iff)
  then show "c = d" by (rule of_char_eq_iff [THEN iffD1])
qed simp

lemma num10_less_iff:
  assumes "length s = length t" "\<forall>c\<in>set s. isdigit c" "\<forall>c\<in>set t. isdigit c"
  shows "s < t \<longleftrightarrow> num10 s < num10 t"
  using assms
proof (induction s t rule: list_induct2)
  case Nil
  then show ?case by simp
next
  case (Cons c s d t)
  let ?P = "(10::nat) ^ length s"
  have b: "num10 s < ?P" "num10 t < ?P"
    using num10_bound [of s] num10_bound [of t] Cons.prems Cons.hyps by simp_all
  have dig: "isdigit c" "isdigit d" using Cons.prems by simp_all
  have cd: "c < d \<longleftrightarrow> digit_val c < digit_val d" "c = d \<longleftrightarrow> digit_val c = digit_val d"
  proof -
    show "c < d \<longleftrightarrow> digit_val c < digit_val d"
      using dig by (auto simp: digit_val_def isdigit_def less_char_def)
    show "c = d \<longleftrightarrow> digit_val c = digit_val d" by (rule digit_val_eq_iff [OF dig])
  qed
  consider "digit_val c < digit_val d" | "digit_val c = digit_val d" | "digit_val d < digit_val c"
    by linarith
  then show ?case
  proof cases
    case 1
    then have "(digit_val c + 1) * ?P \<le> digit_val d * ?P" by (intro mult_right_mono) simp_all
    then show ?thesis using 1 b Cons.hyps cd by (simp add: num10_Cons)
  next
    case 2
    then show ?thesis using Cons cd by (simp add: num10_Cons)
  next
    case 3
    then have "(digit_val d + 1) * ?P \<le> digit_val c * ?P" by (intro mult_right_mono) simp_all
    then show ?thesis using 3 b Cons.hyps cd by (simp add: num10_Cons)
  qed
qed

lemma num10_zeros [simp]: "num10 (replicate n (CHR ''0'') @ s) = num10 s"
  by (induction n) (simp_all add: num10_Cons digit_val_def)

end
