(* ===== verification/Utils.thy ===== *)
theory Utils
  imports Cxx_Lib
begin

text \<open>
  The helpers of core/utils.h: the FNV-1a hash of a 64-bit number, the conversion of a string to
  a truth value, the removal of blanks at both ends of a string, and the two sources of random
  values (RandomDouble and RandomPrintChar). The random engines are outside the program: a draw
  takes the head of a stream that stands for the values the engine will return.
\<close>

section \<open>The FNV hash\<close>

definition kFNVOffsetBasis64 :: u64 where
  "kFNVOffsetBasis64 = 0xCBF29CE484222325"

definition kFNVPrime64 :: u64 where
  "kFNVPrime64 = 1099511628211"

text \<open>One iteration of the loop, on the pair of val and hash.\<close>

definition fnv_round :: "u64 \<times> u64 \<Rightarrow> u64 \<times> u64" where
  "fnv_round s = (case s of (val, hash) \<Rightarrow>
     let octet = val AND 0x00ff;
         val = drop_bit 8 val;
         hash = hash XOR octet;
         hash = hash * kFNVPrime64
     in (val, hash))"

definition FNVHash64 :: "u64 \<Rightarrow> u64" where
  "FNVHash64 val = snd ((fnv_round ^^ 8) (val, kFNVOffsetBasis64))"

definition Hash :: "u64 \<Rightarrow> u64" where
  "Hash val = FNVHash64 val"

section \<open>Random values\<close>

text \<open>
  The two random sources every component shares: the values of RandomDouble (one static
  distribution, built by the first call, whose bounds are 0 and 1 because no call passes others)
  and the values of rand.
\<close>

record random =
  unit_draws :: "double stream"
  rand_draws :: "nat stream"

definition RandomDouble :: "random \<Rightarrow> double \<times> random" where
  "RandomDouble r = (shd (unit_draws r), r\<lparr>unit_draws := stl (unit_draws r)\<rparr>)"

definition RandomPrintChar :: "random \<Rightarrow> char \<times> random" where
  "RandomPrintChar r = (char_of (shd (rand_draws r) mod 94 + 33), r\<lparr>rand_draws := stl (rand_draws r)\<rparr>)"

text \<open>What the standard library promises of the draws.\<close>

definition unit_random :: "random \<Rightarrow> bool" where
  "unit_random r \<longleftrightarrow> sset (unit_draws r) \<subseteq> {Fin x | x. is_double x \<and> 0 \<le> x \<and> x < 1}"

section \<open>Strings\<close>

definition StrToBool :: "string \<Rightarrow> bool result" where
  "StrToBool str = (let str = map tolower str in
     if str = ''true'' \<or> str = ''1'' then Inr True
     else if str = ''false'' \<or> str = ''0'' then Inr False
     else Inl (Utils_exception (''Invalid bool string: '' @ str)))"

text \<open>
  The first find_if_not skips the blanks in front; the second, on the reversed rest, those at
  the end.
\<close>

definition Trim :: "string \<Rightarrow> string" where
  "Trim str = (let rest = dropWhile isspace str in rev (dropWhile isspace (rev rest)))"

section \<open>Facts about the hash\<close>

definition fnv_step :: "u64 \<Rightarrow> u64 \<Rightarrow> u64" where
  "fnv_step h b = (h XOR b) * kFNVPrime64"

definition octets :: "nat \<Rightarrow> u64 \<Rightarrow> u64 list" where
  "octets n val = map (\<lambda>i. drop_bit (8 * i) val AND 0xff) [0..<n]"

lemma octets_Suc: "octets (Suc n) val = (val AND 0xff) # octets n (drop_bit 8 val)"
proof -
  have "[0..<Suc n] = 0 # map Suc [0..<n]" by (simp add: map_Suc_upt upt_conv_Cons del: upt_Suc)
  then show ?thesis by (simp add: octets_def del: upt_Suc) (simp add: add.commute)
qed

lemma fnv_rounds: "(fnv_round ^^ n) (val, h) = (drop_bit (8 * n) val, foldl fnv_step h (octets n val))"
proof (induction n arbitrary: val h)
  case 0
  then show ?case by (simp add: octets_def)
next
  case (Suc n)
  have "(fnv_round ^^ Suc n) (val, h) = (fnv_round ^^ n) (fnv_round (val, h))"
    by (simp only: funpow_Suc_right o_def)
  also have "fnv_round (val, h) = (drop_bit 8 val, fnv_step h (val AND 0xff))"
    by (simp add: fnv_round_def fnv_step_def Let_def)
  finally show ?case by (simp add: Suc octets_Suc add.commute)
qed

lemma FNVHash64_foldl: "FNVHash64 val = foldl fnv_step kFNVOffsetBasis64 (octets 8 val)"
  by (simp add: FNVHash64_def fnv_rounds)

text \<open>The prime is odd, so multiplying by it is a bijection of the 64-bit words.\<close>

definition fnv_prime_inverse :: u64 where
  "fnv_prime_inverse = 0xCE965057AFF6957B"

lemma fnv_prime_inverse: "kFNVPrime64 * fnv_prime_inverse = 1"
  by (simp add: kFNVPrime64_def fnv_prime_inverse_def)

lemma fnv_step_unmul: "fnv_step h b * fnv_prime_inverse = h XOR b"
  by (simp add: fnv_step_def mult.assoc fnv_prime_inverse)

lemma xor_right_inj: "a XOR c = b XOR c \<longleftrightarrow> a = (b :: 'a::len word)"
  by (metis xor.assoc xor.right_neutral xor_self_eq)

lemma fnv_step_inj_state: "fnv_step h b = fnv_step h' b \<longleftrightarrow> h = h'"
  by (metis fnv_step_unmul xor_right_inj)

lemma fnv_step_inj_octet: "fnv_step h b = fnv_step h b' \<longleftrightarrow> b = b'"
  by (metis fnv_step_unmul xor_right_inj xor.commute)

lemma foldl_fnv_inj: "foldl fnv_step h bs = foldl fnv_step h' bs \<longleftrightarrow> h = h'"
  by (induction bs arbitrary: h h') (simp_all add: fnv_step_inj_state)

lemma octets_append: "octets (m + n) v = octets m v @ octets n (drop_bit (8 * m) v)"
proof -
  have "[0..<m + n] = [0..<m] @ map (\<lambda>i. m + i) [0..<n]"
    by (simp add: upt_add_eq_append [of 0 m n] map_add_upt add.commute)
  then show ?thesis by (simp add: octets_def o_def algebra_simps)
qed

lemma octets_low: "take_bit (8 * n) v = take_bit (8 * n) w \<Longrightarrow> octets n v = octets n w"
proof -
  assume eq: "take_bit (8 * n) v = take_bit (8 * n) w"
  have "drop_bit (8 * i) v AND 0xff = drop_bit (8 * i) w AND 0xff" if i: "i < n" for i
  proof -
    have mask: "u AND 0xff = take_bit 8 u" for u :: u64
      by (simp add: take_bit_eq_mask mask_eq_exp_minus_1)
    have "take_bit 8 (drop_bit (8 * i) u) = take_bit 8 (drop_bit (8 * i) (take_bit (8 * n) u))" for u :: u64
    proof -
      have "min 8 (8 * n - 8 * i) = 8" using i by simp
      then show ?thesis by (simp add: drop_bit_take_bit take_bit_take_bit)
    qed
    then show ?thesis unfolding mask using eq by metis
  qed
  then show ?thesis by (simp add: octets_def)
qed

lemma word_split_octet:
  assumes "take_bit (8 * i) v = take_bit (8 * i) w" "drop_bit (8 * Suc i) v = drop_bit (8 * Suc i) (w :: u64)"
    and "drop_bit (8 * i) v AND 0xff = drop_bit (8 * i) w AND 0xff"
  shows "v = w"
proof (rule bit_word_eqI)
  fix n assume "n < LENGTH(64)"
  consider "n < 8 * i" | "8 * i \<le> n" "n < 8 * i + 8" | "8 * Suc i \<le> n"
    by (cases "n < 8 * i"; cases "n < 8 * i + 8") auto
  then show "bit v n \<longleftrightarrow> bit w n"
  proof cases
    case 1
    then show ?thesis using arg_cong [OF assms(1), of "\<lambda>u. bit u n"] by (simp add: bit_take_bit_iff)
  next
    case 2
    have mask: "u AND 0xff = take_bit 8 u" for u :: u64
      by (simp add: take_bit_eq_mask mask_eq_exp_minus_1)
    from 2 have "n - 8 * i < 8" by linarith
    with 2 show ?thesis using arg_cong [OF assms(3), of "\<lambda>u. bit u (n - 8 * i)"]
      by (simp add: mask bit_take_bit_iff bit_drop_bit_eq)
  next
    case 3
    then show ?thesis using arg_cong [OF assms(2), of "\<lambda>u. bit u (n - 8 * Suc i)"]
      by (simp add: bit_drop_bit_eq)
  qed
qed

text \<open>
  C22. The hash of core/utils.h never collides on two numbers that differ in a single octet (the
  low byte of a record number, for instance): all the other octets being equal, the hashes are
  equal exactly when the numbers are. It holds because each round of the loop is a bijection of
  the hash for a fixed octet and an injection of the octet for a fixed hash.
\<close>

theorem FNVHash64_one_octet:
  assumes "i < 8" "take_bit (8 * i) v = take_bit (8 * i) w"
    and "drop_bit (8 * Suc i) v = drop_bit (8 * Suc i) w"
  shows "FNVHash64 v = FNVHash64 w \<longleftrightarrow> v = w"
proof
  assume eq: "FNVHash64 v = FNVHash64 w"
  have split: "octets 8 u = octets i u @ (drop_bit (8 * i) u AND 0xff) # octets (7 - i) (drop_bit (8 * Suc i) u)"
    for u
  proof -
    have "8 = i + Suc (7 - i)" using assms(1) by simp
    then have "octets 8 u = octets (i + Suc (7 - i)) u" by simp
    then show ?thesis by (simp only: octets_append octets_Suc) (simp add: add.commute)
  qed
  have "drop_bit (8 * i) v AND 0xff = drop_bit (8 * i) w AND 0xff"
    using eq octets_low [OF assms(2)] assms(3)
    by (simp add: FNVHash64_foldl split foldl_fnv_inj fnv_step_inj_octet)
  then show "v = w" by (rule word_split_octet [OF assms(2,3)])
qed simp

theorem FNVHash64_one_octet_witness:
  "FNVHash64 1 = FNVHash64 200 \<longleftrightarrow> (1 :: u64) = 200"
  by (rule FNVHash64_one_octet [of 0]) simp_all

section \<open>Facts about the strings\<close>

lemma Trim_decompose:
  "\<exists>a b. s = a @ Trim s @ b \<and> (\<forall>c\<in>set a. isspace c) \<and> (\<forall>c\<in>set b. isspace c)"
proof -
  let ?r = "dropWhile isspace s"
  have "?r = rev (dropWhile isspace (rev ?r)) @ rev (takeWhile isspace (rev ?r))"
    by (metis rev_append rev_rev_ident takeWhile_dropWhile_id)
  then have "s = takeWhile isspace s @ Trim s @ rev (takeWhile isspace (rev ?r))"
    by (metis Trim_def takeWhile_dropWhile_id)
  then show ?thesis by (metis set_rev set_takeWhileD)
qed

lemma hd_Trim: "Trim s \<noteq> [] \<Longrightarrow> \<not> isspace (hd (Trim s))"
proof -
  assume ne: "Trim s \<noteq> []"
  let ?r = "dropWhile isspace s"
  have "?r = Trim s @ rev (takeWhile isspace (rev ?r))"
    by (metis Trim_def rev_append rev_rev_ident takeWhile_dropWhile_id)
  then have "hd (Trim s) = hd ?r" "?r \<noteq> []" using ne by (metis hd_append2, metis append_is_Nil_conv)
  then show ?thesis using hd_dropWhile by metis
qed

lemma last_Trim: "Trim s \<noteq> [] \<Longrightarrow> \<not> isspace (last (Trim s))"
  unfolding Trim_def Let_def by (metis hd_dropWhile last_rev rev_is_Nil_conv)

lemma Trim_id:
  assumes "s \<noteq> [] \<Longrightarrow> \<not> isspace (hd s) \<and> \<not> isspace (last s)"
  shows "Trim s = s"
proof (cases s)
  case Nil
  then show ?thesis by (simp add: Trim_def)
next
  case (Cons c t)
  then have f: "\<not> isspace c" "\<not> isspace (last s)" using assms by auto
  then have "dropWhile isspace s = s" using Cons by simp
  moreover have "dropWhile isspace (rev s) = rev s"
    using f(2) Cons by (cases "rev s") (auto simp: hd_rev [symmetric])
  ultimately show ?thesis by (simp add: Trim_def)
qed

lemma Trim_idem [simp]: "Trim (Trim s) = Trim s"
  by (rule Trim_id) (simp add: hd_Trim last_Trim)

lemma StrToBool_errors:
  "StrToBool s = Inl e \<Longrightarrow> \<exists>msg. e = Utils_exception msg"
  by (auto simp: StrToBool_def Let_def split: if_splits)

lemma RandomPrintChar_printable:
  "RandomPrintChar r = (c, r') \<Longrightarrow> 33 \<le> (of_char c :: nat) \<and> (of_char c :: nat) \<le> 126"
proof -
  assume "RandomPrintChar r = (c, r')"
  then have c: "c = char_of (shd (rand_draws r) mod 94 + 33)" by (simp add: RandomPrintChar_def)
  have "shd (rand_draws r) mod 94 < 94" by simp
  then show ?thesis by (simp add: c)
qed

lemma unit_random_draw:
  "unit_random r \<Longrightarrow> RandomDouble r = (x, r') \<Longrightarrow>
     (\<exists>q. x = Fin q \<and> is_double q \<and> 0 \<le> q \<and> q < 1) \<and> unit_random r'"
  using shd_in [of "unit_draws r"] sset_stl [of "unit_draws r"]
  by (fastforce simp: unit_random_def RandomDouble_def)

end
