(* ===== verification/Properties.thy ===== *)
theory Properties
  imports Utils
begin

text \<open>
  utils::Properties of core/properties.h: a map from names to strings, with the reader of a
  property file. The file is its bytes; a stream that could not be opened is \<open>Not_open\<close>.
\<close>

section \<open>The class\<close>

type_synonym properties = "string \<rightharpoonup> string"

definition GetProperty :: "properties \<Rightarrow> string \<Rightarrow> string \<Rightarrow> string" where
  "GetProperty p key default_value = (case p key of None \<Rightarrow> default_value | Some v \<Rightarrow> v)"

text \<open>operator[] is std::map::at.\<close>

definition props_at :: "properties \<Rightarrow> string \<Rightarrow> string result" where
  "props_at p key = (case p key of None \<Rightarrow> Inl (Out_of_range ''map::at'') | Some v \<Rightarrow> Inr v)"

definition SetProperty :: "properties \<Rightarrow> string \<Rightarrow> string \<Rightarrow> properties" where
  "SetProperty p key value = p(key \<mapsto> value)"

section \<open>Reading a file\<close>

datatype ifstream = Not_open | Open_file string

text \<open>
  The lines getline returns until eof is set: after the last newline one more, possibly empty,
  line is read.
\<close>

fun getlines :: "string \<Rightarrow> string list" where
  "getlines [] = [[]]"
| "getlines (c # s) = (if c = CHR 0x0A then [] # getlines s
     else case getlines s of l # ls \<Rightarrow> (c # l) # ls | [] \<Rightarrow> [[c]])"

definition find_first_of :: "char \<Rightarrow> string \<Rightarrow> nat option" where
  "find_first_of c s = (let n = length (takeWhile (\<lambda>x. x \<noteq> c) s)
     in if n < length s then Some n else None)"

definition load_line :: "string \<Rightarrow> properties \<Rightarrow> properties" where
  "load_line line p =
     (if line \<noteq> [] \<and> hd line = CHR ''#'' then p
      else case find_first_of (CHR ''='') line of
        None \<Rightarrow> p
      | Some pos \<Rightarrow> SetProperty p (Trim (take pos line)) (Trim (drop (pos + 1) line)))"

definition Load :: "ifstream \<Rightarrow> properties \<Rightarrow> properties result" where
  "Load input p = (case input of
       Not_open \<Rightarrow> Inl (Utils_exception ''File not open!'')
     | Open_file content \<Rightarrow> Inr (fold load_line (getlines content) p))"

section \<open>Facts\<close>

lemma GetProperty_SetProperty [simp]:
  "GetProperty (SetProperty p k v) k' d = (if k' = k then v else GetProperty p k' d)"
  by (simp add: GetProperty_def SetProperty_def)

lemma props_at_SetProperty [simp]:
  "props_at (SetProperty p k v) k' = (if k' = k then Inr v else props_at p k')"
  by (simp add: props_at_def SetProperty_def)

lemma props_at_returns_iff: "returns (props_at p k) \<longleftrightarrow> k \<in> dom p"
  by (auto simp: props_at_def split: option.splits)

lemma getlines_nonempty [simp]: "getlines s \<noteq> []"
  by (induction s) (auto split: list.splits)

lemma getlines_line:
  "\<forall>c\<in>set l. c \<noteq> CHR 0x0A \<Longrightarrow> getlines (l @ CHR 0x0A # rest) = l # getlines rest"
  by (induction l) auto

text \<open>
  The text of a property file: one line key=value per pair, and the condition under which the
  reader gives the pair back.
\<close>

definition show_property :: "string \<times> string \<Rightarrow> string" where
  "show_property kv = fst kv @ CHR ''='' # snd kv @ [CHR 0x0A]"

definition plain_property :: "string \<times> string \<Rightarrow> bool" where
  "plain_property kv \<longleftrightarrow>
     Trim (fst kv) = fst kv \<and> Trim (snd kv) = snd kv \<and>
     (fst kv \<noteq> [] \<longrightarrow> hd (fst kv) \<noteq> CHR ''#'') \<and> CHR ''='' \<notin> set (fst kv) \<and>
     CHR 0x0A \<notin> set (fst kv @ snd kv)"

lemma find_first_of_append:
  "c \<notin> set s \<Longrightarrow> find_first_of c (s @ c # t) = Some (length s)"
proof -
  assume "c \<notin> set s"
  then have "takeWhile (\<lambda>x. x \<noteq> c) (s @ c # t) = s"
    by (subst takeWhile_append2) auto
  then show ?thesis by (simp add: find_first_of_def)
qed

lemma load_line_plain:
  assumes "plain_property (k, v)"
  shows "load_line (k @ CHR ''='' # v) p = p(k \<mapsto> v)"
proof -
  have k: "Trim k = k" "Trim v = v" "CHR ''='' \<notin> set k"
    "\<not> (k @ CHR ''='' # v \<noteq> [] \<and> hd (k @ CHR ''='' # v) = CHR ''#'')"
    using assms by (cases k; simp add: plain_property_def)+
  have "find_first_of (CHR ''='') (k @ CHR ''='' # v) = Some (length k)"
    by (rule find_first_of_append [OF k(3)])
  then show ?thesis using k by (simp add: load_line_def SetProperty_def)
qed

lemma load_line_empty [simp]: "load_line [] p = p"
  by (simp add: load_line_def find_first_of_def)

lemma fold_load_lines:
  assumes "\<forall>kv\<in>set kvs. plain_property kv"
  shows "fold load_line (getlines (concat (map show_property kvs))) p = p ++ map_of (rev kvs)"
  using assms
proof (induction kvs arbitrary: p)
  case Nil
  then show ?case by simp
next
  case (Cons kv kvs)
  obtain k v where kv: "kv = (k, v)" by (cases kv)
  have plain: "plain_property (k, v)" using Cons.prems kv by simp
  have "getlines (concat (map show_property (kv # kvs)))
        = (k @ CHR ''='' # v) # getlines (concat (map show_property kvs))"
    using getlines_line [of "k @ CHR ''='' # v"] plain
    by (auto simp: kv show_property_def plain_property_def)
  then have "fold load_line (getlines (concat (map show_property (kv # kvs)))) p
        = p(k \<mapsto> v) ++ map_of (rev kvs)"
    using Cons.IH [of "p(k \<mapsto> v)"] Cons.prems
    by (simp only: fold.simps comp_def load_line_plain [OF plain] list.set insert_iff) blast
  also have "\<dots> = p ++ map_of (rev (kv # kvs))" by (simp add: kv)
  finally show ?case .
qed

text \<open>
  C23. Reading back a written property file: a file with one line key=value per pair, whose keys
  and values have no blanks at their ends, no newline, and keys without the separator or a
  leading comment sign, loads over any previous properties as the map in which the last line of
  a key wins and every key not in the file keeps its value.
\<close>

theorem Load_written_properties:
  assumes "\<forall>kv\<in>set kvs. plain_property kv"
  shows "Load (Open_file (concat (map show_property kvs))) p = Inr (p ++ map_of (rev kvs))"
  by (simp add: Load_def fold_load_lines assms)

theorem Load_written_properties_witness:
  "Load (Open_file ''recordcount=1000
operationcount=10
recordcount=7
'') Map.empty = Inr [''recordcount'' \<mapsto> ''7'', ''operationcount'' \<mapsto> ''10'']"
  using Load_written_properties [of "[(''recordcount'', ''1000''), (''operationcount'', ''10''), (''recordcount'', ''7'')]" Map.empty]
  by (simp add: plain_property_def Trim_def isspace_def show_property_def fun_upd_twist)

lemma set_Trim: "set (Trim s) \<subseteq> set s"
  by (metis Trim_decompose set_append sup_ge1 sup_ge2 le_supI2 le_supI1 order_refl)

lemma find_first_of_take: "find_first_of c s = Some n \<Longrightarrow> c \<notin> set (take n s)"
  by (auto simp: find_first_of_def Let_def takeWhile_eq_take [symmetric] dest: set_takeWhileD split: if_splits)

lemma load_line_change:
  "load_line l p k = p k \<or>
     (\<exists>v. load_line l p k = Some v \<and> Trim k = k \<and> Trim v = v \<and> CHR ''='' \<notin> set k)"
proof (cases "find_first_of (CHR ''='') l")
  case None
  then show ?thesis by (simp add: load_line_def)
next
  case (Some pos)
  have "CHR ''='' \<notin> set (Trim (take pos l))"
    using find_first_of_take [OF Some] set_Trim by blast
  then show ?thesis
    by (cases "k = Trim (take pos l)") (simp_all add: load_line_def SetProperty_def Some)
qed

lemma fold_load_line_change:
  "fold load_line ls p k = p k \<or>
     (\<exists>v. fold load_line ls p k = Some v \<and> Trim k = k \<and> Trim v = v \<and> CHR ''='' \<notin> set k)"
proof (induction ls arbitrary: p)
  case (Cons l ls)
  show ?case using Cons [of "load_line l p"] load_line_change [of l p k] by auto
qed simp

text \<open>
  The reader on arbitrary bytes: a stream that is not open is the exception, any other
  content is read to its end, and every property either keeps its value or is set to a value
  without blanks at its ends under a name without blanks at its ends and without a separator.
\<close>

theorem Load_total:
  "Load Not_open p = Inl (Utils_exception ''File not open!'') \<and>
   (\<exists>p'. Load (Open_file content) p = Inr p' \<and>
      (\<forall>k. p' k = p k \<or> (\<exists>v. p' k = Some v \<and> Trim k = k \<and> Trim v = v \<and> CHR ''='' \<notin> set k)))"
  by (simp add: Load_def fold_load_line_change)

end
