(* ===== verification/Generators.thy ===== *)
theory Generators
  imports Utils
begin

text \<open>
  The interface Generator of core/generator.h and its simple implementations: ConstGenerator,
  CounterGenerator, UniformGenerator and DiscreteGenerator. The locale \<open>generator\<close> states what
  the callers rely on: Next returns, its value lies in a range fixed at construction, Last gives
  the value Next returned, and the invariant is kept. Each class interprets it.

  The operations that draw random values take and return the shared sources of the theory Utils.
  A UniformGenerator owns its engine, so its state carries the rest of its own draws.
\<close>

section \<open>What the standard library provides\<close>

text \<open>
  \<open>uniform_draws lo hi\<close> is the sequence of values a default-seeded mt19937\_64 gives through a
  uniform\_int\_distribution on the closed range, and \<open>pow_fn\<close> is std::pow: the standard fixes
  neither the algorithm of the one nor the accuracy of the other.
\<close>

record cxx_env =
  uniform_draws :: "u64 \<Rightarrow> u64 \<Rightarrow> u64 stream"
  pow_fn :: "double \<Rightarrow> double \<Rightarrow> double"

definition uniform_law :: "cxx_env \<Rightarrow> bool" where
  "uniform_law env \<longleftrightarrow> (\<forall>lo hi. lo \<le> hi \<longrightarrow> sset (uniform_draws env lo hi) \<subseteq> {lo..hi})"

section \<open>The interface\<close>

locale generator =
  fixes nxt :: "'s \<Rightarrow> random \<Rightarrow> ('v \<times> 's \<times> random) result"
    and lst :: "'s \<Rightarrow> 'v"
    and inv :: "'s \<Rightarrow> bool"
    and rng :: "'s \<Rightarrow> 'v set"
  assumes nxt_returns: "inv s \<Longrightarrow> unit_random r \<Longrightarrow> returns (nxt s r)"
    and nxt_range: "inv s \<Longrightarrow> unit_random r \<Longrightarrow> nxt s r = Inr (v, s', r') \<Longrightarrow> v \<in> rng s"
    and nxt_last: "inv s \<Longrightarrow> unit_random r \<Longrightarrow> nxt s r = Inr (v, s', r') \<Longrightarrow> lst s' = v"
    and nxt_inv: "inv s \<Longrightarrow> unit_random r \<Longrightarrow> nxt s r = Inr (v, s', r') \<Longrightarrow>
                    inv s' \<and> rng s' = rng s \<and> unit_random r'"
begin

lemma nxt_obtain:
  assumes "inv s" "unit_random r"
  obtains v s' r' where "nxt s r = Inr (v, s', r')" "v \<in> rng s" "lst s' = v" "inv s'"
    "rng s' = rng s" "unit_random r'"
  using nxt_returns [OF assms] nxt_range [OF assms] nxt_last [OF assms] nxt_inv [OF assms]
  by (metis prod_cases3)

primrec run :: "nat \<Rightarrow> 's \<Rightarrow> random \<Rightarrow> ('v list \<times> 's \<times> random) result" where
  "run 0 s r = Inr ([], s, r)"
| "run (Suc n) s r = bindR (nxt s r) (\<lambda>(v, s', r').
     bindR (run n s' r') (\<lambda>(vs, s'', r''). Inr (v # vs, s'', r'')))"

text \<open>A run of calls returns; its values are in the range and Last is the last of them.\<close>

lemma run_values:
  assumes "inv s" "unit_random r"
  shows "\<exists>vs s' r'. run n s r = Inr (vs, s', r') \<and> length vs = n \<and> set vs \<subseteq> rng s \<and>
           (vs \<noteq> [] \<longrightarrow> lst s' = last vs) \<and> inv s' \<and> rng s' = rng s \<and> unit_random r'"
  using assms
proof (induction n arbitrary: s r)
  case 0
  then show ?case by simp
next
  case (Suc n)
  obtain v s1 r1 where 1: "nxt s r = Inr (v, s1, r1)" "v \<in> rng s" "lst s1 = v" "inv s1"
    "rng s1 = rng s" "unit_random r1" using nxt_obtain [OF Suc.prems] .
  obtain vs s2 r2 where 2: "run n s1 r1 = Inr (vs, s2, r2)" "length vs = n" "set vs \<subseteq> rng s1"
    "vs \<noteq> [] \<longrightarrow> lst s2 = last vs" "inv s2" "rng s2 = rng s1" "unit_random r2"
    using Suc.IH [OF 1(4,6)] by blast
  have "lst s2 = last (v # vs)"
  proof (cases vs)
    case Nil
    then have "s2 = s1" using 2(1,2) by (cases n) (auto simp: bindR_eq_Inr_iff split: prod.splits)
    then show ?thesis using 1(3) Nil by simp
  next
    case Cons
    then show ?thesis using 2(4) by simp
  qed
  moreover have "run (Suc n) s r = Inr (v # vs, s2, r2)" by (simp add: 1(1) 2(1))
  ultimately show ?case using 1(2,5) 2 by (intro exI [of _ "v # vs"] exI [of _ s2] exI [of _ r2]) simp
qed

end

section \<open>ConstGenerator\<close>

record const_generator =
  const_value :: u64

definition ConstGenerator :: "int \<Rightarrow> const_generator" where
  "ConstGenerator c = \<lparr>const_value = word_of_int c\<rparr>"

definition Const_Next :: "const_generator \<Rightarrow> random \<Rightarrow> (u64 \<times> const_generator \<times> random) result" where
  "Const_Next g r = Inr (const_value g, g, r)"

definition Const_Last :: "const_generator \<Rightarrow> u64" where
  "Const_Last g = const_value g"

interpretation const_gen: generator Const_Next Const_Last "\<lambda>_. True" "\<lambda>g. {const_value g}"
  by unfold_locales (auto simp: Const_Next_def Const_Last_def)

section \<open>CounterGenerator\<close>

record counter_generator =
  counter :: u64

definition CounterGenerator :: "u64 \<Rightarrow> counter_generator" where
  "CounterGenerator start = \<lparr>counter = start\<rparr>"

text \<open>Next is one atomic fetch\_add; Last loads and subtracts one, both modulo \<open>2\<^sup>6\<^sup>4\<close>.\<close>

definition Counter_Next :: "counter_generator \<Rightarrow> random \<Rightarrow> (u64 \<times> counter_generator \<times> random) result" where
  "Counter_Next g r = Inr (counter g, g\<lparr>counter := counter g + 1\<rparr>, r)"

definition Counter_Last :: "counter_generator \<Rightarrow> u64" where
  "Counter_Last g = counter g - 1"

definition Counter_Set :: "u64 \<Rightarrow> counter_generator \<Rightarrow> counter_generator" where
  "Counter_Set start g = g\<lparr>counter := start\<rparr>"

interpretation counter_gen: generator Counter_Next Counter_Last "\<lambda>_. True" "\<lambda>_. UNIV"
  by unfold_locales (auto simp: Counter_Next_def Counter_Last_def)

section \<open>UniformGenerator\<close>

record uniform_generator =
  u_min :: u64
  u_max :: u64
  u_draws :: "u64 stream"
  last_int :: u64

definition Uniform_Next :: "uniform_generator \<Rightarrow> random \<Rightarrow> (u64 \<times> uniform_generator \<times> random) result" where
  "Uniform_Next g r = (let v = shd (u_draws g)
     in Inr (v, g\<lparr>u_draws := stl (u_draws g), last_int := v\<rparr>, r))"

definition Uniform_Last :: "uniform_generator \<Rightarrow> u64" where
  "Uniform_Last g = last_int g"

text \<open>
  The constructor builds the distribution, for which an empty range is undefined behaviour, and
  draws once, so that Last has a value.
\<close>

definition UniformGenerator :: "cxx_env \<Rightarrow> u64 \<Rightarrow> u64 \<Rightarrow> uniform_generator result" where
  "UniformGenerator env lo hi =
     (if lo \<le> hi then
        (let d = uniform_draws env lo hi
         in Inr \<lparr>u_min = lo, u_max = hi, u_draws = stl d, last_int = shd d\<rparr>)
      else Inl (Undefined_behaviour ''uniform_int_distribution''))"

definition uniform_inv :: "uniform_generator \<Rightarrow> bool" where
  "uniform_inv g \<longleftrightarrow> sset (u_draws g) \<subseteq> {u_min g..u_max g}"

lemma UniformGenerator_inv:
  assumes "uniform_law env" "UniformGenerator env lo hi = Inr g"
  shows "uniform_inv g" "u_min g = lo" "u_max g = hi" "last_int g \<in> {lo..hi}"
proof -
  have le: "lo \<le> hi" using assms(2) by (auto simp: UniformGenerator_def split: if_splits)
  then have d: "sset (uniform_draws env lo hi) \<subseteq> {lo..hi}" using assms(1) by (simp add: uniform_law_def)
  show "uniform_inv g" "u_min g = lo" "u_max g = hi"
    using assms(2) le sset_stl [OF d] by (auto simp: UniformGenerator_def uniform_inv_def Let_def)
  show "last_int g \<in> {lo..hi}"
    using assms(2) le shd_in [OF d] by (auto simp: UniformGenerator_def Let_def)
qed

interpretation uniform_gen: generator Uniform_Next Uniform_Last uniform_inv "\<lambda>g. {u_min g..u_max g}"
proof unfold_locales
  fix s :: uniform_generator and r v s' r'
  assume inv: "uniform_inv s" "unit_random r" and step: "Uniform_Next s r = Inr (v, s', r')"
  show "v \<in> {u_min s..u_max s}" "Uniform_Last s' = v"
    using inv step shd_in [of "u_draws s" "{u_min s..u_max s}"]
    by (auto simp: Uniform_Next_def uniform_inv_def Uniform_Last_def Let_def)
  show "uniform_inv s' \<and> {u_min s'..u_max s'} = {u_min s..u_max s} \<and> unit_random r'"
    using inv step sset_stl [of "u_draws s" "{u_min s..u_max s}"] by (auto simp: Uniform_Next_def uniform_inv_def Let_def)
qed (simp add: Uniform_Next_def Let_def)

section \<open>DiscreteGenerator\<close>

record 'v discrete_generator =
  dvalues :: "('v \<times> double) list"
  dsum :: double
  dlast :: "'v option"

definition DiscreteGenerator :: "'v discrete_generator" where
  "DiscreteGenerator = \<lparr>dvalues = [], dsum = 0, dlast = None\<rparr>"

definition AddValue :: "'v \<Rightarrow> double \<Rightarrow> 'v discrete_generator \<Rightarrow> 'v discrete_generator" where
  "AddValue value weight g =
     g\<lparr>dlast := (if dvalues g = [] then Some value else dlast g),
       dvalues := dvalues g @ [(value, weight)],
       dsum := dsum g + weight\<rparr>"

text \<open>The loop over the values: the value chosen, or None when it falls through to assert(false).\<close>

fun discrete_loop :: "double \<Rightarrow> double \<Rightarrow> ('v \<times> double) list \<Rightarrow> 'v option" where
  "discrete_loop chooser tot [] = None"
| "discrete_loop chooser tot (p # ps) =
     (if chooser < snd p / tot then Some (fst p)
      else discrete_loop (chooser - snd p / tot) tot ps)"

definition Discrete_Next :: "'v discrete_generator \<Rightarrow> random \<Rightarrow> ('v \<times> 'v discrete_generator \<times> random) result" where
  "Discrete_Next g r = (let (chooser, r') = RandomDouble r in
     case discrete_loop chooser (dsum g) (dvalues g) of
       Some v \<Rightarrow> Inr (v, g\<lparr>dlast := Some v\<rparr>, r')
     | None \<Rightarrow> Inl (Assert_failed ''false''))"

definition Discrete_Last :: "'v discrete_generator \<Rightarrow> 'v option" where
  "Discrete_Last g = dlast g"

text \<open>
  With positive weights the loop is monotone in its chooser, so that the largest value
  RandomDouble can return, \<open>1 - 1/2\<^sup>5\<^sup>3\<close>, decides whether any draw can fall through.
\<close>

definition pos_fin :: "double \<Rightarrow> bool" where
  "pos_fin d = (case d of Fin x \<Rightarrow> 0 < x | _ \<Rightarrow> False)"

lemma pos_fin_iff: "pos_fin d \<longleftrightarrow> (\<exists>x. d = Fin x \<and> 0 < x)"
  by (simp add: pos_fin_def split: double.splits)

definition weights_ok :: "'v discrete_generator \<Rightarrow> bool" where
  "weights_ok g \<longleftrightarrow> list_all (\<lambda>p. pos_fin (snd p)) (dvalues g) \<and> pos_fin (dsum g)"

definition max_unit_draw :: rat where
  "max_unit_draw = 1 - 1 / 2 ^ 53"

definition discrete_inv :: "'v discrete_generator \<Rightarrow> bool" where
  "discrete_inv g \<longleftrightarrow> weights_ok g \<and> discrete_loop (Fin max_unit_draw) (dsum g) (dvalues g) \<noteq> None"

lemma discrete_loop_mono:
  assumes "list_all (\<lambda>p. pos_fin (snd p)) ps" "0 < s"
    and "discrete_loop (Fin b) (Fin s) ps \<noteq> None" "0 \<le> a" "a \<le> b" "b \<le> 1"
  shows "discrete_loop (Fin a) (Fin s) ps \<noteq> None"
  using assms
proof (induction ps arbitrary: a b)
  case Nil
  then show ?case by simp
next
  case (Cons p ps)
  obtain x where x: "snd p = Fin x" "0 < x" using Cons.prems(1) by (auto simp: pos_fin_iff)
  have q: "snd p / Fin s = of_rat_d (x / s)" using Cons.prems(2) x by simp
  show ?case
  proof (cases "Fin a < snd p / Fin s")
    case True
    then show ?thesis by simp
  next
    case False
    have "0 \<le> rnd (x / s)" using x Cons.prems(2) by (simp add: rnd_nonneg)
    then have fin: "of_rat_d (x / s) = Fin (rnd (x / s))" "rnd (x / s) \<le> a"
      using False unfolding q by (auto simp: of_rat_d_def Let_def fp_simps split: if_splits)
    have sub: "Fin c - snd p / Fin s = Fin (rnd (c - rnd (x / s)))"
      "0 \<le> rnd (c - rnd (x / s))" "rnd (c - rnd (x / s)) \<le> 1"
      if "a \<le> c" "c \<le> 1" for c
    proof -
      have c: "0 \<le> c - rnd (x / s)" "c - rnd (x / s) \<le> 1"
        using that fin(2) \<open>0 \<le> rnd (x / s)\<close> by linarith+
      then show r: "0 \<le> rnd (c - rnd (x / s))" "rnd (c - rnd (x / s)) \<le> 1"
        by (simp_all add: rnd_nonneg rnd_le_double)
      have "rnd (c - rnd (x / s)) < 2 ^ 1024"
        by (rule le_less_trans [OF r(2)]) simp
      then show "Fin c - snd p / Fin s = Fin (rnd (c - rnd (x / s)))"
        using r by (simp add: q fin(1)) (simp add: of_rat_d_def Let_def)
    qed
    have "\<not> Fin b < snd p / Fin s" using fin Cons.prems(5) by (simp add: q)
    then have "discrete_loop (Fin (rnd (b - rnd (x / s)))) (Fin s) ps \<noteq> None"
      using Cons.prems sub(1) [of b] by simp
    moreover have "list_all (\<lambda>p. pos_fin (snd p)) ps" using Cons.prems(1) by simp
    moreover have "rnd (a - rnd (x / s)) \<le> rnd (b - rnd (x / s))"
      using Cons.prems(5) by (intro rnd_mono) simp
    moreover have "0 \<le> rnd (a - rnd (x / s))" "rnd (b - rnd (x / s)) \<le> 1"
      using sub(2) [of a] sub(3) [of b] Cons.prems(5,6) by simp_all
    ultimately have "discrete_loop (Fin (rnd (a - rnd (x / s)))) (Fin s) ps \<noteq> None"
      using Cons.IH [of "rnd (b - rnd (x / s))"] Cons.prems(2) by blast
    then show ?thesis using False sub(1) [of a] Cons.prems by simp
  qed
qed

lemma Discrete_Next_returns:
  assumes "discrete_inv g" "unit_random r"
  shows "returns (Discrete_Next g r)"
proof -
  obtain c r' where c: "RandomDouble r = (c, r')" by fastforce
  obtain q where q: "c = Fin q" "is_double q" "0 \<le> q" "q < 1"
    using unit_random_draw [OF assms(2) c] by blast
  have "q \<le> max_unit_draw" unfolding max_unit_draw_def by (rule is_double_below_one [OF q(2,4)])
  moreover have "max_unit_draw \<le> 1" by (simp add: max_unit_draw_def)
  ultimately have "discrete_loop c (dsum g) (dvalues g) \<noteq> None"
    using assms(1) q discrete_loop_mono [of "dvalues g" _ max_unit_draw q]
    by (auto simp: discrete_inv_def weights_ok_def pos_fin_iff)
  then show ?thesis by (auto simp: Discrete_Next_def c split: option.splits)
qed

lemma discrete_loop_value: "discrete_loop c s ps = Some v \<Longrightarrow> v \<in> fst ` set ps"
  by (induction ps arbitrary: c) (auto split: if_splits)

interpretation discrete_gen: generator Discrete_Next "\<lambda>g. the (Discrete_Last g)" discrete_inv
  "\<lambda>g. fst ` set (dvalues g)"
proof unfold_locales
  fix s :: "'v discrete_generator" and r v s' r'
  assume inv: "discrete_inv s" "unit_random r" and step: "Discrete_Next s r = Inr (v, s', r')"
  show "v \<in> fst ` set (dvalues s)"
    using step by (auto simp: Discrete_Next_def dest: discrete_loop_value split: option.splits prod.splits)
  show "the (Discrete_Last s') = v"
    using step by (auto simp: Discrete_Next_def Discrete_Last_def split: option.splits prod.splits)
  show "discrete_inv s' \<and> fst ` set (dvalues s') = fst ` set (dvalues s) \<and> unit_random r'"
    using step inv unit_random_draw [OF inv(2)]
    by (auto simp: Discrete_Next_def discrete_inv_def weights_ok_def split: option.splits prod.splits)
qed (rule Discrete_Next_returns)

section \<open>When the operation chooser can fail\<close>

lemma is_double_max_unit_draw: "is_double max_unit_draw"
proof -
  have "max_unit_draw = of_int (2 ^ 53 - 1) / 2 ^ 53" by (simp add: max_unit_draw_def field_simps)
  moreover have "fin_d (Fin (of_int (2 ^ 53 - 1) / 2 ^ 53))" by (rule fin_d_dyadic) simp_all
  ultimately show ?thesis by (simp only: fin_d.simps)
qed

definition max_random :: random where
  "max_random = \<lparr>unit_draws = sconst (Fin max_unit_draw), rand_draws = sconst 0\<rparr>"

lemma unit_random_max: "unit_random max_random"
proof -
  have "0 \<le> max_unit_draw" "max_unit_draw < 1" by (simp_all add: max_unit_draw_def)
  then show ?thesis
    using is_double_max_unit_draw by (auto simp: unit_random_def max_random_def sset_range)
qed

text \<open>
  C21. The choice among weighted values: when the weights are positive and their floating point
  sum is finite, the call of Next passes its assert(false) for every possible random draw
  exactly when the loop finds a value for the largest draw, \<open>1 - 1/2\<^sup>5\<^sup>3\<close>. Whether the rounding of
  the quotients and of the running subtraction can leave a gap is thus decided by one run.
\<close>

theorem Discrete_Next_never_fails_iff:
  assumes "weights_ok g"
  shows "(\<forall>r. unit_random r \<longrightarrow> returns (Discrete_Next g r)) \<longleftrightarrow>
         discrete_loop (Fin max_unit_draw) (dsum g) (dvalues g) \<noteq> None"
proof
  assume "\<forall>r. unit_random r \<longrightarrow> returns (Discrete_Next g r)"
  then have "returns (Discrete_Next g max_random)" using unit_random_max by blast
  then show "discrete_loop (Fin max_unit_draw) (dsum g) (dvalues g) \<noteq> None"
    by (auto simp: Discrete_Next_def RandomDouble_def max_random_def split: option.splits)
next
  assume "discrete_loop (Fin max_unit_draw) (dsum g) (dvalues g) \<noteq> None"
  then have "discrete_inv g" using assms by (simp add: discrete_inv_def)
  then show "\<forall>r. unit_random r \<longrightarrow> returns (Discrete_Next g r)"
    using Discrete_Next_returns by blast
qed

text \<open>Three quarters and one quarter: no draw falls through.\<close>

theorem Discrete_Next_never_fails_iff_witness:
  "\<not> (\<exists>r e. unit_random r \<and>
        Discrete_Next (AddValue False (Fin (1/4)) (AddValue True (Fin (3/4)) DiscreteGenerator)) r = Inl e)"
proof -
  let ?g = "AddValue False (Fin (1/4)) (AddValue True (Fin (3/4)) DiscreteGenerator)"
  have "Fin 0 + Fin (3/4) + Fin (1/4) = Fin 1" by code_simp
  then have g: "dvalues ?g = [(True, Fin (3/4)), (False, Fin (1/4))]" "dsum ?g = Fin 1"
    by (simp_all add: AddValue_def DiscreteGenerator_def del: Fin_arith)
  then have "weights_ok ?g" by (simp add: weights_ok_def pos_fin_def)
  moreover have "discrete_loop (Fin max_unit_draw) (Fin 1) [(True, Fin (3/4)), (False, Fin (1/4))] = Some False"
    by code_simp
  then have "discrete_loop (Fin max_unit_draw) (dsum ?g) (dvalues ?g) = Some False" by (simp only: g)
  ultimately have "\<forall>r. unit_random r \<longrightarrow> returns (Discrete_Next ?g r)"
    using Discrete_Next_never_fails_iff [of ?g] by (metis option.distinct(1))
  then show ?thesis by (metis Inl_not_Inr)
qed

end
