(* ===== verification/Zipfian.thy ===== *)
theory Zipfian
  imports Generators
begin

text \<open>
  The skewed generators: ZipfianGenerator of core/zipfian\_generator.h with its zeta constants,
  ScrambledZipfianGenerator and SkewedLatestGenerator built on it, and the virtual dispatch
  through a Generator pointer. std::pow is a parameter; \<open>pow_unit_law\<close> is the only thing
  assumed of it (a power of a number between 0 and 1 with a non-negative exponent is between 0
  and 1).
\<close>

section \<open>ZipfianGenerator\<close>

definition kZipfianConst :: double where
  "kZipfianConst = of_rat_d (99 / 100)"

definition kMaxNumItems :: u64 where
  "kMaxNumItems = drop_bit 24 (- 1)"

record zipfian_generator =
  num_items :: u64
  zbase :: u64
  ztheta :: double
  zeta_n :: double
  eta :: double
  alpha :: double
  zeta_2 :: double
  n_for_zeta :: u64
  last_value :: u64

text \<open>
  The loop of Zeta(last\_num, cur\_num, theta, last\_zeta), from its counter i on. With the largest
  cur\_num the counter would wrap and the loop never end, so it is a partial function.
\<close>

partial_function (option) zeta_loop ::
  "cxx_env \<Rightarrow> u64 \<Rightarrow> u64 \<Rightarrow> double \<Rightarrow> double \<Rightarrow> double option" where
  "zeta_loop env i cur_num theta zeta =
     (if i \<le> cur_num
      then zeta_loop env (i + 1) cur_num theta (zeta + 1 / pow_fn env (d_of_u64 i) theta)
      else Some zeta)"

definition Zeta :: "cxx_env \<Rightarrow> u64 \<Rightarrow> u64 \<Rightarrow> double \<Rightarrow> double \<Rightarrow> double result" where
  "Zeta env last_num cur_num theta last_zeta =
     (case zeta_loop env (last_num + 1) cur_num theta last_zeta of
        Some z \<Rightarrow> Inr z | None \<Rightarrow> Inl (Diverges ''Zeta''))"

definition RaiseZeta :: "cxx_env \<Rightarrow> u64 \<Rightarrow> zipfian_generator \<Rightarrow> zipfian_generator result" where
  "RaiseZeta env num z =
     bindR (assertR (n_for_zeta z \<le> num) ''num >= n_for_zeta_'') (\<lambda>_.
     bindR (Zeta env (n_for_zeta z) num (ztheta z) (zeta_n z)) (\<lambda>zn.
     Inr (z\<lparr>zeta_n := zn, n_for_zeta := num\<rparr>)))"

definition Eta :: "cxx_env \<Rightarrow> zipfian_generator \<Rightarrow> double" where
  "Eta env z = (1 - pow_fn env (Fin 2 / d_of_u64 (num_items z)) (1 - ztheta z)) / (1 - zeta_2 z / zeta_n z)"

definition Zipfian_Next_num ::
  "cxx_env \<Rightarrow> u64 \<Rightarrow> zipfian_generator \<Rightarrow> random \<Rightarrow> (u64 \<times> zipfian_generator \<times> random) result" where
  "Zipfian_Next_num env num z r =
     bindR (assertR (2 \<le> num \<and> num < kMaxNumItems) ''num >= 2 && num < kMaxNumItems'') (\<lambda>_.
     bindR (if n_for_zeta z < num
            then bindR (RaiseZeta env num z) (\<lambda>z'. Inr (z'\<lparr>eta := Eta env z'\<rparr>))
            else Inr z) (\<lambda>z.
     let (u, r') = RandomDouble r;
         uz = u * zeta_n z
     in if uz < 1 then Inr (0, z\<lparr>last_value := 0\<rparr>, r')
        else if uz < 1 + pow_fn env (Fin (1/2)) (ztheta z) then Inr (1, z\<lparr>last_value := 1\<rparr>, r')
        else bindR (u64_of_d (d_of_u64 (zbase z) +
                      d_of_u64 num * pow_fn env (eta z * u - eta z + 1) (alpha z))) (\<lambda>v.
             Inr (v, z\<lparr>last_value := v\<rparr>, r'))))"

definition Zipfian_Next ::
  "cxx_env \<Rightarrow> zipfian_generator \<Rightarrow> random \<Rightarrow> (u64 \<times> zipfian_generator \<times> random) result" where
  "Zipfian_Next env z r = Zipfian_Next_num env (num_items z) z r"

definition Zipfian_Last :: "zipfian_generator \<Rightarrow> u64" where
  "Zipfian_Last z = last_value z"

text \<open>
  The constructor; the fields it has not yet assigned (eta, alpha, zeta\_2 and last\_value) are 0
  in the record below and are written before they are read.
\<close>

definition ZipfianGenerator ::
  "cxx_env \<Rightarrow> u64 \<Rightarrow> u64 \<Rightarrow> double \<Rightarrow> random \<Rightarrow> (zipfian_generator \<times> random) result" where
  "ZipfianGenerator env lo hi zipfian_const r =
     (let z = \<lparr>num_items = hi - lo + 1, zbase = lo, ztheta = zipfian_const, zeta_n = 0, eta = 0,
               alpha = 0, zeta_2 = 0, n_for_zeta = 0, last_value = 0\<rparr>
      in bindR (assertR (2 \<le> num_items z \<and> num_items z < kMaxNumItems)
                  ''num_items_ >= 2 && num_items_ < kMaxNumItems'') (\<lambda>_.
         bindR (Zeta env 0 2 zipfian_const 0) (\<lambda>z2.
         bindR (RaiseZeta env (num_items z) (z\<lparr>zeta_2 := z2, alpha := 1 / (1 - zipfian_const)\<rparr>)) (\<lambda>z.
         bindR (Zipfian_Next env (z\<lparr>eta := Eta env z\<rparr>) r) (\<lambda>(v, z, r).
         Inr (z, r))))))"

definition ZipfianGenerator_items :: "cxx_env \<Rightarrow> u64 \<Rightarrow> random \<Rightarrow> (zipfian_generator \<times> random) result" where
  "ZipfianGenerator_items env n r = ZipfianGenerator env 0 (n - 1) kZipfianConst r"

section \<open>ScrambledZipfianGenerator\<close>

record scrambled_zipfian_generator =
  sbase :: u64
  snum_items :: u64
  sgenerator :: zipfian_generator

text \<open>The remainder by zero items is undefined.\<close>

definition Scramble :: "scrambled_zipfian_generator \<Rightarrow> u64 \<Rightarrow> u64 result" where
  "Scramble g value =
     (if snum_items g = 0 then Inl (Undefined_behaviour ''remainder by zero'')
      else Inr (sbase g + FNVHash64 value mod snum_items g))"

definition Scrambled_Next ::
  "cxx_env \<Rightarrow> scrambled_zipfian_generator \<Rightarrow> random \<Rightarrow> (u64 \<times> scrambled_zipfian_generator \<times> random) result" where
  "Scrambled_Next env g r =
     bindR (Zipfian_Next env (sgenerator g) r) (\<lambda>(v, z, r').
     bindR (Scramble g v) (\<lambda>w. Inr (w, g\<lparr>sgenerator := z\<rparr>, r')))"

definition Scrambled_Last :: "scrambled_zipfian_generator \<Rightarrow> u64 result" where
  "Scrambled_Last g = Scramble g (Zipfian_Last (sgenerator g))"

definition ScrambledZipfianGenerator ::
  "cxx_env \<Rightarrow> u64 \<Rightarrow> u64 \<Rightarrow> double \<Rightarrow> random \<Rightarrow> (scrambled_zipfian_generator \<times> random) result" where
  "ScrambledZipfianGenerator env lo hi zipfian_const r =
     bindR (ZipfianGenerator env lo hi zipfian_const r) (\<lambda>(z, r').
     Inr (\<lparr>sbase = lo, snum_items = hi - lo + 1, sgenerator = z\<rparr>, r'))"

definition ScrambledZipfianGenerator_items ::
  "cxx_env \<Rightarrow> u64 \<Rightarrow> random \<Rightarrow> (scrambled_zipfian_generator \<times> random) result" where
  "ScrambledZipfianGenerator_items env n r = ScrambledZipfianGenerator env 0 (n - 1) kZipfianConst r"

section \<open>SkewedLatestGenerator\<close>

text \<open>The counter is held by reference: the operations take the counter as it is at the call.\<close>

record skewed_latest_generator =
  zipfian :: zipfian_generator
  sklast :: u64

definition Skewed_Next ::
  "cxx_env \<Rightarrow> counter_generator \<Rightarrow> skewed_latest_generator \<Rightarrow> random \<Rightarrow>
   (u64 \<times> skewed_latest_generator \<times> random) result" where
  "Skewed_Next env basis g r =
     (let max = Counter_Last basis
      in bindR (Zipfian_Next_num env max (zipfian g) r) (\<lambda>(v, z, r').
         Inr (max - v, g\<lparr>zipfian := z, sklast := max - v\<rparr>, r')))"

definition Skewed_Last :: "skewed_latest_generator \<Rightarrow> u64" where
  "Skewed_Last g = sklast g"

definition SkewedLatestGenerator ::
  "cxx_env \<Rightarrow> counter_generator \<Rightarrow> random \<Rightarrow> (skewed_latest_generator \<times> random) result" where
  "SkewedLatestGenerator env basis r =
     bindR (ZipfianGenerator_items env (Counter_Last basis) r) (\<lambda>(z, r).
     bindR (Skewed_Next env basis \<lparr>zipfian = z, sklast = 0\<rparr> r) (\<lambda>(v, g, r).
     Inr (g, r)))"

section \<open>Virtual dispatch\<close>

text \<open>
  The classes a Generator pointer of CoreWorkload can point to. The counter passed to the
  dispatched Next is the object a SkewedLatestGenerator refers to.
\<close>

datatype gen =
    Const_gen const_generator
  | Counter_gen counter_generator
  | Uniform_gen uniform_generator
  | Zipfian_gen zipfian_generator
  | Scrambled_gen scrambled_zipfian_generator
  | Skewed_gen skewed_latest_generator

definition wrap_gen :: "('g \<Rightarrow> 'h) \<Rightarrow> ('v \<times> 'g \<times> random) result \<Rightarrow> ('v \<times> 'h \<times> random) result" where
  "wrap_gen C m = bindR m (\<lambda>(v, g, r). Inr (v, C g, r))"

fun gen_Next :: "cxx_env \<Rightarrow> counter_generator \<Rightarrow> gen \<Rightarrow> random \<Rightarrow> (u64 \<times> gen \<times> random) result" where
  "gen_Next env basis (Const_gen g) r = wrap_gen Const_gen (Const_Next g r)"
| "gen_Next env basis (Counter_gen g) r = wrap_gen Counter_gen (Counter_Next g r)"
| "gen_Next env basis (Uniform_gen g) r = wrap_gen Uniform_gen (Uniform_Next g r)"
| "gen_Next env basis (Zipfian_gen g) r = wrap_gen Zipfian_gen (Zipfian_Next env g r)"
| "gen_Next env basis (Scrambled_gen g) r = wrap_gen Scrambled_gen (Scrambled_Next env g r)"
| "gen_Next env basis (Skewed_gen g) r = wrap_gen Skewed_gen (Skewed_Next env basis g r)"

fun gen_Last :: "gen \<Rightarrow> u64 result" where
  "gen_Last (Const_gen g) = Inr (Const_Last g)"
| "gen_Last (Counter_gen g) = Inr (Counter_Last g)"
| "gen_Last (Uniform_gen g) = Inr (Uniform_Last g)"
| "gen_Last (Zipfian_gen g) = Inr (Zipfian_Last g)"
| "gen_Last (Scrambled_gen g) = Scrambled_Last g"
| "gen_Last (Skewed_gen g) = Inr (Skewed_Last g)"

section \<open>Termination of the zeta loop\<close>

lemma zeta_loop_returns:
  assumes "cur_num < - 1"
  shows "\<exists>y. zeta_loop env i cur_num theta zeta = Some y"
proof (induction "Suc (unat cur_num) - unat i" arbitrary: i zeta)
  case 0
  then have "\<not> i \<le> cur_num" by (simp add: word_le_nat_alt)
  then show ?case by (subst zeta_loop.simps) simp
next
  case (Suc k)
  show ?case
  proof (cases "i \<le> cur_num")
    case True
    then have "i < - 1" using assms by simp
    then have "unat (i + 1) = Suc (unat i)" by (rule unat_Suc_less)
    then have "k = Suc (unat cur_num) - unat (i + 1)" using Suc.hyps(2) by simp
    then show ?thesis using Suc.hyps(1) True by (subst zeta_loop.simps) simp
  next
    case False
    then show ?thesis by (subst zeta_loop.simps) simp
  qed
qed

lemma kMaxNumItems_val: "kMaxNumItems = 1099511627775"
  by (simp add: kMaxNumItems_def mask_eq_exp_minus_1)

lemma Zeta_returns: "num < kMaxNumItems \<Longrightarrow> returns (Zeta env last_num num theta last_zeta)"
proof -
  assume "num < kMaxNumItems"
  moreover have "kMaxNumItems < - 1" by (simp add: kMaxNumItems_val)
  ultimately have "num < - 1" by simp
  then show ?thesis
    using zeta_loop_returns [of num env "last_num + 1" theta last_zeta] by (auto simp: Zeta_def)
qed

section \<open>The range of the values\<close>

definition pow_unit_law :: "cxx_env \<Rightarrow> bool" where
  "pow_unit_law env \<longleftrightarrow> (\<forall>x b. 0 \<le> x \<longrightarrow> x \<le> 1 \<longrightarrow> 0 \<le> b \<longrightarrow>
     (\<exists>p. pow_fn env (Fin x) (Fin b) = Fin p \<and> 0 \<le> p \<and> p \<le> 1))"

text \<open>
  What the constructor establishes: eta is between 0 and 1 and alpha is not negative, the range
  is small enough for its ends to be exact doubles, and zeta has been computed for all the items.
\<close>

definition zipf_inv :: "zipfian_generator \<Rightarrow> bool" where
  "zipf_inv z \<longleftrightarrow>
     (\<exists>e. eta z = Fin e \<and> is_double e \<and> 0 \<le> e \<and> e \<le> 1) \<and> (\<exists>a. alpha z = Fin a \<and> 0 \<le> a) \<and>
     2 \<le> num_items z \<and> num_items z < kMaxNumItems \<and> num_items z \<le> n_for_zeta z \<and>
     zbase z < kMaxNumItems"

definition zipf_range :: "u64 \<Rightarrow> u64 \<Rightarrow> u64 set" where
  "zipf_range base num = {0, 1} \<union> {base..base + num}"

lemma of_rat_d_unit: "0 \<le> x \<Longrightarrow> x \<le> 1 \<Longrightarrow> of_rat_d x = Fin (rnd x) \<and> 0 \<le> rnd x \<and> rnd x \<le> 1"
proof -
  assume x: "0 \<le> x" "x \<le> 1"
  then have r: "0 \<le> rnd x" "rnd x \<le> 1" by (simp_all add: rnd_nonneg rnd_le_double)
  have "rnd x < 2 ^ 1024" by (rule le_less_trans [OF r(2)]) simp
  then show ?thesis using r by (simp add: of_rat_d_def Let_def)
qed

lemma of_rat_d_minus: "of_rat_d (- x) = neg_d (of_rat_d x)"
  by (auto simp: of_rat_d_def Let_def rnd_minus)

text \<open>The argument of the last power is between 0 and 1 in spite of its three roundings.\<close>

lemma zipf_argument:
  assumes "0 \<le> e" "e \<le> 1" "0 \<le> u" "u < 1" "is_double e"
  shows "\<exists>x. Fin e * Fin u - Fin e + 1 = Fin x \<and> 0 \<le> x \<and> x \<le> 1"
proof -
  have eu: "0 \<le> e * u" "e * u \<le> e" using assms mult_left_mono [of u 1 e] by simp_all
  then have 1: "of_rat_d (e * u) = Fin (rnd (e * u))" "0 \<le> rnd (e * u)" "rnd (e * u) \<le> e"
    using of_rat_d_unit [of "e * u"] assms by (simp_all add: rnd_le_double)
  let ?d = "e - rnd (e * u)"
  have d: "0 \<le> ?d" "?d \<le> 1" using 1 assms by linarith+
  then have 2: "of_rat_d ?d = Fin (rnd ?d)" "0 \<le> rnd ?d" "rnd ?d \<le> 1" using of_rat_d_unit by simp_all
  have 3: "of_rat_d (rnd (e * u) - e) = Fin (- rnd ?d)"
    using of_rat_d_minus [of ?d] 2(1) by simp
  have "0 \<le> 1 - rnd ?d" "1 - rnd ?d \<le> 1" using 2 by simp_all
  then have "of_rat_d (- rnd ?d + 1) = Fin (rnd (1 - rnd ?d)) \<and> 0 \<le> rnd (1 - rnd ?d) \<and> rnd (1 - rnd ?d) \<le> 1"
    using of_rat_d_unit [of "1 - rnd ?d"] by (simp add: add.commute)
  then show ?thesis using 1(1) 3 by (intro exI [of _ "rnd (1 - rnd ?d)"]) simp
qed

lemma d_of_u64_exact: "uint w \<le> 2 ^ 53 \<Longrightarrow> d_of_u64 w = Fin (of_int (uint w))"
  unfolding d_of_u64_def by (rule of_rat_d_int) simp

lemma of_rat_d_int_between:
  assumes "of_int m \<le> x" "x \<le> of_int n" "\<bar>m\<bar> \<le> 2 ^ 53" "\<bar>n\<bar> \<le> 2 ^ 53"
  shows "of_rat_d x = Fin (rnd x) \<and> of_int m \<le> rnd x \<and> rnd x \<le> of_int n"
proof -
  have b: "of_int m \<le> rnd x" "rnd x \<le> of_int n"
    using rnd_ge_double [OF assms(1) is_double_int [OF assms(3)]]
      rnd_le_double [OF assms(2) is_double_int [OF assms(4)]] by simp_all
  have "\<bar>of_int m :: rat\<bar> < 2 ^ 1024" "\<bar>of_int n :: rat\<bar> < 2 ^ 1024"
    using fin_d_int [OF assms(3)] fin_d_int [OF assms(4)] by simp_all
  then have "\<not> 2 ^ 1024 \<le> rnd x" "\<not> rnd x \<le> - (2 ^ 1024)" using b by linarith+
  then show ?thesis using b by (simp add: of_rat_d_def Let_def)
qed

lemma zipf_conversion_int:
  assumes "0 \<le> p" "p \<le> 1" "0 \<le> b" "b < 2 ^ 40" "0 \<le> n" "n < 2 ^ 40"
  shows "\<exists>t. u64_of_d (Fin (of_int b) + Fin (of_int n) * Fin p) = Inr (word_of_int t) \<and> b \<le> t \<and> t \<le> b + n"
proof -
  have "of_int n * p \<le> of_int n * 1" using assms by (intro mult_left_mono) simp_all
  then have 1: "of_rat_d (of_int n * p) = Fin (rnd (of_int n * p)) \<and>
      of_int 0 \<le> rnd (of_int n * p) \<and> rnd (of_int n * p) \<le> of_int n"
    using assms by (intro of_rat_d_int_between) simp_all
  let ?y = "of_int b + rnd (of_int n * p)"
  have 2: "of_rat_d ?y = Fin (rnd ?y) \<and> of_int b \<le> rnd ?y \<and> rnd ?y \<le> of_int (b + n)"
    using 1 assms by (intro of_rat_d_int_between) simp_all
  let ?t = "\<lfloor>rnd ?y\<rfloor>"
  have t: "b \<le> ?t" "?t \<le> b + n" using 2 by (simp only: le_floor_iff, metis floor_mono floor_of_int)
  have "0 \<le> rnd ?y" using 2 assms by (meson of_int_0_le_iff order_trans)
  then have "u64_of_d (Fin (of_int b) + Fin (of_int n) * Fin p) = Inr (word_of_int ?t)"
    using 1 2 t assms by (simp add: trunc_rat_def Let_def)
  then show ?thesis using t by blast
qed

lemma zipf_conversion:
  assumes "0 \<le> p" "p \<le> 1" "base < kMaxNumItems" "num < kMaxNumItems"
  shows "\<exists>v. u64_of_d (d_of_u64 base + d_of_u64 num * Fin p) = Inr v \<and> base \<le> v \<and> v \<le> base + num"
proof -
  let ?b = "uint base" and ?n = "uint num"
  have lt: "?b < 2 ^ 40" "?n < 2 ^ 40" "0 \<le> ?b" "0 \<le> ?n"
    using assms(3,4) by (simp_all add: kMaxNumItems_val word_less_alt)
  then have ex: "d_of_u64 base = Fin (of_int ?b)" "d_of_u64 num = Fin (of_int ?n)"
    by (intro d_of_u64_exact; simp)+
  obtain t where t: "u64_of_d (d_of_u64 base + d_of_u64 num * Fin p) = Inr (word_of_int t)"
    "?b \<le> t" "t \<le> ?b + ?n"
    using zipf_conversion_int [OF assms(1,2) lt(3,1,4,2)] unfolding ex by blast
  have "0 \<le> t" using t(2) lt(3) by linarith
  moreover have "t < 2 ^ 64" using t(3) lt(1,2) by simp
  ultimately have "uint (word_of_int t :: u64) = t" by (simp add: uint_word_of_int_eq take_bit_int_eq_self)
  moreover have "uint (base + num) = ?b + ?n" using lt by (simp add: uint_plus_if')
  ultimately have "base \<le> word_of_int t" "(word_of_int t :: u64) \<le> base + num"
    using t by (simp_all add: word_le_def)
  with t show ?thesis by blast
qed

lemma Zipfian_Next_num_range:
  assumes "pow_unit_law env" "zipf_inv z" "unit_random r"
    and "2 \<le> num" "num \<le> n_for_zeta z" "num < kMaxNumItems"
  shows "\<exists>v r'. Zipfian_Next_num env num z r = Inr (v, z\<lparr>last_value := v\<rparr>, r') \<and>
           v \<in> zipf_range (zbase z) num \<and> unit_random r'"
proof -
  obtain u r' where ur: "RandomDouble r = (u, r')" by fastforce
  obtain q where q: "u = Fin q" "0 \<le> q" "q < 1" "unit_random r'"
    using unit_random_draw [OF assms(3) ur] by blast
  obtain e a where ea: "eta z = Fin e" "is_double e" "0 \<le> e" "e \<le> 1" "alpha z = Fin a" "0 \<le> a"
    using assms(2) by (auto simp: zipf_inv_def)
  obtain x where x: "eta z * u - eta z + 1 = Fin x" "0 \<le> x" "x \<le> 1"
    using zipf_argument [of e q] ea q by auto
  obtain p where p: "pow_fn env (Fin x) (Fin a) = Fin p" "0 \<le> p" "p \<le> 1"
    using assms(1) x(2,3) ea(6) unfolding pow_unit_law_def by blast
  obtain v where v: "u64_of_d (d_of_u64 (zbase z) + d_of_u64 num * Fin p) = Inr v"
    "zbase z \<le> v" "v \<le> zbase z + num"
    using zipf_conversion [of p "zbase z" num] p assms(2,6) by (auto simp: zipf_inv_def)
  have z: "\<not> n_for_zeta z < num" using assms(5) by simp
  have last: "u64_of_d (d_of_u64 (zbase z) + d_of_u64 num * pow_fn env (eta z * u - eta z + 1) (alpha z)) = Inr v"
    unfolding x(1) ea(5) p(1) by (rule v(1))
  consider "u * zeta_n z < 1" | "\<not> u * zeta_n z < 1" "u * zeta_n z < 1 + pow_fn env (Fin (1/2)) (ztheta z)"
    | "\<not> u * zeta_n z < 1" "\<not> u * zeta_n z < 1 + pow_fn env (Fin (1/2)) (ztheta z)" by blast
  then show ?thesis
    using assms(4,6) z q(4) v(2,3)
    by cases (auto simp: Zipfian_Next_num_def ur last zipf_range_def Let_def simp del: zero_one_Fin)
qed

section \<open>The interface for the skewed generators\<close>

lemma zipf_inv_last [simp]: "zipf_inv (z\<lparr>last_value := v\<rparr>) = zipf_inv z"
  by (simp add: zipf_inv_def)

lemma Zipfian_Next_step:
  assumes "pow_unit_law env" "zipf_inv z" "unit_random r"
  shows "\<exists>v r'. Zipfian_Next env z r = Inr (v, z\<lparr>last_value := v\<rparr>, r') \<and>
           v \<in> zipf_range (zbase z) (num_items z) \<and> unit_random r'"
  unfolding Zipfian_Next_def using assms by (intro Zipfian_Next_num_range) (auto simp: zipf_inv_def)

interpretation zipf_gen: generator "Zipfian_Next env" Zipfian_Last
  "\<lambda>z. pow_unit_law env \<and> zipf_inv z" "\<lambda>z. zipf_range (zbase z) (num_items z)"
proof unfold_locales
  fix s :: zipfian_generator and r
  assume inv: "pow_unit_law env \<and> zipf_inv s" "unit_random r"
  obtain w r1 where w: "Zipfian_Next env s r = Inr (w, s\<lparr>last_value := w\<rparr>, r1)"
    "w \<in> zipf_range (zbase s) (num_items s)" "unit_random r1"
    using Zipfian_Next_step inv by blast
  then show "returns (Zipfian_Next env s r)" by blast
  fix v s' r' assume step: "Zipfian_Next env s r = Inr (v, s', r')"
  show "v \<in> zipf_range (zbase s) (num_items s)" "Zipfian_Last s' = v"
    using w step by (auto simp: Zipfian_Last_def)
  show "(pow_unit_law env \<and> zipf_inv s') \<and>
      zipf_range (zbase s') (num_items s') = zipf_range (zbase s) (num_items s) \<and> unit_random r'"
    using w step inv by auto
qed

definition scrambled_inv :: "scrambled_zipfian_generator \<Rightarrow> bool" where
  "scrambled_inv g \<longleftrightarrow> zipf_inv (sgenerator g) \<and> 0 < snum_items g \<and> sbase g \<le> sbase g + (snum_items g - 1)"

definition scrambled_range :: "scrambled_zipfian_generator \<Rightarrow> u64 set" where
  "scrambled_range g = {sbase g..sbase g + (snum_items g - 1)}"

lemma Scramble_range:
  assumes "scrambled_inv g"
  shows "\<exists>w. Scramble g v = Inr w \<and> w \<in> scrambled_range g"
proof -
  let ?m = "FNVHash64 v mod snum_items g"
  have n: "0 < snum_items g" using assms by (simp add: scrambled_inv_def)
  then have "?m < snum_items g" by (rule word_mod_less_divisor)
  then have m: "?m \<le> snum_items g - 1" using n by (simp add: word_le_nat_alt word_less_nat_alt unat_sub_if_size)
  have ov: "sbase g \<le> sbase g + (snum_items g - 1)" using assms by (simp add: scrambled_inv_def)
  then have lt: "unat (sbase g) + unat (snum_items g - 1) < 2 ^ size (sbase g)"
    by (simp only: no_plus_overflow_unat_size)
  then have "sbase g \<le> sbase g + ?m \<and> sbase g + ?m \<le> sbase g + (snum_items g - 1)"
    using m by (simp add: word_le_nat_alt unat_plus_if_size)
  then show ?thesis using n by (auto simp: Scramble_def scrambled_range_def)
qed

lemma Scrambled_Next_step:
  assumes "pow_unit_law env" "scrambled_inv g" "unit_random r"
  shows "\<exists>v w r'. Scrambled_Next env g r =
             Inr (w, g\<lparr>sgenerator := (sgenerator g)\<lparr>last_value := v\<rparr>\<rparr>, r') \<and>
           Scramble g v = Inr w \<and> w \<in> scrambled_range g \<and> unit_random r'"
proof -
  have inv: "zipf_inv (sgenerator g)" using assms(2) by (simp add: scrambled_inv_def)
  obtain v r' where v: "Zipfian_Next env (sgenerator g) r = Inr (v, (sgenerator g)\<lparr>last_value := v\<rparr>, r')"
    "unit_random r'" using Zipfian_Next_step [OF assms(1) inv assms(3)] by blast
  obtain w where w: "Scramble g v = Inr w" "w \<in> scrambled_range g"
    using Scramble_range [OF assms(2)] by blast
  then show ?thesis using v by (auto simp: Scrambled_Next_def)
qed

interpretation scrambled_gen: generator "Scrambled_Next env" "\<lambda>g. projr (Scrambled_Last g)"
  "\<lambda>g. pow_unit_law env \<and> scrambled_inv g" scrambled_range
proof unfold_locales
  fix s :: scrambled_zipfian_generator and r
  assume inv: "pow_unit_law env \<and> scrambled_inv s" "unit_random r"
  obtain u w r1 where w: "Scrambled_Next env s r = Inr (w, s\<lparr>sgenerator := (sgenerator s)\<lparr>last_value := u\<rparr>\<rparr>, r1)"
    "Scramble s u = Inr w" "w \<in> scrambled_range s" "unit_random r1"
    using Scrambled_Next_step inv by blast
  then show "returns (Scrambled_Next env s r)" by blast
  fix v s' r' assume step: "Scrambled_Next env s r = Inr (v, s', r')"
  show "v \<in> scrambled_range s" "projr (Scrambled_Last s') = v"
    using w step by (auto simp: Scrambled_Last_def Zipfian_Last_def Scramble_def)
  show "(pow_unit_law env \<and> scrambled_inv s') \<and> scrambled_range s' = scrambled_range s \<and> unit_random r'"
    using w step inv by (auto simp: scrambled_inv_def scrambled_range_def)
qed

definition skewed_inv :: "counter_generator \<Rightarrow> skewed_latest_generator \<Rightarrow> bool" where
  "skewed_inv basis g \<longleftrightarrow> zipf_inv (zipfian g) \<and> zbase (zipfian g) = 0 \<and>
     2 \<le> Counter_Last basis \<and> Counter_Last basis \<le> n_for_zeta (zipfian g) \<and> Counter_Last basis < kMaxNumItems"

lemma Skewed_Next_step:
  assumes "pow_unit_law env" "skewed_inv basis g" "unit_random r"
  shows "\<exists>v r'. Skewed_Next env basis g r =
             Inr (Counter_Last basis - v, g\<lparr>zipfian := (zipfian g)\<lparr>last_value := v\<rparr>,
                                            sklast := Counter_Last basis - v\<rparr>, r') \<and>
           v \<le> Counter_Last basis \<and> unit_random r'"
proof -
  let ?m = "Counter_Last basis"
  have inv: "zipf_inv (zipfian g)" "2 \<le> ?m" "?m \<le> n_for_zeta (zipfian g)" "?m < kMaxNumItems"
    "zbase (zipfian g) = 0" using assms(2) by (simp_all add: skewed_inv_def)
  obtain v r' where v: "Zipfian_Next_num env ?m (zipfian g) r = Inr (v, (zipfian g)\<lparr>last_value := v\<rparr>, r')"
    "v \<in> zipf_range 0 ?m" "unit_random r'"
    using Zipfian_Next_num_range [OF assms(1) inv(1) assms(3) inv(2-4)] inv(5) by auto
  have "1 \<le> ?m" by (rule order_trans [OF _ inv(2)]) simp
  then have "v \<le> ?m" using v(2) by (auto simp: zipf_range_def)
  then show ?thesis using v by (auto simp: Skewed_Next_def Let_def)
qed

interpretation skewed_gen: generator "Skewed_Next env basis" Skewed_Last
  "\<lambda>g. pow_unit_law env \<and> skewed_inv basis g" "\<lambda>g. {..Counter_Last basis}"
proof unfold_locales
  fix s :: skewed_latest_generator and r
  assume inv: "pow_unit_law env \<and> skewed_inv basis s" "unit_random r"
  let ?m = "Counter_Last basis"
  obtain u r1 where w: "Skewed_Next env basis s r =
       Inr (?m - u, s\<lparr>zipfian := (zipfian s)\<lparr>last_value := u\<rparr>, sklast := ?m - u\<rparr>, r1)"
    "u \<le> ?m" "unit_random r1"
    using Skewed_Next_step inv by blast
  then show "returns (Skewed_Next env basis s r)" by blast
  fix v s' r' assume step: "Skewed_Next env basis s r = Inr (v, s', r')"
  show "v \<in> {..?m}" "Skewed_Last s' = v"
    using w step by (auto simp: Skewed_Last_def word_le_nat_alt unat_sub_if_size)
  show "(pow_unit_law env \<and> skewed_inv basis s') \<and> {..?m} = {..?m} \<and> unit_random r'"
    using w step inv by (auto simp: skewed_inv_def)
qed

section \<open>The interface through a pointer\<close>

fun gen_inv :: "cxx_env \<Rightarrow> counter_generator \<Rightarrow> gen \<Rightarrow> bool" where
  "gen_inv env basis (Const_gen g) = True"
| "gen_inv env basis (Counter_gen g) = True"
| "gen_inv env basis (Uniform_gen g) = uniform_inv g"
| "gen_inv env basis (Zipfian_gen g) = (pow_unit_law env \<and> zipf_inv g)"
| "gen_inv env basis (Scrambled_gen g) = (pow_unit_law env \<and> scrambled_inv g)"
| "gen_inv env basis (Skewed_gen g) = (pow_unit_law env \<and> skewed_inv basis g)"

fun gen_range :: "counter_generator \<Rightarrow> gen \<Rightarrow> u64 set" where
  "gen_range basis (Const_gen g) = {const_value g}"
| "gen_range basis (Counter_gen g) = UNIV"
| "gen_range basis (Uniform_gen g) = {u_min g..u_max g}"
| "gen_range basis (Zipfian_gen g) = zipf_range (zbase g) (num_items g)"
| "gen_range basis (Scrambled_gen g) = scrambled_range g"
| "gen_range basis (Skewed_gen g) = {..Counter_Last basis}"

context generator
begin

lemma wrapped_step:
  assumes "inv s" "unit_random r"
  obtains v h r' where "wrap_gen C (nxt s r) = Inr (v, C h, r')" "v \<in> rng s" "lst h = v" "inv h"
    "rng h = rng s" "unit_random r'"
proof -
  obtain v h r' where "nxt s r = Inr (v, h, r')" "v \<in> rng s" "lst h = v" "inv h"
    "rng h = rng s" "unit_random r'" using nxt_obtain [OF assms] .
  then show ?thesis by (intro that [of v h r']) (simp_all add: wrap_gen_def)
qed

end

lemma gen_Next_step:
  assumes "gen_inv env basis g" "unit_random r"
  shows "\<exists>v g' r'. gen_Next env basis g r = Inr (v, g', r') \<and> v \<in> gen_range basis g \<and>
           projr (gen_Last g') = v \<and> gen_inv env basis g' \<and> gen_range basis g' = gen_range basis g \<and>
           unit_random r'"
proof (cases g)
  case (Const_gen h)
  show ?thesis by (rule const_gen.wrapped_step [where s = h and C = Const_gen, OF _ assms(2)]) (simp_all add: Const_gen)
next
  case (Counter_gen h)
  show ?thesis by (rule counter_gen.wrapped_step [where s = h and C = Counter_gen, OF _ assms(2)]) (simp_all add: Counter_gen)
next
  case (Uniform_gen h)
  show ?thesis
    by (rule uniform_gen.wrapped_step [where s = h and C = Uniform_gen, OF _ assms(2)])
       (use assms(1) in \<open>simp_all add: Uniform_gen\<close>)
next
  case (Zipfian_gen h)
  show ?thesis
    by (rule zipf_gen.wrapped_step [where env = env and s = h and C = Zipfian_gen, OF _ assms(2)])
       (use assms(1) in \<open>simp_all add: Zipfian_gen\<close>)
next
  case (Scrambled_gen h)
  show ?thesis
    by (rule scrambled_gen.wrapped_step [where env = env and s = h and C = Scrambled_gen, OF _ assms(2)])
       (use assms(1) in \<open>simp_all add: Scrambled_gen\<close>)
next
  case (Skewed_gen h)
  show ?thesis
    by (rule skewed_gen.wrapped_step [where env = env and basis = basis and s = h and C = Skewed_gen, OF _ assms(2)])
       (use assms(1) in \<open>simp_all add: Skewed_gen\<close>)
qed

interpretation virtual_gen: generator "gen_Next env basis" "\<lambda>g. projr (gen_Last g)"
  "gen_inv env basis" "gen_range basis"
proof unfold_locales
  fix s r assume inv: "gen_inv env basis s" "unit_random r"
  show "returns (gen_Next env basis s r)" using gen_Next_step [OF inv] by blast
  fix v s' r' assume "gen_Next env basis s r = Inr (v, s', r')"
  then show "v \<in> gen_range basis s" "projr (gen_Last s') = v"
    "gen_inv env basis s' \<and> gen_range basis s' = gen_range basis s \<and> unit_random r'"
    using gen_Next_step [OF inv] by auto
qed

section \<open>The constructors establish the invariants\<close>

text \<open>
  The relation between the zeta constants and the power that eta needs: with
  \<open>q = zeta(2) / zeta(n)\<close> and \<open>p = (2/n) ^ (1 - theta)\<close> computed in doubles, \<open>0 \<le> q < p\<close>. For exact
  numbers it holds for every \<open>n > 2\<close>; for \<open>n = 2\<close> both sides are 1 and eta is not a number.
\<close>

definition zeta_ratio_law :: "cxx_env \<Rightarrow> u64 \<Rightarrow> double \<Rightarrow> bool" where
  "zeta_ratio_law env n c =
     (case (Zeta env 0 2 c 0, Zeta env 0 n c 0) of
        (Inr z2, Inr zn) \<Rightarrow> 0 \<le> z2 / zn \<and> z2 / zn < pow_fn env (Fin 2 / d_of_u64 n) (1 - c)
      | _ \<Rightarrow> False)"

definition theta_ok :: "double \<Rightarrow> bool" where
  "theta_ok c \<longleftrightarrow> (case c of Fin t \<Rightarrow> is_double t \<and> 0 \<le> t \<and> t < 1 | _ \<Rightarrow> False)"

lemma one_minus_theta:
  assumes "is_double t" "0 \<le> t" "t < 1"
  shows "\<exists>d. Fin 1 - Fin t = Fin d \<and> 0 < d \<and> d \<le> 1 \<and> 1 / 2 ^ 53 \<le> d"
proof -
  have "t \<le> 1 - 1 / 2 ^ 53" using assms by (intro is_double_below_one)
  then have "1 / 2 ^ 53 \<le> 1 - t" by linarith
  moreover have "is_double (1 / 2 ^ 53)" using fin_d_dyadic [of 1 53] by simp
  ultimately have "1 / 2 ^ 53 \<le> rnd (1 - t)" by (intro rnd_ge_double)
  moreover have "of_rat_d (1 - t) = Fin (rnd (1 - t))" "rnd (1 - t) \<le> 1"
    using of_rat_d_unit [of "1 - t"] assms by simp_all
  moreover have "(0::rat) < 1 / 2 ^ 53" by simp
  ultimately show ?thesis by (metis Fin_arith(2) less_le_trans)
qed

lemma alpha_bounds:
  assumes "theta_ok c"
  shows "\<exists>a. 1 / (1 - c) = Fin a \<and> 0 \<le> a"
proof -
  obtain t where t: "c = Fin t" "is_double t" "0 \<le> t" "t < 1"
    using assms by (auto simp: theta_ok_def split: double.splits)
  obtain d where d: "Fin 1 - Fin t = Fin d" "0 < d" "1 / 2 ^ 53 \<le> d"
    using one_minus_theta [OF t(2-4)] by blast
  have "1 / d \<le> of_int (2 ^ 53)" using d(2,3) by (simp add: field_simps)
  then have "of_rat_d (1 / d) = Fin (rnd (1 / d)) \<and> of_int 0 \<le> rnd (1 / d) \<and> rnd (1 / d) \<le> of_int (2 ^ 53)"
    using d(2) by (intro of_rat_d_int_between) simp_all
  then show ?thesis using d(1,2) by (simp add: t(1))
qed

lemma eta_bounds:
  assumes "is_double q" "0 \<le> q" "q < p" "p \<le> 1"
  shows "\<exists>e. (Fin 1 - Fin p) / (Fin 1 - Fin q) = Fin e \<and> is_double e \<and> 0 \<le> e \<and> e \<le> 1"
proof -
  have p: "of_rat_d (1 - p) = Fin (rnd (1 - p)) \<and> 0 \<le> rnd (1 - p) \<and> rnd (1 - p) \<le> 1"
    using assms by (intro of_rat_d_unit) simp_all
  have "q < 1" using assms(3,4) by linarith
  then obtain d where d: "Fin 1 - Fin q = Fin d" "0 < d" using one_minus_theta [OF assms(1,2)] by blast
  have "d = rnd (1 - q)" using d(1) of_rat_d_unit [of "1 - q"] assms(2) \<open>q < 1\<close> by simp
  then have "rnd (1 - p) \<le> d" using assms(3) by (simp add: rnd_mono)
  then have "0 \<le> rnd (1 - p) / d" "rnd (1 - p) / d \<le> 1" using p d(2) by simp_all
  then show ?thesis using of_rat_d_unit [of "rnd (1 - p) / d"] p d by simp
qed

lemma is_double_of_rat_d: "of_rat_d x = Fin q \<Longrightarrow> is_double q"
  by (auto simp: of_rat_d_def Let_def split: if_splits)

lemma is_double_div: "(x :: double) / y = Fin q \<Longrightarrow> is_double q"
  by (cases x; cases y) (auto simp: divide_double_def is_double_of_rat_d split: if_splits)

lemma double_unit_cases:
  assumes "0 \<le> x" "x < Fin p"
  shows "\<exists>q. x = Fin q \<and> 0 \<le> q \<and> q < p"
  using assms by (cases x) (auto simp: less_double_def less_eq_double_def)

lemma two_over_n:
  assumes "2 \<le> n" "n < kMaxNumItems"
  shows "\<exists>x. Fin 2 / d_of_u64 n = Fin x \<and> 0 \<le> x \<and> x \<le> 1"
proof -
  have n: "2 \<le> uint n" "uint n < 2 ^ 40"
    using assms by (simp_all add: kMaxNumItems_val word_less_alt word_le_def)
  have d: "d_of_u64 n = Fin (of_int (uint n))" using n by (intro d_of_u64_exact) simp
  have r: "2 \<le> (of_int (uint n) :: rat)" using n(1) by (metis of_int_le_iff of_int_numeral)
  then have "0 \<le> 2 / (of_int (uint n) :: rat)" "2 / (of_int (uint n) :: rat) \<le> 1" by simp_all
  from of_rat_d_unit [OF this] r show ?thesis unfolding d
    by (intro exI [of _ "rnd (2 / of_int (uint n))"]) (simp del: of_int_uint)
qed

lemma Eta_unit:
  assumes "pow_unit_law env" "theta_ok c" "2 \<le> n" "n < kMaxNumItems"
    and "0 \<le> z2 / zn" "z2 / zn < pow_fn env (Fin 2 / d_of_u64 n) (1 - c)"
    and "num_items z = n" "ztheta z = c" "zeta_2 z = z2" "zeta_n z = zn"
  shows "\<exists>e. Eta env z = Fin e \<and> is_double e \<and> 0 \<le> e \<and> e \<le> 1"
proof -
  obtain x where x: "Fin 2 / d_of_u64 n = Fin x" "0 \<le> x" "x \<le> 1" using two_over_n assms(3,4) by blast
  obtain t where t: "c = Fin t" "is_double t" "0 \<le> t" "t < 1"
    using assms(2) by (auto simp: theta_ok_def split: double.splits)
  obtain d where d: "Fin 1 - Fin t = Fin d" "0 < d" using one_minus_theta [OF t(2-4)] by blast
  then obtain p where p: "pow_fn env (Fin x) (Fin d) = Fin p" "p \<le> 1"
    using assms(1) x(2,3) unfolding pow_unit_law_def by (metis less_imp_le)
  have P: "pow_fn env (Fin 2 / d_of_u64 n) (1 - c) = Fin p"
    unfolding x(1) t(1) zero_one_Fin d(1) by (rule p(1))
  obtain q where q: "z2 / zn = Fin q" "0 \<le> q" "q < p" using double_unit_cases assms(5,6) P by metis
  have "is_double q" using q(1) by (rule is_double_div)
  from eta_bounds [OF this q(2,3) p(2)] show ?thesis
    unfolding Eta_def assms(7-10) P q(1) unfolding zero_one_Fin .
qed

lemma ZipfianGenerator_establishes:
  assumes "pow_unit_law env" "unit_random r" "theta_ok c" "lo < kMaxNumItems"
    and "2 \<le> hi - lo + 1" "hi - lo + 1 < kMaxNumItems" "zeta_ratio_law env (hi - lo + 1) c"
  shows "\<exists>z r'. ZipfianGenerator env lo hi c r = Inr (z, r') \<and> zipf_inv z \<and> zbase z = lo \<and>
           num_items z = hi - lo + 1 \<and> n_for_zeta z = hi - lo + 1 \<and> unit_random r'"
proof -
  let ?n = "hi - lo + 1"
  obtain z2 zn where zs: "Zeta env 0 2 c 0 = Inr z2" "Zeta env 0 ?n c 0 = Inr zn" "0 \<le> z2 / zn"
    "z2 / zn < pow_fn env (Fin 2 / d_of_u64 ?n) (1 - c)"
    using assms(7) by (auto simp: zeta_ratio_law_def split: sum.splits simp del: zero_one_Fin)
  define z0 where "z0 = \<lparr>num_items = ?n, zbase = lo, ztheta = c, zeta_n = zn, eta = 0,
    alpha = 1 / (1 - c), zeta_2 = z2, n_for_zeta = ?n, last_value = 0\<rparr>"
  define z where "z = z0\<lparr>eta := Eta env z0\<rparr>"
  have "zipf_inv z"
    using Eta_unit [OF assms(1,3,5,6) zs(3,4), of z0] alpha_bounds [OF assms(3)] assms(4-6)
    by (simp add: zipf_inv_def z_def z0_def del: zero_one_Fin)
  then obtain v r' where v: "Zipfian_Next env z r = Inr (v, z\<lparr>last_value := v\<rparr>, r')" "unit_random r'"
    using Zipfian_Next_step [OF assms(1) _ assms(2)] by blast
  have "ZipfianGenerator env lo hi c r = Inr (z\<lparr>last_value := v\<rparr>, r')"
    using assms(5,6) zs v
    by (simp add: ZipfianGenerator_def RaiseZeta_def Let_def z_def z0_def del: zero_one_Fin)
  moreover have "zbase z = lo" "num_items z = ?n" "n_for_zeta z = ?n" by (simp_all add: z_def z0_def)
  ultimately show ?thesis using \<open>zipf_inv z\<close> v(2) by auto
qed

lemma ScrambledZipfianGenerator_establishes:
  assumes "pow_unit_law env" "unit_random r" "theta_ok c" "lo < kMaxNumItems" "lo \<le> hi"
    and "2 \<le> hi - lo + 1" "hi - lo + 1 < kMaxNumItems" "zeta_ratio_law env (hi - lo + 1) c"
  shows "\<exists>g r'. ScrambledZipfianGenerator env lo hi c r = Inr (g, r') \<and> scrambled_inv g \<and>
           scrambled_range g = {lo..hi} \<and> unit_random r'"
proof -
  obtain z r' where z: "ZipfianGenerator env lo hi c r = Inr (z, r')" "zipf_inv z" "unit_random r'"
    using ZipfianGenerator_establishes [OF assms(1-4,6-8)] by blast
  have "0 < hi - lo + 1" using assms(6) by (rule less_le_trans [rotated]) simp
  then show ?thesis
    using z assms(5) by (auto simp: ScrambledZipfianGenerator_def scrambled_inv_def scrambled_range_def)
qed

lemma SkewedLatestGenerator_establishes:
  assumes "pow_unit_law env" "unit_random r" "theta_ok kZipfianConst"
    and "2 \<le> Counter_Last basis" "Counter_Last basis < kMaxNumItems"
    and "zeta_ratio_law env (Counter_Last basis) kZipfianConst"
  shows "\<exists>g r'. SkewedLatestGenerator env basis r = Inr (g, r') \<and> skewed_inv basis g \<and> unit_random r'"
proof -
  let ?m = "Counter_Last basis"
  have n: "?m - 1 - 0 + 1 = ?m" by simp
  obtain z r1 where z: "ZipfianGenerator_items env ?m r = Inr (z, r1)" "zipf_inv z" "zbase z = 0"
    "n_for_zeta z = ?m" "unit_random r1"
    using ZipfianGenerator_establishes [of env r kZipfianConst 0 "?m - 1"] assms
    unfolding ZipfianGenerator_items_def n by (auto simp: kMaxNumItems_val)
  then have inv: "skewed_inv basis \<lparr>zipfian = z, sklast = 0\<rparr>" using assms by (simp add: skewed_inv_def)
  show ?thesis
    using Skewed_Next_step [OF assms(1) inv z(5)] z(1) inv
    by (fastforce simp: SkewedLatestGenerator_def skewed_inv_def)
qed

section \<open>Sequences of calls\<close>

primrec gen_run :: "cxx_env \<Rightarrow> counter_generator \<Rightarrow> nat \<Rightarrow> gen \<Rightarrow> random \<Rightarrow> (u64 list \<times> gen \<times> random) result" where
  "gen_run env basis 0 g r = Inr ([], g, r)"
| "gen_run env basis (Suc n) g r = bindR (gen_Next env basis g r) (\<lambda>(v, g', r').
     bindR (gen_run env basis n g' r') (\<lambda>(vs, g'', r''). Inr (v # vs, g'', r'')))"

lemma gen_run_eq: "gen_run env basis n g r = virtual_gen.run env basis n g r"
  by (induction n arbitrary: g r) simp_all

text \<open>An instance of the library parameters, in which the laws hold.\<close>

definition sample_pow :: "double \<Rightarrow> double \<Rightarrow> double" where
  "sample_pow x y = (if 1 \<le> x then 1 else if y < Fin (1/2) then Fin (63/64) else x)"

definition sample_env :: cxx_env where
  "sample_env = \<lparr>uniform_draws = (\<lambda>lo hi. lo ## sconst hi), pow_fn = sample_pow\<rparr>"

lemma sample_pow_unit_law: "pow_unit_law sample_env"
proof -
  have "\<exists>p. sample_pow (Fin x) (Fin b) = Fin p \<and> 0 \<le> p \<and> p \<le> 1" if "0 \<le> x" "x \<le> 1" for x b
    using that by (cases "x < 1"; cases "b < 1/2") (auto simp: sample_pow_def intro: exI [of _ "63/64"])
  then show ?thesis by (simp add: pow_unit_law_def sample_env_def)
qed

lemma sample_uniform_law: "uniform_law sample_env"
  by (auto simp: uniform_law_def sample_env_def sset_sconst)

text \<open>In this instance every term of zeta is 1, and zeta of n is n.\<close>

lemma zeta_loop_step:
  "i \<le> n \<Longrightarrow> zeta_loop env i n c z = zeta_loop env (i + 1) n c (z + 1 / pow_fn env (d_of_u64 i) c)"
  "n < i \<Longrightarrow> zeta_loop env i n c z = Some z"
  unfolding zeta_loop.simps [of env i n c z] by auto

lemma d_of_u64_small:
  "d_of_u64 1 = Fin 1" "d_of_u64 2 = Fin 2" "d_of_u64 3 = Fin 3" "d_of_u64 4 = Fin 4"
  by (simp_all add: d_of_u64_exact)

lemma of_rat_d_numeral: "(numeral n :: int) \<le> 2 ^ 53 \<Longrightarrow> of_rat_d (numeral n) = Fin (numeral n)"
  using of_rat_d_int [of "numeral n"] by simp

lemma sample_Zeta:
  "Zeta sample_env 0 2 kZipfianConst 0 = Inr (Fin 2)" "Zeta sample_env 0 4 kZipfianConst 0 = Inr (Fin 4)"
  by (simp_all add: Zeta_def zeta_loop_step sample_env_def sample_pow_def d_of_u64_small of_rat_d_numeral)

lemma sample_zeta_ratio: "zeta_ratio_law sample_env 4 kZipfianConst"
proof -
  have q: "Fin 2 / Fin 4 = Fin (1/2)" by code_simp
  have "sample_pow (Fin (1/2)) (1 - kZipfianConst) = Fin (63/64)" by code_simp
  then have "pow_fn sample_env (Fin 2 / d_of_u64 4) (1 - kZipfianConst) = Fin (63/64)"
    unfolding d_of_u64_small(4) q by (simp add: sample_env_def del: zero_one_Fin)
  moreover have "Fin 0 \<le> Fin (1/2)" "Fin (1/2) < Fin (63/64)" by simp_all
  ultimately show ?thesis
    by (simp only: zeta_ratio_law_def sample_Zeta q prod.case sum.case) (simp only: zero_one_Fin simp_thms)
qed

lemma theta_ok_kZipfianConst: "theta_ok kZipfianConst"
  by code_simp

definition sample_random :: random where
  "sample_random = \<lparr>unit_draws = sconst (Fin (1/2)), rand_draws = sconst 7\<rparr>"

lemma unit_random_sample: "unit_random sample_random"
proof -
  have "fin_d (Fin (of_int 1 / 2 ^ 1))" by (rule fin_d_dyadic) simp_all
  then have "is_double (1/2)" by simp
  then show ?thesis
    by (simp add: unit_random_def sample_random_def) (intro exI [of _ "1/2"], simp)
qed

section \<open>Properties\<close>

text \<open>
  C13. The contract of the Generator interface, for every class a pointer of the workload can hold
  (constant, counter, uniform, zipfian, scrambled zipfian, latest): from a state in the class's
  invariant any number of calls of Next returns, without a failed assertion and without an
  undefined conversion, the values all lie in the class's range, Last then gives the last of
  them, and the invariant still holds.
\<close>

theorem Generator_calls_in_range:
  assumes "gen_inv env basis g" "unit_random r"
  shows "\<exists>vs g' r'. gen_run env basis n g r = Inr (vs, g', r') \<and> length vs = n \<and>
           set vs \<subseteq> gen_range basis g \<and> (vs = [] \<or> projr (gen_Last g') = last vs) \<and>
           gen_inv env basis g' \<and> unit_random r'"
  using virtual_gen.run_values [OF assms, of n] unfolding gen_run_eq by metis

theorem Generator_calls_in_range_witness:
  "\<exists>vs g' r'. gen_run sample_env \<lparr>counter = 5\<rparr> 3
       (Uniform_gen \<lparr>u_min = 2, u_max = 9, u_draws = sconst 4, last_int = 4\<rparr>) sample_random = Inr (vs, g', r') \<and>
     length vs = 3 \<and> set vs \<subseteq> {2..9}"
  using Generator_calls_in_range [of sample_env "\<lparr>counter = 5\<rparr>"
      "Uniform_gen \<lparr>u_min = 2, u_max = 9, u_draws = sconst 4, last_int = 4\<rparr>" sample_random 3]
    unit_random_sample
  by (fastforce simp: uniform_inv_def sset_sconst)

text \<open>
  C18. A zipfian generator built for a range of more than two items: the constructor returns (its
  zeta loops end, no assertion fails), and every later run of calls returns values that are 0, 1
  or between min and max + 1. The bound is one past max because the last power rounds to 1 for
  draws close to 1, and 0 and 1 are returned without min being added. Of std::pow it needs that
  powers of numbers between 0 and 1 stay there and, for this number of items, that
  \<open>zeta(2) / zeta(n)\<close> is below \<open>(2 / n) ^ (1 - theta)\<close>.
\<close>

theorem ZipfianGenerator_calls:
  assumes "pow_unit_law env" "unit_random r" "theta_ok c" "lo < kMaxNumItems"
    and "2 \<le> hi - lo + 1" "hi - lo + 1 < kMaxNumItems" "zeta_ratio_law env (hi - lo + 1) c"
  shows "\<exists>z r1 vs g r2. ZipfianGenerator env lo hi c r = Inr (z, r1) \<and>
           gen_run env basis n (Zipfian_gen z) r1 = Inr (vs, g, r2) \<and> length vs = n \<and>
           set vs \<subseteq> {0, 1} \<union> {lo..hi + 1}"
proof -
  obtain z r1 where z: "ZipfianGenerator env lo hi c r = Inr (z, r1)" "zipf_inv z" "zbase z = lo"
    "num_items z = hi - lo + 1" "unit_random r1"
    using ZipfianGenerator_establishes [OF assms] by blast
  have "gen_inv env basis (Zipfian_gen z)" using assms(1) z(2) by simp
  from virtual_gen.run_values [OF this z(5), of n] show ?thesis
    using z(1,3,4) by (auto simp: gen_run_eq zipf_range_def)
qed

theorem ZipfianGenerator_calls_witness:
  "\<exists>z r1 vs g r2. ZipfianGenerator sample_env 1 4 kZipfianConst sample_random = Inr (z, r1) \<and>
     gen_run sample_env \<lparr>counter = 5\<rparr> 10 (Zipfian_gen z) r1 = Inr (vs, g, r2) \<and> length vs = 10 \<and>
     set vs \<subseteq> {0, 1} \<union> {1..5}"
  using ZipfianGenerator_calls [OF sample_pow_unit_law unit_random_sample theta_ok_kZipfianConst,
      of 1 4 "\<lparr>counter = 5\<rparr>" 10] sample_zeta_ratio
  by (simp add: kMaxNumItems_val)

text \<open>
  C19. A scrambled zipfian generator, built like the one of the workload for the items from min to
  max, returns only values between min and max in every run of calls: the remainder of the hash
  keeps the values in the range whatever the zipfian generator below it returns.
\<close>

theorem ScrambledZipfianGenerator_calls:
  assumes "pow_unit_law env" "unit_random r" "theta_ok c" "lo < kMaxNumItems" "lo \<le> hi"
    and "2 \<le> hi - lo + 1" "hi - lo + 1 < kMaxNumItems" "zeta_ratio_law env (hi - lo + 1) c"
  shows "\<exists>s r1 vs g r2. ScrambledZipfianGenerator env lo hi c r = Inr (s, r1) \<and>
           gen_run env basis n (Scrambled_gen s) r1 = Inr (vs, g, r2) \<and> length vs = n \<and>
           set vs \<subseteq> {lo..hi}"
proof -
  obtain s r1 where s: "ScrambledZipfianGenerator env lo hi c r = Inr (s, r1)" "scrambled_inv s"
    "scrambled_range s = {lo..hi}" "unit_random r1"
    using ScrambledZipfianGenerator_establishes [OF assms] by blast
  have "gen_inv env basis (Scrambled_gen s)" using assms(1) s(2) by simp
  from virtual_gen.run_values [OF this s(4), of n] show ?thesis
    using s(1,3) by (auto simp: gen_run_eq)
qed

theorem ScrambledZipfianGenerator_calls_witness:
  "\<exists>s r1 vs g r2. ScrambledZipfianGenerator sample_env 0 3 kZipfianConst sample_random = Inr (s, r1) \<and>
     gen_run sample_env \<lparr>counter = 5\<rparr> 10 (Scrambled_gen s) r1 = Inr (vs, g, r2) \<and> length vs = 10 \<and>
     set vs \<subseteq> {0..3}"
  using ScrambledZipfianGenerator_calls [OF sample_pow_unit_law unit_random_sample theta_ok_kZipfianConst,
      of 0 3 "\<lparr>counter = 5\<rparr>" 10] sample_zeta_ratio
  by (simp add: kMaxNumItems_val)

text \<open>
  C20. A zipfian generator returns 0, whatever its minimum, on every draw below
  \<open>1 / zeta(n)\<close>: the comparison with 1 comes before the addition of base. With a minimum above 0
  (the scan length and field length generators have minimum 1) the value lies outside the range
  the generator was built for.
\<close>

theorem Zipfian_Next_ignores_base:
  assumes "RandomDouble r = (Fin u, r')" "zeta_n z = Fin y" "rnd (u * y) < 1" "- 1 < rnd (u * y)"
    and "2 \<le> num_items z" "num_items z < kMaxNumItems" "num_items z \<le> n_for_zeta z"
  shows "Zipfian_Next env z r = Inr (0, z\<lparr>last_value := 0\<rparr>, r')"
proof -
  have "(1::rat) \<le> 2 ^ 1024" by simp
  then have "\<not> 2 ^ 1024 \<le> rnd (u * y)" "\<not> rnd (u * y) \<le> - (2 ^ 1024)"
    using assms(3,4) by linarith+
  then have "Fin u * zeta_n z < 1" using assms(2,3) by (simp add: of_rat_d_def Let_def)
  moreover have "\<not> n_for_zeta z < num_items z" using assms(7) by simp
  ultimately show ?thesis using assms(1,5,6)
    by (simp add: Zipfian_Next_def Zipfian_Next_num_def Let_def del: zero_one_Fin)
qed

theorem Zipfian_Next_ignores_base_witness:
  "Zipfian_Next sample_env \<lparr>num_items = 4, zbase = 50, ztheta = kZipfianConst, zeta_n = Fin 4, eta = 0,
     alpha = 0, zeta_2 = Fin 2, n_for_zeta = 4, last_value = 52\<rparr>
     \<lparr>unit_draws = sconst (Fin 0), rand_draws = sconst 7\<rparr> =
   Inr (0, \<lparr>num_items = 4, zbase = 50, ztheta = kZipfianConst, zeta_n = Fin 4, eta = 0,
     alpha = 0, zeta_2 = Fin 2, n_for_zeta = 4, last_value = 0\<rparr>,
     \<lparr>unit_draws = sconst (Fin 0), rand_draws = sconst 7\<rparr>)"
  by (subst Zipfian_Next_ignores_base [of _ 0 "\<lparr>unit_draws = sconst (Fin 0), rand_draws = sconst 7\<rparr>" _ 4])
     (simp_all add: RandomDouble_def kMaxNumItems_val)

end
