(* ===== verification/Core_Workload.thy ===== *)
theory Core_Workload
  imports Properties Zipfian
begin

text \<open>
  CoreWorkload of core/core\_workload.h and core/core\_workload.cc: the parameters of a benchmark
  read from the properties, the generators built from them, and the operations that produce the
  next key, operation, field name, scan length and field values. A generator pointer is None
  when it is NULL; using it then is undefined behaviour. The counter insert\_key\_sequence\_ is a
  member of the object, and the one a SkewedLatestGenerator refers to.
\<close>

section \<open>Operations and property names\<close>

datatype operation = INSERT | READ | UPDATE | SCAN | READMODIFYWRITE

definition DBNAME_PROPERTY :: string where "DBNAME_PROPERTY = ''dbname''"
definition DBNAME_DEFAULT :: string where "DBNAME_DEFAULT = ''basic''"
definition TABLENAME_PROPERTY :: string where "TABLENAME_PROPERTY = ''table''"
definition TABLENAME_DEFAULT :: string where "TABLENAME_DEFAULT = ''usertable''"
definition FIELD_COUNT_PROPERTY :: string where "FIELD_COUNT_PROPERTY = ''fieldcount''"
definition FIELD_COUNT_DEFAULT :: string where "FIELD_COUNT_DEFAULT = ''10''"
definition FIELD_LENGTH_DISTRIBUTION_PROPERTY :: string where
  "FIELD_LENGTH_DISTRIBUTION_PROPERTY = ''field_len_dist''"
definition FIELD_LENGTH_DISTRIBUTION_DEFAULT :: string where
  "FIELD_LENGTH_DISTRIBUTION_DEFAULT = ''constant''"
definition FIELD_LENGTH_PROPERTY :: string where "FIELD_LENGTH_PROPERTY = ''fieldlength''"
definition FIELD_LENGTH_DEFAULT :: string where "FIELD_LENGTH_DEFAULT = ''100''"
definition READ_ALL_FIELDS_PROPERTY :: string where "READ_ALL_FIELDS_PROPERTY = ''readallfields''"
definition READ_ALL_FIELDS_DEFAULT :: string where "READ_ALL_FIELDS_DEFAULT = ''true''"
definition WRITE_ALL_FIELDS_PROPERTY :: string where "WRITE_ALL_FIELDS_PROPERTY = ''writeallfields''"
definition WRITE_ALL_FIELDS_DEFAULT :: string where "WRITE_ALL_FIELDS_DEFAULT = ''false''"
definition READ_PROPORTION_PROPERTY :: string where "READ_PROPORTION_PROPERTY = ''readproportion''"
definition READ_PROPORTION_DEFAULT :: string where "READ_PROPORTION_DEFAULT = ''0.95''"
definition UPDATE_PROPORTION_PROPERTY :: string where "UPDATE_PROPORTION_PROPERTY = ''updateproportion''"
definition UPDATE_PROPORTION_DEFAULT :: string where "UPDATE_PROPORTION_DEFAULT = ''0.05''"
definition INSERT_PROPORTION_PROPERTY :: string where "INSERT_PROPORTION_PROPERTY = ''insertproportion''"
definition INSERT_PROPORTION_DEFAULT :: string where "INSERT_PROPORTION_DEFAULT = ''0.0''"
definition SCAN_PROPORTION_PROPERTY :: string where "SCAN_PROPORTION_PROPERTY = ''scanproportion''"
definition SCAN_PROPORTION_DEFAULT :: string where "SCAN_PROPORTION_DEFAULT = ''0.0''"
definition READMODIFYWRITE_PROPORTION_PROPERTY :: string where
  "READMODIFYWRITE_PROPORTION_PROPERTY = ''readmodifywriteproportion''"
definition READMODIFYWRITE_PROPORTION_DEFAULT :: string where
  "READMODIFYWRITE_PROPORTION_DEFAULT = ''0.0''"
definition REQUEST_DISTRIBUTION_PROPERTY :: string where
  "REQUEST_DISTRIBUTION_PROPERTY = ''requestdistribution''"
definition REQUEST_DISTRIBUTION_DEFAULT :: string where "REQUEST_DISTRIBUTION_DEFAULT = ''uniform''"
definition ZERO_PADDING_PROPERTY :: string where "ZERO_PADDING_PROPERTY = ''zeropadding''"
definition ZERO_PADDING_DEFAULT :: string where "ZERO_PADDING_DEFAULT = ''1''"
definition MAX_SCAN_LENGTH_PROPERTY :: string where "MAX_SCAN_LENGTH_PROPERTY = ''maxscanlength''"
definition MAX_SCAN_LENGTH_DEFAULT :: string where "MAX_SCAN_LENGTH_DEFAULT = ''1000''"
definition SCAN_LENGTH_DISTRIBUTION_PROPERTY :: string where
  "SCAN_LENGTH_DISTRIBUTION_PROPERTY = ''scanlengthdistribution''"
definition SCAN_LENGTH_DISTRIBUTION_DEFAULT :: string where
  "SCAN_LENGTH_DISTRIBUTION_DEFAULT = ''uniform''"
definition INSERT_ORDER_PROPERTY :: string where "INSERT_ORDER_PROPERTY = ''insertorder''"
definition INSERT_ORDER_DEFAULT :: string where "INSERT_ORDER_DEFAULT = ''hashed''"
definition INSERT_START_PROPERTY :: string where "INSERT_START_PROPERTY = ''insertstart''"
definition INSERT_START_DEFAULT :: string where "INSERT_START_DEFAULT = ''0''"
definition RECORD_COUNT_PROPERTY :: string where "RECORD_COUNT_PROPERTY = ''recordcount''"
definition OPERATION_COUNT_PROPERTY :: string where "OPERATION_COUNT_PROPERTY = ''operationcount''"

lemmas property_names = DBNAME_PROPERTY_def TABLENAME_PROPERTY_def FIELD_COUNT_PROPERTY_def
  FIELD_LENGTH_DISTRIBUTION_PROPERTY_def FIELD_LENGTH_PROPERTY_def READ_ALL_FIELDS_PROPERTY_def
  WRITE_ALL_FIELDS_PROPERTY_def READ_PROPORTION_PROPERTY_def UPDATE_PROPORTION_PROPERTY_def
  INSERT_PROPORTION_PROPERTY_def SCAN_PROPORTION_PROPERTY_def
  READMODIFYWRITE_PROPORTION_PROPERTY_def REQUEST_DISTRIBUTION_PROPERTY_def
  ZERO_PADDING_PROPERTY_def MAX_SCAN_LENGTH_PROPERTY_def SCAN_LENGTH_DISTRIBUTION_PROPERTY_def
  INSERT_ORDER_PROPERTY_def INSERT_START_PROPERTY_def RECORD_COUNT_PROPERTY_def
  OPERATION_COUNT_PROPERTY_def

section \<open>The class\<close>

record workload =
  table_name :: string
  field_count :: int
  read_all_fields :: bool
  write_all_fields :: bool
  field_len_generator :: "gen option"
  key_generator :: "gen option"
  op_chooser :: "operation discrete_generator"
  key_chooser :: "gen option"
  field_chooser :: "gen option"
  scan_len_chooser :: "gen option"
  insert_key_sequence :: counter_generator
  ordered_inserts :: bool
  record_count :: u64
  zero_padding :: int

text \<open>The constructor; zero\_padding\_ has no initialiser and is assigned in Init before any use.\<close>

definition CoreWorkload :: workload where
  "CoreWorkload = \<lparr>table_name = [], field_count = 0, read_all_fields = False, write_all_fields = False,
     field_len_generator = None, key_generator = None, op_chooser = DiscreteGenerator,
     key_chooser = None, field_chooser = None, scan_len_chooser = None,
     insert_key_sequence = CounterGenerator 3, ordered_inserts = True, record_count = 0,
     zero_padding = 0\<rparr>"

definition new_Uniform :: "cxx_env \<Rightarrow> u64 \<Rightarrow> u64 \<Rightarrow> gen result" where
  "new_Uniform env lo hi = bindR (UniformGenerator env lo hi) (\<lambda>g. Inr (Uniform_gen g))"

definition new_Zipfian :: "cxx_env \<Rightarrow> u64 \<Rightarrow> u64 \<Rightarrow> random \<Rightarrow> (gen \<times> random) result" where
  "new_Zipfian env lo hi r =
     bindR (ZipfianGenerator env lo hi kZipfianConst r) (\<lambda>(g, r'). Inr (Zipfian_gen g, r'))"

definition GetFieldLenGenerator :: "cxx_env \<Rightarrow> properties \<Rightarrow> random \<Rightarrow> (gen \<times> random) result" where
  "GetFieldLenGenerator env p r =
     (let field_len_dist = GetProperty p FIELD_LENGTH_DISTRIBUTION_PROPERTY FIELD_LENGTH_DISTRIBUTION_DEFAULT
      in bindR (stoi (GetProperty p FIELD_LENGTH_PROPERTY FIELD_LENGTH_DEFAULT)) (\<lambda>field_len.
         if field_len_dist = ''constant'' then Inr (Const_gen (ConstGenerator field_len), r)
         else if field_len_dist = ''uniform'' then
           bindR (new_Uniform env 1 (word_of_int field_len)) (\<lambda>g. Inr (g, r))
         else if field_len_dist = ''zipfian'' then new_Zipfian env 1 (word_of_int field_len) r
         else Inl (Utils_exception (''Unknown field length distribution: '' @ field_len_dist))))"

text \<open>The subtraction field\_count\_ - 1 is one of ints: it is undefined for the smallest int.\<close>

definition new_field_chooser :: "cxx_env \<Rightarrow> int \<Rightarrow> gen result" where
  "new_field_chooser env n =
     (if n = - (2 ^ 31) then Inl (Undefined_behaviour ''signed overflow'')
      else new_Uniform env 0 (word_of_int (n - 1)))"

definition handleRocksdb :: "cxx_env \<Rightarrow> workload \<Rightarrow> workload result" where
  "handleRocksdb env w =
     (let w = w\<lparr>field_count := 1\<rparr>
      in bindR (new_field_chooser env (field_count w)) (\<lambda>g.
         Inr (w\<lparr>field_chooser := Some g, read_all_fields := True, write_all_fields := True\<rparr>)))"

definition add_proportion :: "operation \<Rightarrow> double \<Rightarrow> workload \<Rightarrow> workload" where
  "add_proportion op x w = (if 0 < x then w\<lparr>op_chooser := AddValue op x (op_chooser w)\<rparr> else w)"

definition new_key_chooser ::
  "cxx_env \<Rightarrow> properties \<Rightarrow> string \<Rightarrow> double \<Rightarrow> workload \<Rightarrow> random \<Rightarrow> (gen \<times> random) result" where
  "new_key_chooser env p request_dist insert_proportion w r =
     (if request_dist = ''uniform'' then
        bindR (new_Uniform env 0 (record_count w - 1)) (\<lambda>g. Inr (g, r))
      else if request_dist = ''zipfian'' then
        bindR (stoi (GetProperty p OPERATION_COUNT_PROPERTY [])) (\<lambda>op_count.
        bindR (int_of_d (d_of_int op_count * insert_proportion * Fin 2)) (\<lambda>new_keys.
        bindR (ScrambledZipfianGenerator_items env (record_count w + word_of_int new_keys) r)
          (\<lambda>(g, r'). Inr (Scrambled_gen g, r'))))
      else if request_dist = ''latest'' then
        bindR (SkewedLatestGenerator env (insert_key_sequence w) r) (\<lambda>(g, r'). Inr (Skewed_gen g, r'))
      else Inl (Utils_exception (''Unknown request distribution: '' @ request_dist)))"

definition new_scan_len_chooser :: "cxx_env \<Rightarrow> string \<Rightarrow> int \<Rightarrow> random \<Rightarrow> (gen \<times> random) result" where
  "new_scan_len_chooser env scan_len_dist max_scan_len r =
     (if scan_len_dist = ''uniform'' then
        bindR (new_Uniform env 1 (word_of_int max_scan_len)) (\<lambda>g. Inr (g, r))
      else if scan_len_dist = ''zipfian'' then new_Zipfian env 1 (word_of_int max_scan_len) r
      else Inl (Utils_exception (''Distribution not allowed for scan length: '' @ scan_len_dist)))"

text \<open>
  Init reads the parameters first (up to the assignment of the insert key sequence) and then
  builds the three choosers; the first part hands the insert proportion and the largest scan
  length, which are local variables of Init, to the second.
\<close>

definition read_parameters ::
  "cxx_env \<Rightarrow> properties \<Rightarrow> workload \<Rightarrow> random \<Rightarrow> (workload \<times> double \<times> int \<times> random) result" where
  "read_parameters env p w r =
     (let w = w\<lparr>table_name := GetProperty p TABLENAME_PROPERTY TABLENAME_DEFAULT\<rparr> in
      bindR (stoi (GetProperty p FIELD_COUNT_PROPERTY FIELD_COUNT_DEFAULT)) (\<lambda>fc.
      bindR (GetFieldLenGenerator env p r) (\<lambda>(fg, r).
      bindR (stod (GetProperty p READ_PROPORTION_PROPERTY READ_PROPORTION_DEFAULT)) (\<lambda>read_proportion.
      bindR (stod (GetProperty p UPDATE_PROPORTION_PROPERTY UPDATE_PROPORTION_DEFAULT)) (\<lambda>update_proportion.
      bindR (stod (GetProperty p INSERT_PROPORTION_PROPERTY INSERT_PROPORTION_DEFAULT)) (\<lambda>insert_proportion.
      bindR (stod (GetProperty p SCAN_PROPORTION_PROPERTY SCAN_PROPORTION_DEFAULT)) (\<lambda>scan_proportion.
      bindR (stod (GetProperty p READMODIFYWRITE_PROPORTION_PROPERTY READMODIFYWRITE_PROPORTION_DEFAULT))
        (\<lambda>readmodifywrite_proportion.
      bindR (stoi (GetProperty p RECORD_COUNT_PROPERTY [])) (\<lambda>rc.
      bindR (stoi (GetProperty p ZERO_PADDING_PROPERTY ZERO_PADDING_DEFAULT)) (\<lambda>zp.
      bindR (stoi (GetProperty p MAX_SCAN_LENGTH_PROPERTY MAX_SCAN_LENGTH_DEFAULT)) (\<lambda>max_scan_len.
      bindR (stoi (GetProperty p INSERT_START_PROPERTY INSERT_START_DEFAULT)) (\<lambda>insert_start.
      bindR (StrToBool (GetProperty p READ_ALL_FIELDS_PROPERTY READ_ALL_FIELDS_DEFAULT)) (\<lambda>raf.
      bindR (StrToBool (GetProperty p WRITE_ALL_FIELDS_PROPERTY WRITE_ALL_FIELDS_DEFAULT)) (\<lambda>waf.
      let w = w\<lparr>field_count := fc, field_len_generator := Some fg, record_count := word_of_int rc,
                zero_padding := zp, read_all_fields := raf, write_all_fields := waf,
                ordered_inserts := (GetProperty p INSERT_ORDER_PROPERTY INSERT_ORDER_DEFAULT \<noteq> ''hashed''),
                key_generator := Some (Counter_gen (CounterGenerator (word_of_int insert_start)))\<rparr>;
          w = add_proportion READ read_proportion w;
          w = add_proportion UPDATE update_proportion w;
          w = add_proportion INSERT insert_proportion w;
          w = add_proportion SCAN scan_proportion w;
          w = add_proportion READMODIFYWRITE readmodifywrite_proportion w
      in Inr (w\<lparr>insert_key_sequence := Counter_Set (record_count w) (insert_key_sequence w)\<rparr>,
              insert_proportion, max_scan_len, r)))))))))))))))"

definition Workload_Init :: "cxx_env \<Rightarrow> properties \<Rightarrow> workload \<Rightarrow> random \<Rightarrow> (workload \<times> random) result" where
  "Workload_Init env p w r =
     bindR (read_parameters env p w r) (\<lambda>(w, insert_proportion, max_scan_len, r).
     let request_dist = GetProperty p REQUEST_DISTRIBUTION_PROPERTY REQUEST_DISTRIBUTION_DEFAULT;
         scan_len_dist = GetProperty p SCAN_LENGTH_DISTRIBUTION_PROPERTY SCAN_LENGTH_DISTRIBUTION_DEFAULT in
     bindR (new_key_chooser env p request_dist insert_proportion w r) (\<lambda>(kc, r).
     bindR (new_field_chooser env (field_count w)) (\<lambda>fcg.
     bindR (new_scan_len_chooser env scan_len_dist max_scan_len r) (\<lambda>(sc, r).
     let w = w\<lparr>key_chooser := Some kc, field_chooser := Some fcg, scan_len_chooser := Some sc\<rparr> in
     bindR (if GetProperty p DBNAME_PROPERTY [] = ''rocksdb'' then handleRocksdb env w else Inr w) (\<lambda>w.
     Inr (w, r))))))"

section \<open>The operations\<close>

text \<open>A virtual call through a generator pointer of the workload.\<close>

definition deref_Next ::
  "cxx_env \<Rightarrow> counter_generator \<Rightarrow> gen option \<Rightarrow> random \<Rightarrow> (u64 \<times> gen \<times> random) result" where
  "deref_Next env basis g r = (case g of
       None \<Rightarrow> Inl (Undefined_behaviour ''null pointer'')
     | Some g \<Rightarrow> gen_Next env basis g r)"

text \<open>
  string::append(n, c): libstdc++ refuses more than max\_size characters. The memory the string
  needs is not modelled.
\<close>

definition string_max_size :: nat where
  "string_max_size = 2 ^ 62 - 1"

definition append_chars :: "string \<Rightarrow> u64 \<Rightarrow> char \<Rightarrow> string result" where
  "append_chars s n c =
     (if string_max_size < length s + unat n then Inl (Length_error ''basic_string::append'')
      else Inr (s @ replicate (unat n) c))"

text \<open>
  In BuildKeyName the int zero\_padding\_ minus the size\_t length is a size\_t, reduced to an int
  by the assignment.
\<close>

definition key_zeros :: "int \<Rightarrow> string \<Rightarrow> int" where
  "key_zeros zp key_num_str =
     (let zeros = sint (ucast (word_of_int zp - of_nat (length key_num_str) :: u64) :: u32)
      in max 0 zeros)"

definition BuildKeyName :: "workload \<Rightarrow> u64 \<Rightarrow> string" where
  "BuildKeyName w key_num =
     (let key_num = (if \<not> ordered_inserts w then Hash key_num else key_num);
          key_num_str = to_string_u64 key_num;
          zeros = key_zeros (zero_padding w) key_num_str
      in ''user'' @ replicate (nat zeros) (CHR ''0'') @ key_num_str)"

definition NextTable :: "workload \<Rightarrow> string" where
  "NextTable w = table_name w"

definition NextSequenceKey :: "cxx_env \<Rightarrow> workload \<Rightarrow> random \<Rightarrow> (string \<times> workload \<times> random) result" where
  "NextSequenceKey env w r =
     bindR (deref_Next env (insert_key_sequence w) (key_generator w) r) (\<lambda>(key_num, g, r').
     Inr (BuildKeyName w key_num, w\<lparr>key_generator := Some g\<rparr>, r'))"

text \<open>The do-while loop of NextTransactionKey; None is a loop that never ends.\<close>

partial_function (option) choose_key ::
  "cxx_env \<Rightarrow> counter_generator \<Rightarrow> gen \<Rightarrow> random \<Rightarrow> (u64 \<times> gen \<times> random) result option" where
  "choose_key env basis g r =
     (case gen_Next env basis g r of
        Inl e \<Rightarrow> Some (Inl e)
      | Inr x \<Rightarrow> (case x of (key_num, g', r') \<Rightarrow>
          if Counter_Last basis < key_num then choose_key env basis g' r'
          else Some (Inr (key_num, g', r'))))"

definition NextTransactionKey :: "cxx_env \<Rightarrow> workload \<Rightarrow> random \<Rightarrow> (string \<times> workload \<times> random) result" where
  "NextTransactionKey env w r = (case key_chooser w of
       None \<Rightarrow> Inl (Undefined_behaviour ''null pointer'')
     | Some g \<Rightarrow> (case choose_key env (insert_key_sequence w) g r of
         None \<Rightarrow> Inl (Diverges ''NextTransactionKey'')
       | Some m \<Rightarrow> bindR m (\<lambda>(key_num, g, r').
           Inr (BuildKeyName w key_num, w\<lparr>key_chooser := Some g\<rparr>, r'))))"

definition NextOperation :: "workload \<Rightarrow> random \<Rightarrow> (operation \<times> workload \<times> random) result" where
  "NextOperation w r =
     bindR (Discrete_Next (op_chooser w) r) (\<lambda>(op, g, r'). Inr (op, w\<lparr>op_chooser := g\<rparr>, r'))"

definition NextFieldName :: "cxx_env \<Rightarrow> workload \<Rightarrow> random \<Rightarrow> (string \<times> workload \<times> random) result" where
  "NextFieldName env w r =
     bindR (deref_Next env (insert_key_sequence w) (field_chooser w) r) (\<lambda>(v, g, r').
     Inr (''field'' @ to_string_u64 v, w\<lparr>field_chooser := Some g\<rparr>, r'))"

definition NextScanLength :: "cxx_env \<Rightarrow> workload \<Rightarrow> random \<Rightarrow> (u64 \<times> workload \<times> random) result" where
  "NextScanLength env w r =
     bindR (deref_Next env (insert_key_sequence w) (scan_len_chooser w) r) (\<lambda>(v, g, r').
     Inr (v, w\<lparr>scan_len_chooser := Some g\<rparr>, r'))"

type_synonym kvpair = "string \<times> string"

text \<open>
  The value of one field. The two arguments of append are evaluated in an unspecified order; they
  draw from different sources, so the order does not matter.
\<close>

definition field_value :: "cxx_env \<Rightarrow> workload \<Rightarrow> random \<Rightarrow> (string \<times> workload \<times> random) result" where
  "field_value env w r =
     bindR (deref_Next env (insert_key_sequence w) (field_len_generator w) r) (\<lambda>(n, g, r1).
     let (c, r2) = RandomPrintChar r1
     in bindR (append_chars [] n c) (\<lambda>s. Inr (s, w\<lparr>field_len_generator := Some g\<rparr>, r2)))"

fun build_values :: "cxx_env \<Rightarrow> nat list \<Rightarrow> workload \<Rightarrow> random \<Rightarrow> (kvpair list \<times> workload \<times> random) result" where
  "build_values env [] w r = Inr ([], w, r)"
| "build_values env (i # is) w r =
     bindR (field_value env w r) (\<lambda>(v, w1, r1).
     bindR (build_values env is w1 r1) (\<lambda>(kvs, w2, r2).
     Inr ((''field'' @ to_string_int (int i), v) # kvs, w2, r2)))"

definition BuildValues :: "cxx_env \<Rightarrow> workload \<Rightarrow> random \<Rightarrow> (kvpair list \<times> workload \<times> random) result" where
  "BuildValues env w r = build_values env [0..<nat (field_count w)] w r"

definition BuildUpdate :: "cxx_env \<Rightarrow> workload \<Rightarrow> random \<Rightarrow> (kvpair list \<times> workload \<times> random) result" where
  "BuildUpdate env w r =
     bindR (NextFieldName env w r) (\<lambda>(f, w1, r1).
     bindR (field_value env w1 r1) (\<lambda>(v, w2, r2). Inr ([(f, v)], w2, r2)))"

section \<open>Key names\<close>

lemma key_zeros_val:
  assumes "0 \<le> zp" "zp < 2 ^ 31" "length s \<le> 2 ^ 31"
  shows "key_zeros zp s = max 0 (zp - int (length s))"
proof -
  let ?d = "zp - int (length s)"
  have w: "(word_of_int zp - of_nat (length s) :: u64) = word_of_int ?d" by simp
  have u: "(ucast (word_of_int d :: u64) :: u32) = word_of_int d" for d
    unfolding unsigned_of_int by (simp add: word_of_int_eq_iff)
  have "- (2 ^ 31) \<le> ?d" "?d < 2 ^ 31" using assms by simp_all
  then have "sint (word_of_int ?d :: u32) = ?d"
    unfolding signed_of_int by (simp add: signed_take_bit_int_eq_self)
  then show ?thesis unfolding key_zeros_def w u Let_def by (rule arg_cong)
qed

lemma length_to_string_u64: "length (to_string_u64 k) \<le> 20"
proof -
  have "unat k < 2 ^ LENGTH(64)" by (rule unsigned_less)
  then have "unat k < 10 ^ 20" by simp
  then show ?thesis unfolding to_string_u64_def using length_digits10_le [of 20 "unat k"] by simp
qed

lemma BuildKeyName_ordered:
  assumes "ordered_inserts w" "0 \<le> zero_padding w" "zero_padding w < 2 ^ 31"
  shows "BuildKeyName w k = ''user'' @ replicate (nat (zero_padding w) - length (to_string_u64 k)) (CHR ''0'') @ to_string_u64 k"
  using assms length_to_string_u64 [of k]
  by (simp add: BuildKeyName_def key_zeros_val nat_diff_distrib' max_def Let_def)

lemma num10_key_digits:
  assumes "ordered_inserts w" "0 \<le> zero_padding w" "zero_padding w < 2 ^ 31"
  shows "num10 (drop 4 (BuildKeyName w k)) = unat k"
  unfolding BuildKeyName_ordered [OF assms] by (simp add: to_string_u64_def)

lemma to_string_u64_digits: "\<forall>c\<in>set (to_string_u64 k). isdigit c"
  by (simp add: to_string_u64_def digits10_isdigit)

lemma BuildKeyName_less_iff:
  assumes "ordered_inserts w" "0 < zero_padding w" "zero_padding w < 2 ^ 31"
    and "unat j < 10 ^ nat (zero_padding w)" "unat k < 10 ^ nat (zero_padding w)"
  shows "BuildKeyName w j < BuildKeyName w k \<longleftrightarrow> j < k"
proof -
  let ?z = "nat (zero_padding w)"
  let ?d = "\<lambda>k. replicate (?z - length (to_string_u64 k)) (CHR ''0'') @ to_string_u64 k"
  have z: "0 < ?z" using assms(2) by simp
  have len: "length (?d i) = ?z" if "unat i < 10 ^ ?z" for i
    using that length_digits10_le [OF z, of "unat i"] by (simp add: to_string_u64_def)
  have dig: "\<forall>c\<in>set (?d i). isdigit c" for i
    using to_string_u64_digits [of i] by (auto simp: isdigit_def)
  have "BuildKeyName w i = ''user'' @ ?d i" for i using BuildKeyName_ordered assms(1-3) by simp
  then have "BuildKeyName w j < BuildKeyName w k \<longleftrightarrow> ?d j < ?d k" by simp
  also have "\<dots> \<longleftrightarrow> num10 (?d j) < num10 (?d k)"
    using len [OF assms(4)] len [OF assms(5)] dig by (intro num10_less_iff) simp_all
  also have "\<dots> \<longleftrightarrow> j < k" by (simp add: to_string_u64_def word_less_nat_alt)
  finally show ?thesis .
qed

section \<open>The state of a workload between operations\<close>

fun ptr_ok :: "cxx_env \<Rightarrow> counter_generator \<Rightarrow> gen option \<Rightarrow> bool" where
  "ptr_ok env basis None = False"
| "ptr_ok env basis (Some g) = gen_inv env basis g"

definition workload_inv :: "cxx_env \<Rightarrow> workload \<Rightarrow> bool" where
  "workload_inv env w \<longleftrightarrow>
     ptr_ok env (insert_key_sequence w) (field_len_generator w) \<and>
     ptr_ok env (insert_key_sequence w) (key_generator w) \<and>
     ptr_ok env (insert_key_sequence w) (key_chooser w) \<and>
     ptr_ok env (insert_key_sequence w) (field_chooser w) \<and>
     ptr_ok env (insert_key_sequence w) (scan_len_chooser w) \<and>
     (\<forall>v \<in> gen_range (insert_key_sequence w) (the (field_len_generator w)). unat v \<le> string_max_size)"

text \<open>What no operation changes, the insert key sequence among it.\<close>

definition wl_static ::
  "workload \<Rightarrow> string \<times> int \<times> bool \<times> bool \<times> counter_generator \<times> bool \<times> u64 \<times> int" where
  "wl_static w = (table_name w, field_count w, read_all_fields w, write_all_fields w,
     insert_key_sequence w, ordered_inserts w, record_count w, zero_padding w)"

lemma deref_Next_step:
  assumes "ptr_ok env basis p" "unit_random r"
  obtains v g r' where "deref_Next env basis p r = Inr (v, g, r')" "v \<in> gen_range basis (the p)"
    "gen_inv env basis g" "gen_range basis g = gen_range basis (the p)" "unit_random r'"
proof (cases p)
  case None
  then show ?thesis using assms by simp
next
  case (Some g)
  then show ?thesis using gen_Next_step [of env basis g r] assms that by (auto simp: deref_Next_def)
qed

lemma RandomPrintChar_unit: "unit_random r \<Longrightarrow> unit_random (snd (RandomPrintChar r))"
  by (simp add: unit_random_def RandomPrintChar_def)

lemma NextSequenceKey_step:
  assumes "workload_inv env w" "unit_random r"
  shows "\<exists>k w' r'. NextSequenceKey env w r = Inr (BuildKeyName w k, w', r') \<and>
           workload_inv env w' \<and> wl_static w' = wl_static w \<and> unit_random r'"
  by (rule deref_Next_step [where env = env and basis = "insert_key_sequence w" and p = "key_generator w", OF _ assms(2)])
     (use assms(1) in \<open>auto simp: NextSequenceKey_def workload_inv_def wl_static_def\<close>)

lemma NextFieldName_step:
  assumes "workload_inv env w" "unit_random r"
  shows "\<exists>v w' r'. NextFieldName env w r = Inr (''field'' @ to_string_u64 v, w', r') \<and>
           v \<in> gen_range (insert_key_sequence w) (the (field_chooser w)) \<and>
           workload_inv env w' \<and> wl_static w' = wl_static w \<and> unit_random r'"
  by (rule deref_Next_step [where env = env and basis = "insert_key_sequence w" and p = "field_chooser w", OF _ assms(2)])
     (use assms(1) in \<open>auto simp: NextFieldName_def workload_inv_def wl_static_def\<close>)

lemma NextScanLength_step:
  assumes "workload_inv env w" "unit_random r"
  shows "\<exists>v w' r'. NextScanLength env w r = Inr (v, w', r') \<and>
           v \<in> gen_range (insert_key_sequence w) (the (scan_len_chooser w)) \<and>
           workload_inv env w' \<and> wl_static w' = wl_static w \<and> unit_random r'"
  by (rule deref_Next_step [where env = env and basis = "insert_key_sequence w" and p = "scan_len_chooser w", OF _ assms(2)])
     (use assms(1) in \<open>auto simp: NextScanLength_def workload_inv_def wl_static_def\<close>)

text \<open>The pairs BuildValues makes: the names in order, the values printable and of allowed length.\<close>

definition field_ok :: "u64 set \<Rightarrow> string \<Rightarrow> bool" where
  "field_ok lens v \<longleftrightarrow> (\<exists>n c. n \<in> lens \<and> v = replicate (unat n) c \<and> 33 \<le> (of_char c :: nat) \<and> (of_char c :: nat) \<le> 126)"

lemma field_value_step:
  assumes "workload_inv env w" "unit_random r"
  shows "\<exists>v w' r'. field_value env w r = Inr (v, w', r') \<and>
           field_ok (gen_range (insert_key_sequence w) (the (field_len_generator w))) v \<and>
           gen_range (insert_key_sequence w) (the (field_len_generator w')) =
             gen_range (insert_key_sequence w) (the (field_len_generator w)) \<and>
           workload_inv env w' \<and> wl_static w' = wl_static w \<and> unit_random r'"
proof -
  have p: "ptr_ok env (insert_key_sequence w) (field_len_generator w)"
    using assms(1) by (simp add: workload_inv_def)
  obtain n g r1 where 1: "deref_Next env (insert_key_sequence w) (field_len_generator w) r = Inr (n, g, r1)"
    "n \<in> gen_range (insert_key_sequence w) (the (field_len_generator w))"
    "gen_inv env (insert_key_sequence w) g"
    "gen_range (insert_key_sequence w) g = gen_range (insert_key_sequence w) (the (field_len_generator w))"
    "unit_random r1" by (rule deref_Next_step [OF p assms(2)])
  obtain c r2 where 2: "RandomPrintChar r1 = (c, r2)" by fastforce
  have "unat n \<le> string_max_size" using assms(1) 1(2) by (simp add: workload_inv_def)
  then have "field_value env w r = Inr (replicate (unat n) c, w\<lparr>field_len_generator := Some g\<rparr>, r2)"
    by (simp add: field_value_def 1(1) 2 append_chars_def)
  moreover have "workload_inv env (w\<lparr>field_len_generator := Some g\<rparr>)"
    using assms(1) 1(3,4) by (simp add: workload_inv_def)
  moreover have "unit_random r2" using RandomPrintChar_unit [OF 1(5)] 2 by simp
  moreover have "field_ok (gen_range (insert_key_sequence w) (the (field_len_generator w))) (replicate (unat n) c)"
    using RandomPrintChar_printable [OF 2] 1(2) by (auto simp: field_ok_def)
  ultimately show ?thesis using 1(4) by (auto simp: wl_static_def)
qed

lemma wl_static_seq: "wl_static w' = wl_static w \<Longrightarrow> insert_key_sequence w' = insert_key_sequence w"
  by (simp add: wl_static_def)

lemma build_values_step:
  assumes "workload_inv env w" "unit_random r"
  shows "\<exists>kvs w' r'. build_values env is w r = Inr (kvs, w', r') \<and>
           map fst kvs = map (\<lambda>i. ''field'' @ to_string_int (int i)) is \<and>
           list_all (field_ok (gen_range (insert_key_sequence w) (the (field_len_generator w)))) (map snd kvs) \<and>
           workload_inv env w' \<and> wl_static w' = wl_static w \<and> unit_random r'"
  using assms
proof (induction "is" arbitrary: w r)
  case Nil
  then show ?case by simp
next
  case (Cons i "is")
  let ?lens = "gen_range (insert_key_sequence w) (the (field_len_generator w))"
  obtain v w1 r1 where 1: "field_value env w r = Inr (v, w1, r1)" "field_ok ?lens v"
    "gen_range (insert_key_sequence w) (the (field_len_generator w1)) = ?lens"
    "workload_inv env w1" "wl_static w1 = wl_static w" "unit_random r1"
    using field_value_step [OF Cons.prems] by metis
  obtain kvs w2 r2 where 2: "build_values env is w1 r1 = Inr (kvs, w2, r2)"
    "map fst kvs = map (\<lambda>i. ''field'' @ to_string_int (int i)) is"
    "list_all (field_ok ?lens) (map snd kvs)"
    "workload_inv env w2" "wl_static w2 = wl_static w1" "unit_random r2"
    using Cons.IH [OF 1(4,6)] 1(3) wl_static_seq [OF 1(5)] by auto
  then show ?case using 1 by simp
qed

lemma BuildValues_step:
  assumes "workload_inv env w" "unit_random r"
  shows "\<exists>kvs w' r'. BuildValues env w r = Inr (kvs, w', r') \<and>
           map fst kvs = map (\<lambda>i. ''field'' @ to_string_int (int i)) [0..<nat (field_count w)] \<and>
           list_all (field_ok (gen_range (insert_key_sequence w) (the (field_len_generator w)))) (map snd kvs) \<and>
           workload_inv env w' \<and> wl_static w' = wl_static w \<and> unit_random r'"
  unfolding BuildValues_def by (rule build_values_step [OF assms])

lemma BuildUpdate_step:
  assumes "workload_inv env w" "unit_random r"
  shows "\<exists>f v w' r'. BuildUpdate env w r = Inr ([(f, v)], w', r') \<and>
           workload_inv env w' \<and> wl_static w' = wl_static w \<and> unit_random r'"
proof -
  obtain f w1 r1 where 1: "NextFieldName env w r = Inr (f, w1, r1)" "workload_inv env w1"
    "wl_static w1 = wl_static w" "unit_random r1"
    using NextFieldName_step [OF assms] by blast
  obtain v w2 r2 where 2: "field_value env w1 r1 = Inr (v, w2, r2)" "workload_inv env w2"
    "wl_static w2 = wl_static w1" "unit_random r2"
    using field_value_step [OF 1(2,4)] by blast
  show ?thesis using 1 2 by (simp add: BuildUpdate_def)
qed

section \<open>Transaction keys\<close>

lemma choose_key_sound:
  assumes "choose_key env basis g r = Some m" "gen_inv env basis g" "unit_random r"
  shows "\<exists>k g' r'. m = Inr (k, g', r') \<and> k \<le> Counter_Last basis \<and> k \<in> gen_range basis g \<and>
           gen_inv env basis g' \<and> gen_range basis g' = gen_range basis g \<and> unit_random r'"
proof -
  define Q where "Q env basis g r m \<longleftrightarrow> (gen_inv env basis g \<longrightarrow> unit_random r \<longrightarrow>
      (\<exists>k g' r'. m = Inr (k, g', r') \<and> k \<le> Counter_Last basis \<and> k \<in> gen_range basis g \<and>
        gen_inv env basis g' \<and> gen_range basis g' = gen_range basis g \<and> unit_random r'))"
    for env basis g r and m :: "(u64 \<times> gen \<times> random) result"
  have "Q env basis g r m"
  proof (rule choose_key.raw_induct [OF _ assms(1)])
    fix self env basis g r m
    assume IH: "\<And>env basis g r m. self env basis g r = Some m \<Longrightarrow> Q env basis g r m"
      and eq: "(case gen_Next env basis g r of Inl e \<Rightarrow> Some (Inl e) | Inr (key_num, g', r') \<Rightarrow>
          if Counter_Last basis < key_num then self env basis g' r' else Some (Inr (key_num, g', r'))) = Some m"
    show "Q env basis g r m"
      unfolding Q_def
    proof (intro impI)
      assume g: "gen_inv env basis g" "unit_random r"
      obtain v g' r' where v: "gen_Next env basis g r = Inr (v, g', r')" "v \<in> gen_range basis g"
        "gen_inv env basis g'" "gen_range basis g' = gen_range basis g" "unit_random r'"
        using gen_Next_step [OF g] by blast
      show "\<exists>k g' r'. m = Inr (k, g', r') \<and> k \<le> Counter_Last basis \<and> k \<in> gen_range basis g \<and>
        gen_inv env basis g' \<and> gen_range basis g' = gen_range basis g \<and> unit_random r'"
        using IH [of env basis g' r' m] eq v
        by (cases "Counter_Last basis < v") (auto simp: Q_def not_less)
    qed
  qed
  then show ?thesis using assms(2,3) by (simp add: Q_def)
qed

text \<open>A run of draws in which one is accepted ends the loop.\<close>

lemma choose_key_returns:
  assumes "gen_run env basis n g r = Inr (vs, g', r')" "\<exists>v\<in>set vs. v \<le> Counter_Last basis"
  shows "\<exists>m. choose_key env basis g r = Some m"
  using assms
proof (induction n arbitrary: g r vs)
  case 0
  then show ?case by simp
next
  case (Suc n)
  obtain v g1 r1 where v: "gen_Next env basis g r = Inr (v, g1, r1)"
    using Suc.prems(1) by (auto simp: bindR_eq_Inr_iff)
  then obtain us where us: "gen_run env basis n g1 r1 = Inr (us, g', r')" "vs = v # us"
    using Suc.prems(1) by (auto simp: bindR_eq_Inr_iff)
  show ?case
  proof (cases "Counter_Last basis < v")
    case True
    then have "\<exists>u\<in>set us. u \<le> Counter_Last basis" using Suc.prems(2) us(2) by auto
    then show ?thesis using Suc.IH [OF us(1)] True v by (subst choose_key.simps) simp
  next
    case False
    then show ?thesis using v by (subst choose_key.simps) simp
  qed
qed

lemma NextTransactionKey_static:
  assumes "workload_inv env w" "unit_random r" "NextTransactionKey env w r = Inr (key, w', r')"
  shows "\<exists>k. key = BuildKeyName w k \<and> k \<le> Counter_Last (insert_key_sequence w) \<and>
           k \<in> gen_range (insert_key_sequence w) (the (key_chooser w)) \<and>
           workload_inv env w' \<and> wl_static w' = wl_static w \<and> unit_random r'"
proof -
  obtain g where g: "key_chooser w = Some g" "gen_inv env (insert_key_sequence w) g"
    using assms(1) by (cases "key_chooser w") (auto simp: workload_inv_def)
  obtain m where m: "choose_key env (insert_key_sequence w) g r = Some m"
    using assms(3) g(1) by (auto simp: NextTransactionKey_def split: option.splits)
  obtain k g' r1 where k: "m = Inr (k, g', r1)" "k \<le> Counter_Last (insert_key_sequence w)"
    "k \<in> gen_range (insert_key_sequence w) g" "gen_inv env (insert_key_sequence w) g'" "unit_random r1"
    using choose_key_sound [OF m g(2) assms(2)] by blast
  have "key = BuildKeyName w k" "w' = w\<lparr>key_chooser := Some g'\<rparr>" "r' = r1"
    using assms(3) g(1) m k(1) by (simp_all add: NextTransactionKey_def)
  then show ?thesis
    using k assms(1) g(1) by (intro exI [of _ k]) (simp add: workload_inv_def wl_static_def)
qed

lemma NextTransactionKey_step:
  assumes "workload_inv env w" "unit_random r"
    and "gen_range (insert_key_sequence w) (the (key_chooser w)) \<subseteq> {..Counter_Last (insert_key_sequence w)}"
  shows "\<exists>k w' r'. NextTransactionKey env w r = Inr (BuildKeyName w k, w', r') \<and>
           k \<le> Counter_Last (insert_key_sequence w) \<and>
           workload_inv env w' \<and> wl_static w' = wl_static w \<and>
           gen_range (insert_key_sequence w') (the (key_chooser w')) =
             gen_range (insert_key_sequence w) (the (key_chooser w)) \<and> unit_random r'"
proof -
  let ?b = "insert_key_sequence w"
  obtain g where g: "key_chooser w = Some g" "gen_inv env ?b g"
    using assms(1) by (cases "key_chooser w") (auto simp: workload_inv_def)
  obtain v g' r' where v: "gen_Next env ?b g r = Inr (v, g', r')" "v \<in> gen_range ?b g"
    "gen_inv env ?b g'" "gen_range ?b g' = gen_range ?b g" "unit_random r'"
    using gen_Next_step [OF g(2) assms(2)] by blast
  have le: "v \<le> Counter_Last ?b" using assms(3) g(1) v(2) by auto
  then have "choose_key env ?b g r = Some (Inr (v, g', r'))"
    using v(1) by (subst choose_key.simps) (simp add: not_less [symmetric])
  then show ?thesis
    using v le g(1) assms(1) by (auto simp: NextTransactionKey_def workload_inv_def wl_static_def)
qed

end
