(* ===== verification/Workload_Init.thy ===== *)
theory Workload_Init
  imports Core_Workload
begin

text \<open>
  What CoreWorkload::Init establishes. For every choice of distributions the workload it returns
  is in the invariant of the theory Core\_Workload, provided the zipfian generators it built have
  at least three items (with two the constant eta is 0/0) and the field lengths fit in a string.
\<close>

section \<open>The law of std::pow for all sizes\<close>

definition zipf_env_law :: "cxx_env \<Rightarrow> bool" where
  "zipf_env_law env \<longleftrightarrow> pow_unit_law env \<and>
     (\<forall>n. 3 \<le> n \<longrightarrow> n < kMaxNumItems \<longrightarrow> zeta_ratio_law env n kZipfianConst)"

fun gen_size_ok :: "gen \<Rightarrow> bool" where
  "gen_size_ok (Zipfian_gen z) = (3 \<le> num_items z)"
| "gen_size_ok (Scrambled_gen g) = (3 \<le> num_items (sgenerator g))"
| "gen_size_ok (Skewed_gen g) = (3 \<le> num_items (zipfian g))"
| "gen_size_ok _ = True"

definition sizes_ok :: "workload \<Rightarrow> bool" where
  "sizes_ok w \<longleftrightarrow>
     list_all (\<lambda>g. case g of Some h \<Rightarrow> gen_size_ok h | None \<Rightarrow> True)
       [field_len_generator w, key_chooser w, scan_len_chooser w] \<and>
     (\<forall>v \<in> gen_range (insert_key_sequence w) (the (field_len_generator w)). unat v \<le> string_max_size)"

section \<open>What a returned generator says about its constructor\<close>

lemma RaiseZeta_num_items: "RaiseZeta env num z = Inr z' \<Longrightarrow> num_items z' = num_items z"
  by (auto simp: RaiseZeta_def bindR_eq_Inr_iff)

lemma Zipfian_Next_num_num_items:
  assumes "Zipfian_Next_num env num z r = Inr (v, z', r')"
  shows "num_items z' = num_items z"
proof -
  obtain u r1 where u: "RandomDouble r = (u, r1)" by fastforce
  obtain z1 where z1: "(if n_for_zeta z < num then bindR (RaiseZeta env num z) (\<lambda>z'. Inr (z'\<lparr>eta := Eta env z'\<rparr>))
      else Inr z) = Inr z1" and z': "\<exists>x. z' = z1\<lparr>last_value := x\<rparr>"
    using assms unfolding Zipfian_Next_num_def u bindR_eq_Inr_iff
    by (auto simp: bindR_eq_Inr_iff Let_def split: if_splits)
  have "num_items z1 = num_items z"
    using z1 by (auto simp: bindR_eq_Inr_iff RaiseZeta_num_items split: if_splits)
  then show ?thesis using z' by auto
qed

lemma ZipfianGenerator_num_items:
  assumes "ZipfianGenerator env lo hi c r = Inr (z, r')"
  shows "num_items z = hi - lo + 1" "2 \<le> hi - lo + 1" "hi - lo + 1 < kMaxNumItems"
  using assms
  by (auto simp: ZipfianGenerator_def bindR_eq_Inr_iff Let_def Zipfian_Next_def
           dest!: Zipfian_Next_num_num_items RaiseZeta_num_items)

lemma new_Uniform_inv:
  assumes "uniform_law env" "new_Uniform env lo hi = Inr g"
  shows "gen_inv env basis g" "gen_range basis g = {lo..hi}" "gen_size_ok g"
  using assms UniformGenerator_inv [OF assms(1)] by (auto simp: new_Uniform_def bindR_eq_Inr_iff)

lemma new_Zipfian_inv:
  assumes "zipf_env_law env" "unit_random r" "lo \<le> 1" "new_Zipfian env lo hi r = Inr (g, r')" "gen_size_ok g"
  shows "gen_inv env basis g" "unit_random r'"
proof -
  obtain z where z: "ZipfianGenerator env lo hi kZipfianConst r = Inr (z, r')" "g = Zipfian_gen z"
    using assms(4) by (auto simp: new_Zipfian_def bindR_eq_Inr_iff)
  note n = ZipfianGenerator_num_items [OF z(1)]
  have "lo < kMaxNumItems" using assms(3) by (rule le_less_trans) (simp add: kMaxNumItems_val)
  moreover have "pow_unit_law env" "zeta_ratio_law env (hi - lo + 1) kZipfianConst"
    using assms(1,5) z(2) n by (auto simp: zipf_env_law_def)
  ultimately have "\<exists>z r'. ZipfianGenerator env lo hi kZipfianConst r = Inr (z, r') \<and> zipf_inv z \<and> unit_random r'"
    using ZipfianGenerator_establishes [of env r kZipfianConst lo hi] assms(2) theta_ok_kZipfianConst n
    by blast
  then show "gen_inv env basis g" "unit_random r'"
    using z \<open>pow_unit_law env\<close> by auto
qed

lemma GetFieldLenGenerator_inv:
  assumes "uniform_law env" "zipf_env_law env" "unit_random r"
    and "GetFieldLenGenerator env p r = Inr (g, r')" "gen_size_ok g"
  shows "gen_inv env basis g \<and> unit_random r'"
  using assms new_Uniform_inv [OF assms(1)] new_Zipfian_inv [OF assms(2,3), of 1]
  by (auto simp: GetFieldLenGenerator_def bindR_eq_Inr_iff Let_def split: if_splits)

lemma new_scan_len_chooser_inv:
  assumes "uniform_law env" "zipf_env_law env" "unit_random r"
    and "new_scan_len_chooser env d n r = Inr (g, r')" "gen_size_ok g"
  shows "gen_inv env basis g \<and> unit_random r'"
  using assms new_Uniform_inv [OF assms(1)] new_Zipfian_inv [OF assms(2,3), of 1]
  by (auto simp: new_scan_len_chooser_def bindR_eq_Inr_iff split: if_splits)

lemma new_field_chooser_inv:
  assumes "uniform_law env" "new_field_chooser env n = Inr g"
  shows "gen_inv env basis g"
  using assms new_Uniform_inv [OF assms(1)] by (auto simp: new_field_chooser_def split: if_splits)

lemma scrambled_key_chooser_inv:
  assumes "zipf_env_law env" "unit_random r"
    and "ScrambledZipfianGenerator_items env n r = Inr (g, r')" "3 \<le> num_items (sgenerator g)"
  shows "pow_unit_law env \<and> scrambled_inv g \<and> unit_random r'"
proof -
  obtain z where z: "ZipfianGenerator env 0 (n - 1) kZipfianConst r = Inr (z, r')" "sgenerator g = z"
    using assms(3) by (auto simp: ScrambledZipfianGenerator_items_def ScrambledZipfianGenerator_def bindR_eq_Inr_iff)
  note k = ZipfianGenerator_num_items [OF z(1)]
  have "pow_unit_law env" "zeta_ratio_law env (n - 1 - 0 + 1) kZipfianConst"
    using assms(1,4) z(2) k by (auto simp: zipf_env_law_def)
  then show ?thesis
    using ScrambledZipfianGenerator_establishes [of env r kZipfianConst 0 "n - 1"] assms(2,3) k
      theta_ok_kZipfianConst
    by (auto simp: ScrambledZipfianGenerator_items_def kMaxNumItems_val)
qed

lemma skewed_key_chooser_inv:
  assumes "zipf_env_law env" "unit_random r"
    and "SkewedLatestGenerator env basis r = Inr (g, r')" "3 \<le> num_items (zipfian g)"
  shows "pow_unit_law env \<and> skewed_inv basis g \<and> unit_random r'"
proof -
  let ?m = "Counter_Last basis"
  obtain z r1 where z: "ZipfianGenerator env 0 (?m - 1) kZipfianConst r = Inr (z, r1)"
    "num_items (zipfian g) = num_items z"
    using assms(3)
    by (auto simp: SkewedLatestGenerator_def ZipfianGenerator_items_def Skewed_Next_def Let_def
             bindR_eq_Inr_iff dest!: Zipfian_Next_num_num_items)
  note k = ZipfianGenerator_num_items [OF z(1)]
  have "pow_unit_law env" "zeta_ratio_law env ?m kZipfianConst" "2 \<le> ?m" "?m < kMaxNumItems"
    using assms(1,4) z(2) k by (auto simp: zipf_env_law_def)
  then show ?thesis
    using SkewedLatestGenerator_establishes [of env r basis] assms(2,3) theta_ok_kZipfianConst by auto
qed

lemma new_key_chooser_inv:
  assumes "uniform_law env" "zipf_env_law env" "unit_random r"
    and "new_key_chooser env p d x w r = Inr (g, r')" "gen_size_ok g"
  shows "gen_inv env (insert_key_sequence w) g \<and> unit_random r'"
  using assms new_Uniform_inv [OF assms(1)] scrambled_key_chooser_inv [OF assms(2,3)]
    skewed_key_chooser_inv [OF assms(2,3)]
  by (auto simp: new_key_chooser_def bindR_eq_Inr_iff split: if_splits)

section \<open>The invariant after Init\<close>

lemma add_proportion_simps [simp]:
  "wl_static (add_proportion op x w) = wl_static w"
  "insert_key_sequence (add_proportion op x w) = insert_key_sequence w"
  "field_len_generator (add_proportion op x w) = field_len_generator w"
  "key_generator (add_proportion op x w) = key_generator w"
  "key_chooser (add_proportion op x w) = key_chooser w"
  "field_chooser (add_proportion op x w) = field_chooser w"
  "scan_len_chooser (add_proportion op x w) = scan_len_chooser w"
  "record_count (add_proportion op x w) = record_count w"
  "field_count (add_proportion op x w) = field_count w"
  by (simp_all add: add_proportion_def wl_static_def)

lemma handleRocksdb_inv:
  assumes "uniform_law env" "workload_inv env w" "handleRocksdb env w = Inr w'"
  shows "workload_inv env w'"
proof -
  obtain g where "new_field_chooser env 1 = Inr g" and
    w': "w' = w\<lparr>field_count := 1, field_chooser := Some g, read_all_fields := True, write_all_fields := True\<rparr>"
    using assms(3) by (auto simp: handleRocksdb_def bindR_eq_Inr_iff Let_def)
  then have "gen_inv env (insert_key_sequence w) g" using new_field_chooser_inv [OF assms(1)] by blast
  then show ?thesis using assms(2) by (simp add: w' workload_inv_def)
qed

lemma read_parameters_parts:
  assumes "read_parameters env p w0 r = Inr (w, x, n, r')"
  shows "GetFieldLenGenerator env p r = Inr (the (field_len_generator w), r') \<and>
         field_len_generator w \<noteq> None \<and>
         (\<exists>s. key_generator w = Some (Counter_gen (CounterGenerator (word_of_int s))) \<and>
              stoi (GetProperty p INSERT_START_PROPERTY INSERT_START_DEFAULT) = Inr s) \<and>
         (\<exists>rc. record_count w = word_of_int rc \<and> stoi (GetProperty p RECORD_COUNT_PROPERTY []) = Inr rc) \<and>
         counter (insert_key_sequence w) = record_count w"
  using assms unfolding read_parameters_def Let_def
  by (elim bindR_elims) (auto simp: Counter_Set_def)

lemma Workload_Init_inv:
  assumes "uniform_law env" "zipf_env_law env" "unit_random r"
    and "Workload_Init env p w0 r = Inr (w, r')" "sizes_ok w"
  shows "workload_inv env w \<and> unit_random r' \<and> counter (insert_key_sequence w) = record_count w"
proof -
  obtain w1 x n r1 kc r2 fcg sc where parts:
    "read_parameters env p w0 r = Inr (w1, x, n, r1)"
    "new_key_chooser env p (GetProperty p REQUEST_DISTRIBUTION_PROPERTY REQUEST_DISTRIBUTION_DEFAULT) x w1 r1 = Inr (kc, r2)"
    "new_field_chooser env (field_count w1) = Inr fcg"
    "new_scan_len_chooser env (GetProperty p SCAN_LENGTH_DISTRIBUTION_PROPERTY SCAN_LENGTH_DISTRIBUTION_DEFAULT) n r2 = Inr (sc, r')"
    "(if GetProperty p DBNAME_PROPERTY [] = ''rocksdb''
      then handleRocksdb env (w1\<lparr>key_chooser := Some kc, field_chooser := Some fcg, scan_len_chooser := Some sc\<rparr>)
      else Inr (w1\<lparr>key_chooser := Some kc, field_chooser := Some fcg, scan_len_chooser := Some sc\<rparr>)) = Inr w"
    using assms(4) unfolding Workload_Init_def Let_def by (elim bindR_elims) auto
  let ?w2 = "w1\<lparr>key_chooser := Some kc, field_chooser := Some fcg, scan_len_chooser := Some sc\<rparr>"
  note rp = read_parameters_parts [OF parts(1)]
  have same: "field_len_generator w = field_len_generator w1" "key_chooser w = Some kc"
    "scan_len_chooser w = Some sc" "insert_key_sequence w = insert_key_sequence w1"
    "record_count w = record_count w1"
    using parts(5) by (auto simp: handleRocksdb_def bindR_eq_Inr_iff Let_def split: if_splits)
  obtain fg where fg: "field_len_generator w1 = Some fg" using rp by auto
  have size: "gen_size_ok fg" "gen_size_ok kc" "gen_size_ok sc"
    "\<forall>v \<in> gen_range (insert_key_sequence w1) fg. unat v \<le> string_max_size"
    using assms(5) same fg by (auto simp: sizes_ok_def)
  have 1: "gen_inv env (insert_key_sequence w1) fg \<and> unit_random r1"
    using rp fg size(1) by (intro GetFieldLenGenerator_inv [OF assms(1-3), of p]) simp_all
  then have 2: "gen_inv env (insert_key_sequence w1) kc \<and> unit_random r2"
    using new_key_chooser_inv [OF assms(1,2) _ parts(2) size(2)] by blast
  then have 3: "gen_inv env (insert_key_sequence w1) sc \<and> unit_random r'"
    using new_scan_len_chooser_inv [OF assms(1,2) _ parts(4) size(3)] by blast
  have "gen_inv env (insert_key_sequence w1) fcg" using new_field_chooser_inv [OF assms(1) parts(3)] .
  then have "workload_inv env ?w2" using 1 2 3 rp fg size(4) by (auto simp: workload_inv_def)
  then have "workload_inv env w" using parts(5) handleRocksdb_inv [OF assms(1)] by (auto split: if_splits)
  then show ?thesis using 3 rp same by simp
qed

section \<open>The sample environment satisfies the laws for all sizes\<close>

lemma sample_zeta_loop:
  assumes "n < kMaxNumItems" "i \<le> n + 1" "1 \<le> i"
  shows "zeta_loop sample_env i n c (Fin (of_int (uint i - 1))) = Some (Fin (of_int (uint n)))"
  using assms(2,3)
proof (induction "unat n + 1 - unat i" arbitrary: i)
  case 0
  have "unat (n + 1) = Suc (unat n)" using assms(1) by (rule unat_Suc_less)
  then have "unat i = unat n + 1" using 0 by (simp add: word_le_nat_alt)
  then have "uint i = uint n + 1" by (metis of_nat_1 of_nat_add uint_nat)
  moreover have "n < i" using \<open>unat i = unat n + 1\<close> by (simp add: word_less_nat_alt)
  ultimately show ?case by (simp add: zeta_loop_step)
next
  case (Suc k)
  have i: "i \<le> n" using Suc.hyps(2) by (simp add: word_le_nat_alt)
  then have "i < kMaxNumItems" using assms(1) by (rule le_less_trans)
  then have s: "unat (i + 1) = Suc (unat i)" by (rule unat_Suc_less)
  have u: "uint (i + 1) = uint i + 1" using s by (metis Suc_eq_plus1 of_nat_1 of_nat_add uint_nat)
  have b: "1 \<le> uint i" "uint i \<le> 2 ^ 40"
    using Suc.prems(2) i assms(1) by (simp_all add: word_le_def word_less_alt kMaxNumItems_val)
  have d: "d_of_u64 i = Fin (of_int (uint i))" using b by (intro d_of_u64_exact) simp
  have "(1::rat) \<le> of_int (uint i)" using b(1) by (metis of_int_1_le_iff)
  then have p: "pow_fn sample_env (d_of_u64 i) c = Fin 1"
    unfolding d by (simp add: sample_env_def sample_pow_def)
  have "of_rat_d (of_int (uint i - 1) + 1) = of_rat_d (of_int (uint i))" by (simp del: of_int_uint)
  also have "\<dots> = Fin (of_int (uint i))" using b by (intro of_rat_d_int) simp
  finally have z: "Fin (of_int (uint i - 1)) + 1 / pow_fn sample_env (d_of_u64 i) c = Fin (of_int (uint (i + 1) - 1))"
    unfolding p u by (simp del: of_int_uint)
  have "zeta_loop sample_env (i + 1) n c (Fin (of_int (uint (i + 1) - 1))) = Some (Fin (of_int (uint n)))"
    using Suc.hyps(2) i s unat_Suc_less [OF assms(1)] by (intro Suc.hyps(1)) (simp_all add: word_le_nat_alt)
  then show ?case by (simp only: zeta_loop_step(1) [OF i] z)
qed

lemma sample_Zeta_all: "n < kMaxNumItems \<Longrightarrow> Zeta sample_env 0 n c 0 = Inr (Fin (of_int (uint n)))"
  using sample_zeta_loop [of n 1 c] by (simp add: Zeta_def word_le_nat_alt unat_Suc_less)

lemma sample_pow_small: "x < 1 \<Longrightarrow> pow_fn sample_env (Fin x) (1 - kZipfianConst) = Fin (63/64)"
proof -
  assume "x < 1"
  moreover have "1 - kZipfianConst < Fin (1/2)" by code_simp
  ultimately show ?thesis by (simp add: sample_env_def sample_pow_def)
qed

lemma sample_zipf_env_law: "zipf_env_law sample_env"
proof -
  have "zeta_ratio_law sample_env n kZipfianConst" if n: "3 \<le> n" "n < kMaxNumItems" for n
  proof -
    have b: "3 \<le> uint n" "uint n < 2 ^ 40"
      using n by (simp_all add: word_le_def word_less_alt kMaxNumItems_val)
    then have r: "3 \<le> (of_int (uint n) :: rat)" by (metis of_int_le_iff of_int_numeral)
    have d: "d_of_u64 n = Fin (of_int (uint n))" using b by (intro d_of_u64_exact) simp
    have q: "Fin 2 / Fin (of_int (uint n)) = Fin (rnd (2 / of_int (uint n)))" "0 \<le> rnd (2 / of_int (uint n))"
      using of_rat_d_unit [of "2 / of_int (uint n)"] r by (simp_all del: of_int_uint)
    have "rnd (2 / of_int (uint n)) \<le> rnd (2 / 3)" using r by (intro rnd_mono divide_left_mono) simp_all
    moreover have "rnd (2 / 3) < 63 / 64" by code_simp
    ultimately have lt: "rnd (2 / of_int (uint n)) < 63 / 64" by (rule le_less_trans)
    then have "rnd (2 / of_int (uint n)) < 1" by (rule less_trans) simp
    from sample_pow_small [OF this]
    have "pow_fn sample_env (Fin 2 / d_of_u64 n) (1 - kZipfianConst) = Fin (63/64)" unfolding d q(1) .
    moreover have "Zeta sample_env 0 2 kZipfianConst 0 = Inr (Fin 2)" by (rule sample_Zeta)
    moreover note sample_Zeta_all [OF n(2), of kZipfianConst]
    moreover have "0 \<le> Fin 2 / Fin (of_int (uint n))" "Fin 2 / Fin (of_int (uint n)) < Fin (63/64)"
      using q lt by (simp_all only: zero_one_Fin Fin_order)
    ultimately show ?thesis by (simp only: zeta_ratio_law_def prod.case sum.case simp_thms)
  qed
  then show ?thesis by (simp add: zipf_env_law_def sample_pow_unit_law)
qed

section \<open>Properties\<close>

text \<open>
  C12. Whatever the distributions chosen, a call of Init that returns leaves the workload in its
  invariant: no generator pointer is NULL and every generator satisfies its class's invariant,
  so all later calls on it return values in range; the insert key sequence ends at the record
  count. The zipfian generators must have at least three items and the field lengths fit in a
  string; of the library it uses the range of the uniform distribution and the law of std::pow.
\<close>

theorem Workload_Init_invariant:
  assumes "uniform_law env" "zipf_env_law env" "unit_random r"
    and "Workload_Init env p CoreWorkload r = Inr (w, r')" "sizes_ok w"
  shows "workload_inv env w \<and> unit_random r' \<and>
         Counter_Last (insert_key_sequence w) = record_count w - 1"
  using Workload_Init_inv [OF assms] by (simp add: Counter_Last_def)

definition sample_properties :: properties where
  "sample_properties = [RECORD_COUNT_PROPERTY \<mapsto> ''1000'', SCAN_LENGTH_DISTRIBUTION_PROPERTY \<mapsto> ''zipfian'',
     MAX_SCAN_LENGTH_PROPERTY \<mapsto> ''100'', READ_PROPORTION_PROPERTY \<mapsto> ''0.95'',
     UPDATE_PROPORTION_PROPERTY \<mapsto> ''0.05'', INSERT_PROPORTION_PROPERTY \<mapsto> ''0'',
     SCAN_PROPORTION_PROPERTY \<mapsto> ''0'']"

lemma sample_numbers:
  "stoi ''10'' = Inr 10" "stoi ''100'' = Inr 100" "stoi ''1000'' = Inr 1000" "stoi ''1'' = Inr 1" "stoi ''0'' = Inr 0"
  "\<exists>x. stod ''0.95'' = Inr x" "\<exists>x. stod ''0.05'' = Inr x" "stod ''0.0'' = Inr (Fin 0)" "stod ''0'' = Inr (Fin 0)"
  "StrToBool ''true'' = Inr True" "StrToBool ''false'' = Inr False"
proof -
  show "stoi ''10'' = Inr 10" by code_simp
  show "stoi ''100'' = Inr 100" by code_simp
  show "stoi ''1000'' = Inr 1000" by code_simp
  show "stoi ''1'' = Inr 1" by code_simp
  show "stoi ''0'' = Inr 0" by code_simp
  show "stod ''0.0'' = Inr (Fin 0)" by code_simp
  show "stod ''0'' = Inr (Fin 0)" by code_simp
  show "StrToBool ''true'' = Inr True" by code_simp
  show "StrToBool ''false'' = Inr False" by code_simp
  have "stod ''0.95'' = Inr (Fin (8556839292003942 / 9007199254740992))" by code_simp
  then show "\<exists>x. stod ''0.95'' = Inr x" by blast
  have "stod ''0.05'' = Inr (Fin (7205759403792794 / 144115188075855872))" by code_simp
  then show "\<exists>x. stod ''0.05'' = Inr x" by blast
qed

lemma sample_get:
  "GetProperty sample_properties TABLENAME_PROPERTY d = d"
  "GetProperty sample_properties FIELD_COUNT_PROPERTY d = d"
  "GetProperty sample_properties FIELD_LENGTH_DISTRIBUTION_PROPERTY d = d"
  "GetProperty sample_properties FIELD_LENGTH_PROPERTY d = d"
  "GetProperty sample_properties READ_PROPORTION_PROPERTY d = ''0.95''"
  "GetProperty sample_properties UPDATE_PROPORTION_PROPERTY d = ''0.05''"
  "GetProperty sample_properties INSERT_PROPORTION_PROPERTY d = ''0''"
  "GetProperty sample_properties SCAN_PROPORTION_PROPERTY d = ''0''"
  "GetProperty sample_properties READMODIFYWRITE_PROPORTION_PROPERTY d = d"
  "GetProperty sample_properties REQUEST_DISTRIBUTION_PROPERTY d = d"
  "GetProperty sample_properties ZERO_PADDING_PROPERTY d = d"
  "GetProperty sample_properties INSERT_START_PROPERTY d = d"
  "GetProperty sample_properties INSERT_ORDER_PROPERTY d = d"
  "GetProperty sample_properties READ_ALL_FIELDS_PROPERTY d = d"
  "GetProperty sample_properties WRITE_ALL_FIELDS_PROPERTY d = d"
  "GetProperty sample_properties DBNAME_PROPERTY d = d"
  "GetProperty sample_properties RECORD_COUNT_PROPERTY d = ''1000''"
  "GetProperty sample_properties SCAN_LENGTH_DISTRIBUTION_PROPERTY d = ''zipfian''"
  "GetProperty sample_properties MAX_SCAN_LENGTH_PROPERTY d = ''100''"
  by (simp_all add: sample_properties_def GetProperty_def property_names)

lemma sample_read_parameters:
  "\<exists>w. read_parameters sample_env sample_properties CoreWorkload sample_random = Inr (w, Fin 0, 100, sample_random) \<and>
     field_len_generator w = Some (Const_gen (ConstGenerator 100)) \<and> field_count w = 10 \<and>
     record_count w = 1000 \<and> insert_key_sequence w = \<lparr>counter = 1000\<rparr>"
proof -
  obtain x y where xy: "stod ''0.95'' = Inr x" "stod ''0.05'' = Inr y"
    using sample_numbers(6,7) by blast
  have "GetFieldLenGenerator sample_env sample_properties sample_random =
      Inr (Const_gen (ConstGenerator 100), sample_random)"
    by (simp add: GetFieldLenGenerator_def sample_get FIELD_LENGTH_DISTRIBUTION_DEFAULT_def
        FIELD_LENGTH_DEFAULT_def sample_numbers)
  then show ?thesis
    by (simp add: read_parameters_def sample_get sample_numbers xy FIELD_COUNT_DEFAULT_def
        READ_PROPORTION_DEFAULT_def UPDATE_PROPORTION_DEFAULT_def INSERT_PROPORTION_DEFAULT_def
        SCAN_PROPORTION_DEFAULT_def READMODIFYWRITE_PROPORTION_DEFAULT_def ZERO_PADDING_DEFAULT_def
        INSERT_START_DEFAULT_def READ_ALL_FIELDS_DEFAULT_def WRITE_ALL_FIELDS_DEFAULT_def
        CoreWorkload_def CounterGenerator_def Counter_Set_def Let_def)
qed

lemma sample_Init:
  "\<exists>w r'. Workload_Init sample_env sample_properties CoreWorkload sample_random = Inr (w, r') \<and>
     sizes_ok w \<and> record_count w = 1000"
proof -
  obtain w where w: "read_parameters sample_env sample_properties CoreWorkload sample_random = Inr (w, Fin 0, 100, sample_random)"
    "field_len_generator w = Some (Const_gen (ConstGenerator 100))" "field_count w = 10"
    "record_count w = 1000" "insert_key_sequence w = \<lparr>counter = 1000\<rparr>"
    using sample_read_parameters by blast
  obtain z r' where z: "ZipfianGenerator sample_env 1 100 kZipfianConst sample_random = Inr (z, r')"
    "num_items z = 100"
    using ZipfianGenerator_establishes [of sample_env sample_random kZipfianConst 1 100]
      sample_zipf_env_law unit_random_sample theta_ok_kZipfianConst
    by (auto simp: kMaxNumItems_val zipf_env_law_def)
  obtain kc where kc: "new_Uniform sample_env 0 999 = Inr kc" "gen_size_ok kc"
    by (simp add: new_Uniform_def UniformGenerator_def Let_def)
  obtain fc where fc: "new_field_chooser sample_env 10 = Inr fc"
    by (simp add: new_field_chooser_def new_Uniform_def UniformGenerator_def Let_def)
  show ?thesis
    using w z kc fc
    by (simp add: Workload_Init_def sample_get REQUEST_DISTRIBUTION_DEFAULT_def new_key_chooser_def
        new_scan_len_chooser_def new_Zipfian_def sizes_ok_def ConstGenerator_def string_max_size_def)
qed

theorem Workload_Init_invariant_witness:
  "\<exists>w r'. Workload_Init sample_env sample_properties CoreWorkload sample_random = Inr (w, r') \<and>
     workload_inv sample_env w \<and> Counter_Last (insert_key_sequence w) = 999"
proof -
  obtain w r' where w: "Workload_Init sample_env sample_properties CoreWorkload sample_random = Inr (w, r')"
    "sizes_ok w" "record_count w = 1000" using sample_Init by blast
  from Workload_Init_invariant [OF sample_uniform_law sample_zipf_env_law unit_random_sample w(1,2)]
  show ?thesis using w(1,3) by simp
qed

text \<open>
  C24. With ordered inserts and zero padding to at least the number of digits, the byte order of the
  key strings is the numeric order of the record numbers, and different record numbers have
  different keys whatever the padding: the purpose the header gives for the padding.
\<close>

theorem BuildKeyName_order:
  assumes "ordered_inserts w" "0 < zero_padding w" "zero_padding w < 2 ^ 31"
  shows "(unat j < 10 ^ nat (zero_padding w) \<longrightarrow> unat k < 10 ^ nat (zero_padding w) \<longrightarrow>
            (BuildKeyName w j < BuildKeyName w k \<longleftrightarrow> j < k)) \<and>
         (BuildKeyName w j = BuildKeyName w k \<longleftrightarrow> j = k)"
proof -
  have "j = k" if "BuildKeyName w j = BuildKeyName w k"
    using num10_key_digits [of w j] num10_key_digits [of w k] assms that by (simp add: word_unat_eq_iff)
  then show ?thesis using BuildKeyName_less_iff [OF assms] by blast
qed

theorem BuildKeyName_order_witness:
  "(BuildKeyName (CoreWorkload\<lparr>zero_padding := 8\<rparr>) 99 < BuildKeyName (CoreWorkload\<lparr>zero_padding := 8\<rparr>) 100) \<and>
   BuildKeyName (CoreWorkload\<lparr>zero_padding := 8\<rparr>) 99 = ''user00000099''"
proof
  show "BuildKeyName (CoreWorkload\<lparr>zero_padding := 8\<rparr>) 99 < BuildKeyName (CoreWorkload\<lparr>zero_padding := 8\<rparr>) 100"
    using BuildKeyName_order [of "CoreWorkload\<lparr>zero_padding := 8\<rparr>" 99 100]
    by (simp add: CoreWorkload_def)
  show "BuildKeyName (CoreWorkload\<lparr>zero_padding := 8\<rparr>) 99 = ''user00000099''" by code_simp
qed

text \<open>
  C10. A key a transaction uses is always the name of a record number below the record count of
  the load: whenever NextTransactionKey returns, the number it chose is at most the last of the
  insert key sequence and in the range of the key chooser, and the workload keeps its invariant
  and everything but its generators' positions (the insert key sequence included).
\<close>

theorem NextTransactionKey_within_records:
  assumes "workload_inv env w" "unit_random r" "NextTransactionKey env w r = Inr (key, w', r')"
    and "insert_key_sequence w = \<lparr>counter = record_count w\<rparr>" "0 < record_count w"
  shows "\<exists>k. key = BuildKeyName w k \<and> k < record_count w \<and>
           k \<in> gen_range (insert_key_sequence w) (the (key_chooser w)) \<and>
           workload_inv env w' \<and> wl_static w' = wl_static w"
proof -
  obtain k where k: "key = BuildKeyName w k" "k \<le> Counter_Last (insert_key_sequence w)"
    "k \<in> gen_range (insert_key_sequence w) (the (key_chooser w))" "workload_inv env w'"
    "wl_static w' = wl_static w"
    using NextTransactionKey_static [OF assms(1-3)] by blast
  have "k \<le> record_count w - 1" using k(2) assms(4) by (simp add: Counter_Last_def)
  then have "k < record_count w" using assms(5)
    by (simp add: word_le_nat_alt word_less_nat_alt unat_sub_if_size)
  then show ?thesis using k by blast
qed

definition sample_workload :: workload where
  "sample_workload = CoreWorkload\<lparr>field_count := 2, record_count := 10, zero_padding := 3,
     field_len_generator := Some (Const_gen (ConstGenerator 5)),
     key_generator := Some (Counter_gen (CounterGenerator 0)),
     key_chooser := Some (Uniform_gen \<lparr>u_min = 0, u_max = 9, u_draws = sconst 4, last_int = 4\<rparr>),
     field_chooser := Some (Uniform_gen \<lparr>u_min = 0, u_max = 1, u_draws = sconst 1, last_int = 1\<rparr>),
     scan_len_chooser := Some (Uniform_gen \<lparr>u_min = 1, u_max = 7, u_draws = sconst 3, last_int = 3\<rparr>),
     insert_key_sequence := \<lparr>counter = 10\<rparr>\<rparr>"

lemma sample_workload_simps:
  "field_count sample_workload = 2" "record_count sample_workload = 10"
  "field_len_generator sample_workload = Some (Const_gen (ConstGenerator 5))"
  "key_generator sample_workload = Some (Counter_gen (CounterGenerator 0))"
  "key_chooser sample_workload = Some (Uniform_gen \<lparr>u_min = 0, u_max = 9, u_draws = sconst 4, last_int = 4\<rparr>)"
  "insert_key_sequence sample_workload = \<lparr>counter = 10\<rparr>"
  by (simp_all add: sample_workload_def)

lemma sample_workload_inv: "workload_inv sample_env sample_workload"
  by (auto simp: workload_inv_def sample_workload_def uniform_inv_def ConstGenerator_def string_max_size_def)

lemma sample_gen_Next:
  "gen_Next sample_env \<lparr>counter = 10\<rparr> (Uniform_gen \<lparr>u_min = 0, u_max = 9, u_draws = sconst 4, last_int = 4\<rparr>)
     sample_random = Inr (4, Uniform_gen \<lparr>u_min = 0, u_max = 9, u_draws = sconst 4, last_int = 4\<rparr>, sample_random)"
  by (simp add: wrap_gen_def Uniform_Next_def Let_def)

lemma sample_transaction_key:
  "\<exists>w' r'. NextTransactionKey sample_env sample_workload sample_random = Inr (''user004'', w', r')"
proof -
  have "BuildKeyName sample_workload 4 = BuildKeyName (CoreWorkload\<lparr>zero_padding := 3\<rparr>) 4"
    by (simp add: BuildKeyName_def sample_workload_def)
  also have "\<dots> = ''user004''" by code_simp
  finally have key: "BuildKeyName sample_workload 4 = ''user004''" .
  have "choose_key sample_env \<lparr>counter = 10\<rparr> (the (key_chooser sample_workload)) sample_random =
      Some (Inr (4, the (key_chooser sample_workload), sample_random))"
    by (subst choose_key.simps) (simp add: sample_workload_simps sample_gen_Next Counter_Last_def del: gen_Next.simps)
  then show ?thesis by (simp add: NextTransactionKey_def sample_workload_simps key)
qed

theorem NextTransactionKey_within_records_witness:
  "\<exists>w' r' k. NextTransactionKey sample_env sample_workload sample_random = Inr (''user004'', w', r') \<and>
     ''user004'' = BuildKeyName sample_workload k \<and> k < 10"
proof -
  obtain w' r' where 1: "NextTransactionKey sample_env sample_workload sample_random = Inr (''user004'', w', r')"
    using sample_transaction_key by blast
  from NextTransactionKey_within_records [OF sample_workload_inv unit_random_sample 1]
  show ?thesis using 1 by (auto simp: sample_workload_simps)
qed

text \<open>
  The rejection loop of NextTransactionKey ends: as soon as one of the first n values its
  chooser would produce is not beyond the insert key sequence, the call returns a key.
\<close>

theorem NextTransactionKey_returns:
  assumes "workload_inv env w" "unit_random r" "key_chooser w = Some g"
    and "gen_run env (insert_key_sequence w) n g r = Inr (vs, g', r')"
    and "\<exists>v\<in>set vs. v \<le> Counter_Last (insert_key_sequence w)"
  shows "\<exists>k w' r''. NextTransactionKey env w r = Inr (BuildKeyName w k, w', r'')"
proof -
  obtain m where m: "choose_key env (insert_key_sequence w) g r = Some m"
    using choose_key_returns [OF assms(4,5)] by blast
  have "gen_inv env (insert_key_sequence w) g" using assms(1,3) by (simp add: workload_inv_def)
  from choose_key_sound [OF m this assms(2)] show ?thesis
    using m assms(3) by (auto simp: NextTransactionKey_def)
qed

theorem NextTransactionKey_returns_witness:
  "\<exists>k w' r''. NextTransactionKey sample_env sample_workload sample_random = Inr (BuildKeyName sample_workload k, w', r'')"
proof -
  have run: "gen_run sample_env (insert_key_sequence sample_workload) 1 (the (key_chooser sample_workload)) sample_random =
      Inr ([4], the (key_chooser sample_workload), sample_random)"
    unfolding sample_workload_simps option.sel One_nat_def gen_run.simps sample_gen_Next by simp
  show ?thesis
    by (rule NextTransactionKey_returns [OF sample_workload_inv unit_random_sample _ run])
       (simp_all add: sample_workload_simps Counter_Last_def)
qed

text \<open>
  C25. The record a load or an insert writes: BuildValues returns exactly field\_count\_ pairs named
  field0, field1, ... in order, each value a repetition of one printable character whose length
  the field length generator allows, and the workload keeps its invariant.
\<close>

theorem BuildValues_record:
  assumes "workload_inv env w" "unit_random r"
  shows "\<exists>kvs w' r'. BuildValues env w r = Inr (kvs, w', r') \<and>
           map fst kvs = map (\<lambda>i. ''field'' @ to_string_int (int i)) [0..<nat (field_count w)] \<and>
           list_all (field_ok (gen_range (insert_key_sequence w) (the (field_len_generator w)))) (map snd kvs) \<and>
           workload_inv env w' \<and> wl_static w' = wl_static w \<and> unit_random r'"
  by (rule BuildValues_step [OF assms])

theorem BuildValues_record_witness:
  "\<exists>kvs w' r'. BuildValues sample_env sample_workload sample_random = Inr (kvs, w', r') \<and>
     map fst kvs = [''field0'', ''field1''] \<and> list_all (field_ok {5}) (map snd kvs)"
proof -
  have "to_string_int (int 0) = ''0''" "to_string_int (int 1) = ''1''" by code_simp+
  then show ?thesis
    using BuildValues_record [OF sample_workload_inv unit_random_sample]
    by (simp add: sample_workload_simps ConstGenerator_def numeral_2_eq_2) metis
qed

section \<open>The operation mix\<close>

text \<open>The workload with two operations in the given proportions.\<close>

definition two_ops :: "operation \<Rightarrow> string \<Rightarrow> operation \<Rightarrow> string \<Rightarrow> workload" where
  "two_ops a x b y = add_proportion b (projr (stod y)) (add_proportion a (projr (stod x)) CoreWorkload)"

lemma two_ops_chooser:
  assumes "stod x = Inr (Fin a)" "stod y = Inr (Fin b)" "0 < a" "0 < b"
    and "Fin 0 + Fin a + Fin b = Fin s"
  shows "op_chooser (two_ops p x q y) = \<lparr>dvalues = [(p, Fin a), (q, Fin b)], dsum = Fin s, dlast = Some p\<rparr>"
  using assms(3-5)
  by (simp add: two_ops_def assms(1,2) add_proportion_def CoreWorkload_def AddValue_def
      DiscreteGenerator_def del: Fin_arith)

text \<open>The proportions as doubles.\<close>

definition d05 :: rat where "d05 = 3602879701896397 / 72057594037927936"
definition d30 :: rat where "d30 = 5404319552844595 / 18014398509481984"
definition d70 :: rat where "d70 = 3152519739159347 / 4503599627370496"
definition d95 :: rat where "d95 = 4278419646001971 / 4503599627370496"

lemma stod_05: "stod ''0.05'' = Inr (Fin d05)" by code_simp
lemma stod_30: "stod ''0.3'' = Inr (Fin d30)" by code_simp
lemma stod_50: "stod ''0.5'' = Inr (Fin (1/2))" by code_simp
lemma stod_70: "stod ''0.7'' = Inr (Fin d70)" by code_simp
lemma stod_95: "stod ''0.95'' = Inr (Fin d95)" by code_simp

lemma sum_50_50: "Fin 0 + Fin (1/2) + Fin (1/2) = Fin 1" by code_simp
lemma sum_30_70: "Fin 0 + Fin d30 + Fin d70 = Fin 1" by code_simp

lemma loop_50_50: "discrete_loop (Fin max_unit_draw) (Fin 1) [(READ, Fin (1/2)), (UPDATE, Fin (1/2))] = Some UPDATE"
  by code_simp

lemma loop_30_70: "discrete_loop (Fin max_unit_draw) (Fin 1) [(READ, Fin d30), (UPDATE, Fin d70)] = None"
  by code_simp

lemma stod_0: "stod ''0'' = Inr (Fin 0)" "stod ''0.0'' = Inr (Fin 0)" by code_simp+
lemma stod_1: "stod ''1'' = Inr (Fin 1)" by code_simp

section \<open>The mixes of the shipped workload files\<close>

text \<open>The five proportions Init reads, in the order in which it adds them to the chooser, and the chooser they make.\<close>

definition mix_of :: "properties \<Rightarrow> string list" where
  "mix_of p = [GetProperty p READ_PROPORTION_PROPERTY READ_PROPORTION_DEFAULT,
     GetProperty p UPDATE_PROPORTION_PROPERTY UPDATE_PROPORTION_DEFAULT,
     GetProperty p INSERT_PROPORTION_PROPERTY INSERT_PROPORTION_DEFAULT,
     GetProperty p SCAN_PROPORTION_PROPERTY SCAN_PROPORTION_DEFAULT,
     GetProperty p READMODIFYWRITE_PROPORTION_PROPERTY READMODIFYWRITE_PROPORTION_DEFAULT]"

definition all_operations :: "operation list" where
  "all_operations = [READ, UPDATE, INSERT, SCAN, READMODIFYWRITE]"

definition mix_chooser :: "double list \<Rightarrow> operation discrete_generator" where
  "mix_chooser xs = fold (\<lambda>(op, x) g. if 0 < x then AddValue op x g else g) (zip all_operations xs) DiscreteGenerator"

lemma op_chooser_add: "op_chooser (add_proportion op x w) = (if 0 < x then AddValue op x (op_chooser w) else op_chooser w)"
  by (simp add: add_proportion_def)

lemma Init_op_chooser:
  assumes "Workload_Init env p CoreWorkload r = Inr (w, r')"
  shows "\<exists>xs. map stod (mix_of p) = map Inr xs \<and> op_chooser w = mix_chooser xs"
proof -
  obtain w0 ip ms r0 where read: "read_parameters env p CoreWorkload r = Inr (w0, ip, ms, r0)"
    and w: "op_chooser w = op_chooser w0"
    using assms by (auto simp: Workload_Init_def handleRocksdb_def Let_def bindR_eq_Inr_iff split: if_splits)
  obtain a b c d e where x: "stod (GetProperty p READ_PROPORTION_PROPERTY READ_PROPORTION_DEFAULT) = Inr a"
    "stod (GetProperty p UPDATE_PROPORTION_PROPERTY UPDATE_PROPORTION_DEFAULT) = Inr b"
    "stod (GetProperty p INSERT_PROPORTION_PROPERTY INSERT_PROPORTION_DEFAULT) = Inr c"
    "stod (GetProperty p SCAN_PROPORTION_PROPERTY SCAN_PROPORTION_DEFAULT) = Inr d"
    "stod (GetProperty p READMODIFYWRITE_PROPORTION_PROPERTY READMODIFYWRITE_PROPORTION_DEFAULT) = Inr e"
    and c: "op_chooser w0 = mix_chooser [a, b, c, d, e]"
    using read
    by (clarsimp simp: read_parameters_def Let_def bindR_eq_Inr_iff mix_chooser_def all_operations_def
        op_chooser_add CoreWorkload_def split_paired_all)
  then show ?thesis using w by (intro exI [of _ "[a, b, c, d, e]"]) (simp add: mix_of_def)
qed

text \<open>
  The proportions of the files of workloads/, by the name of the file or of the family of files;
  a proportion a file does not mention has its default.
\<close>

definition shipped_mixes :: "(string \<times> string list) list" where
  "shipped_mixes =
     [(''workloada'', [''0.5'', ''0.5'', ''0'', ''0'', ''0.0'']), (''workloada1KB80GBtest'', [''1'', ''0'', ''0'', ''0'', ''0.0'']),
      (''workloadb'', [''0.95'', ''0.05'', ''0'', ''0'', ''0.0'']), (''workloadc'', [''1'', ''0'', ''0'', ''0'', ''0.0'']),
      (''workloadd'', [''0.95'', ''0'', ''0.05'', ''0'', ''0.0'']), (''workloade'', [''0'', ''0'', ''0.05'', ''0.95'', ''0.0'']),
      (''workloadf'', [''0.5'', ''0'', ''0'', ''0'', ''0.5'']), (''workloadtest'', [''0'', ''0'', ''1'', ''0'', ''0.0''])]"

definition zero_text :: "string \<Rightarrow> bool" where
  "zero_text s \<longleftrightarrow> s \<in> {''0'', ''0.0''}"

definition mix_ok :: "string list \<Rightarrow> double list \<Rightarrow> bool" where
  "mix_ok mix xs \<longleftrightarrow> discrete_inv (mix_chooser xs) \<and>
     dvalues (mix_chooser xs) = [(op, x). (op, s, x) \<leftarrow> zip all_operations (zip mix xs), \<not> zero_text s]"

lemma mix_a: "mix_ok [''0.5'', ''0.5'', ''0'', ''0'', ''0.0''] [Fin (1/2), Fin (1/2), Fin 0, Fin 0, Fin 0]"
  unfolding mix_ok_def by code_simp
lemma mix_c: "mix_ok [''1'', ''0'', ''0'', ''0'', ''0.0''] [Fin 1, Fin 0, Fin 0, Fin 0, Fin 0]"
  unfolding mix_ok_def by code_simp
lemma mix_b: "mix_ok [''0.95'', ''0.05'', ''0'', ''0'', ''0.0''] [Fin d95, Fin d05, Fin 0, Fin 0, Fin 0]"
  unfolding mix_ok_def by code_simp
lemma mix_d: "mix_ok [''0.95'', ''0'', ''0.05'', ''0'', ''0.0''] [Fin d95, Fin 0, Fin d05, Fin 0, Fin 0]"
  unfolding mix_ok_def by code_simp
lemma mix_e: "mix_ok [''0'', ''0'', ''0.05'', ''0.95'', ''0.0''] [Fin 0, Fin 0, Fin d05, Fin d95, Fin 0]"
  unfolding mix_ok_def by code_simp
lemma mix_f: "mix_ok [''0.5'', ''0'', ''0'', ''0'', ''0.5''] [Fin (1/2), Fin 0, Fin 0, Fin 0, Fin (1/2)]"
  unfolding mix_ok_def by code_simp
lemma mix_test: "mix_ok [''0'', ''0'', ''1'', ''0'', ''0.0''] [Fin 0, Fin 0, Fin 1, Fin 0, Fin 0]"
  unfolding mix_ok_def by code_simp

lemmas mixes_computed = mix_a mix_c mix_b mix_d mix_e mix_f mix_test

lemma shipped_mix_ok:
  assumes "(f, mix) \<in> set shipped_mixes" "map stod mix = map Inr xs"
  shows "mix_ok mix xs"
  using assms mixes_computed
  by (auto simp: shipped_mixes_def stod_0 stod_1 stod_05 stod_50 stod_95 map_eq_Cons_conv Cons_eq_map_conv simp del: zero_one_Fin)

lemma mix_values:
  assumes "map stod mix = map Inr xs"
  shows "[(op, x). (op, s, x) \<leftarrow> zip ops (zip mix xs), \<not> zero_text s] =
         [(op, projr (stod s)). (op, s) \<leftarrow> zip ops mix, \<not> zero_text s]"
  using assms
proof (induction mix arbitrary: ops xs)
  case (Cons t mix)
  then show ?case by (cases ops; cases xs) auto
qed simp

text \<open>n operations drawn one after the other, as the transactions of a client draw them.\<close>

primrec operations_run :: "nat \<Rightarrow> workload \<Rightarrow> random \<Rightarrow> (operation list \<times> workload \<times> random) result" where
  "operations_run 0 w r = Inr ([], w, r)"
| "operations_run (Suc n) w r = bindR (NextOperation w r) (\<lambda>(op, w', r').
     bindR (operations_run n w' r') (\<lambda>(ops, w'', r''). Inr (op # ops, w'', r'')))"

interpretation op_mix: generator NextOperation "\<lambda>w. the (Discrete_Last (op_chooser w))"
  "\<lambda>w. discrete_inv (op_chooser w)" "\<lambda>w. fst ` set (dvalues (op_chooser w))"
proof unfold_locales
  fix w :: workload and r assume "discrete_inv (op_chooser w)" "unit_random r"
  then show "returns (NextOperation w r)"
    by (rule discrete_gen.nxt_obtain) (auto simp: NextOperation_def)
next
  fix w w' :: workload and r v r'
  assume inv: "discrete_inv (op_chooser w)" "unit_random r" and step: "NextOperation w r = Inr (v, w', r')"
  obtain g where g: "Discrete_Next (op_chooser w) r = Inr (v, g, r')" "w' = w\<lparr>op_chooser := g\<rparr>"
    using step by (auto simp: NextOperation_def bindR_eq_Inr_iff)
  note laws = discrete_gen.nxt_range [OF inv g(1)] discrete_gen.nxt_last [OF inv g(1)] discrete_gen.nxt_inv [OF inv g(1)]
  show "v \<in> fst ` set (dvalues (op_chooser w))" using laws by simp
  show "the (Discrete_Last (op_chooser w')) = v" using laws g by simp
  show "discrete_inv (op_chooser w') \<and> fst ` set (dvalues (op_chooser w')) = fst ` set (dvalues (op_chooser w)) \<and>
        unit_random r'" using laws g by simp
qed

lemma operations_run_eq: "operations_run n w r = op_mix.run n w r"
  by (induction n arbitrary: w r) simp_all

text \<open>
  C26. The operation mixes of the shipped workload files, a to f, the load test and the read-only
  test: once Init has read a property object whose proportions are those of such a file, the
  chooser holds exactly the operations whose proportion the file gives as other than zero, each
  with that proportion, and any number of transactions can be drawn, whatever the draws of the
  random source: NextOperation never reaches assert(false), in spite of the rounding of the
  proportions, of their sum and of the running subtraction, and returns one of these operations.
\<close>

theorem NextOperation_shipped_mixes:
  assumes "Workload_Init env p CoreWorkload r0 = Inr (w, r1)"
    and "(file, mix_of p) \<in> set shipped_mixes" "unit_random r"
  shows "dvalues (op_chooser w) = [(op, projr (stod s)). (op, s) \<leftarrow> zip all_operations (mix_of p), \<not> zero_text s] \<and>
         (\<exists>ops w' r'. operations_run n w r = Inr (ops, w', r') \<and> length ops = n \<and>
           (\<forall>op\<in>set ops. \<exists>s. (op, s) \<in> set (zip all_operations (mix_of p)) \<and> \<not> zero_text s))"
proof -
  obtain xs where xs: "map stod (mix_of p) = map Inr xs" "op_chooser w = mix_chooser xs"
    using Init_op_chooser [OF assms(1)] by blast
  have ok: "mix_ok (mix_of p) xs" by (rule shipped_mix_ok [OF assms(2) xs(1)])
  then have inv: "discrete_inv (op_chooser w)" by (simp add: mix_ok_def xs(2))
  obtain ops w' r' where run: "operations_run n w r = Inr (ops, w', r')" "length ops = n"
    "set ops \<subseteq> fst ` set (dvalues (op_chooser w))"
    using op_mix.run_values [OF inv assms(3), of n] unfolding operations_run_eq by blast
  have held: "dvalues (op_chooser w) =
      [(op, projr (stod s)). (op, s) \<leftarrow> zip all_operations (mix_of p), \<not> zero_text s]"
    using ok by (simp only: mix_ok_def xs(2) mix_values [OF xs(1)])
  then have "\<exists>s. (op, s) \<in> set (zip all_operations (mix_of p)) \<and> \<not> zero_text s" if "op \<in> set ops" for op
    using run(3) that by (fastforce split: if_splits)
  then show ?thesis using held run(1,2) by blast
qed

theorem NextOperation_shipped_mixes_witness:
  "\<exists>w r1 ops w' r'. Workload_Init sample_env sample_properties CoreWorkload sample_random = Inr (w, r1) \<and>
     dvalues (op_chooser w) = [(READ, Fin d95), (UPDATE, Fin d05)] \<and>
     operations_run 1000 w max_random = Inr (ops, w', r') \<and> length ops = 1000 \<and> set ops \<subseteq> {READ, UPDATE}"
proof -
  obtain w r1 where w: "Workload_Init sample_env sample_properties CoreWorkload sample_random = Inr (w, r1)"
    using sample_Init by blast
  have mix: "(''workloadb'', mix_of sample_properties) \<in> set shipped_mixes"
    by (simp add: mix_of_def sample_get shipped_mixes_def READMODIFYWRITE_PROPORTION_DEFAULT_def)
  note facts = NextOperation_shipped_mixes [OF w mix unit_random_max, of 1000]
  then have "dvalues (op_chooser w) = [(READ, Fin d95), (UPDATE, Fin d05)]"
    by (simp add: mix_of_def sample_get all_operations_def zero_text_def READMODIFYWRITE_PROPORTION_DEFAULT_def stod_95 stod_05)
  moreover from facts
  obtain ops w' r' where ops: "operations_run 1000 w max_random = Inr (ops, w', r')" "length ops = 1000"
    "\<forall>op\<in>set ops. \<exists>s. (op, s) \<in> set (zip all_operations (mix_of sample_properties)) \<and> \<not> zero_text s" by blast
  moreover have "set ops \<subseteq> {READ, UPDATE}"
    using ops(3) by (force simp: mix_of_def sample_get all_operations_def zero_text_def READMODIFYWRITE_PROPORTION_DEFAULT_def)
  ultimately show ?thesis using w ops(1,2) by blast
qed

section \<open>A mix that can abort\<close>

text \<open>
  With 30 per cent reads and 70 per cent updates NextOperation can run into assert(false):
  after the rounded quotient for the reads is subtracted from the largest draw below 1, the rest
  is not below the quotient for the updates, and no value is left.
\<close>

lemma NextOperation_can_abort:
  "unit_random max_random \<and>
   NextOperation (two_ops READ ''0.3'' UPDATE ''0.7'') max_random = Inl (Assert_failed ''false'')"
proof
  show "unit_random max_random" by (rule unit_random_max)
  have pos: "0 < d30" "0 < d70" by (simp_all add: d30_def d70_def)
  show "NextOperation (two_ops READ ''0.3'' UPDATE ''0.7'') max_random = Inl (Assert_failed ''false'')"
    by (simp add: NextOperation_def Discrete_Next_def RandomDouble_def max_random_def loop_30_70
        two_ops_chooser [OF stod_30 stod_70 pos sum_30_70] del: discrete_loop.simps)
qed

end
