(* ===== verification/Hashtables.thy ===== *)
theory Hashtables
  imports Cxx_Lib
begin

text \<open>
  vmp::String of lib/string.h, the interface StringHashtable of lib/string\_hashtable.h, and its
  implementations StlHashtable and LockStlHashtable. A C string pointer is None when it is NULL
  and otherwise the characters before the terminating NUL. The order in which an unordered\_map
  iterates is not specified: a table is the list of its entries in iteration order, and an
  insertion may rearrange them in any way; the permutation is a parameter.
\<close>

section \<open>vmp::String\<close>

type_synonym cptr = "string option"

record vstring =
  vhash :: u64
  vvalue :: string
  vlen :: nat

text \<open>A char is signed: its conversion to uint64\_t extends the sign.\<close>

definition u64_of_char :: "char \<Rightarrow> u64" where
  "u64_of_char c = (let n = of_char c :: int in word_of_int (if n < 128 then n else n - 256))"

fun sdbm_loop :: "u64 \<Rightarrow> string \<Rightarrow> u64" where
  "sdbm_loop hash [] = hash"
| "sdbm_loop hash (ch # cstr) =
     (let c = u64_of_char ch
      in if c = 0 then hash
         else sdbm_loop (c + push_bit 6 hash + push_bit 16 hash - hash) cstr)"

definition SDBMHash :: "string \<Rightarrow> u64" where
  "SDBMHash cstr = sdbm_loop 0 cstr"

definition set_value :: "string \<Rightarrow> vstring" where
  "set_value v = \<lparr>vhash = SDBMHash v, vvalue = v, vlen = length v\<rparr>"

definition Wrap :: "cptr \<Rightarrow> vstring result" where
  "Wrap cstr = (case cstr of None \<Rightarrow> Inl (Assert_failed ''cstr'') | Some s \<Rightarrow> Inr (set_value s))"

text \<open>Copy allocates len + 1 bytes and copies; the copy has the same characters.\<close>

definition Copy :: "cptr \<Rightarrow> vstring result" where
  "Copy cstr = (case cstr of None \<Rightarrow> Inl (Assert_failed ''cstr'')
     | Some s \<Rightarrow> let hstr = set_value s
                in bindR (assertR (vlen hstr = length s) ''hstr.length() == len'') (\<lambda>_. Inr hstr))"

definition String_eq :: "vstring \<Rightarrow> vstring \<Rightarrow> bool" where
  "String_eq a b = (if vhash a \<noteq> vhash b then False else vvalue a = vvalue b)"

lemma String_eq_Wrap: "String_eq (set_value s) (set_value t) \<longleftrightarrow> s = t"
  by (auto simp: String_eq_def set_value_def)

section \<open>StlHashtable\<close>

type_synonym 'v stl_table = "(vstring \<times> 'v) list"

text \<open>
  The order of the entries after an insertion, as positions in the old order with the new entry
  last. It depends on the hashes only; what is not a permutation is ignored.
\<close>

type_synonym bucket_order = "u64 list \<Rightarrow> nat list"

definition arrange :: "bucket_order \<Rightarrow> 'v stl_table \<Rightarrow> 'v stl_table" where
  "arrange ord t = (let p = ord (map (\<lambda>e. vhash (fst e)) t)
     in if distinct p \<and> set p = {0..<length t} then map (\<lambda>i. t ! i) p else t)"

definition StlHashtable :: "'v stl_table" where
  "StlHashtable = []"

text \<open>An iterator is the rest of the table from its position on; the end is the empty list.\<close>

definition stl_find :: "'v stl_table \<Rightarrow> vstring \<Rightarrow> 'v stl_table" where
  "stl_find t k = dropWhile (\<lambda>e. \<not> String_eq (fst e) k) t"

definition stl_before :: "'v stl_table \<Rightarrow> vstring \<Rightarrow> 'v stl_table" where
  "stl_before t k = takeWhile (\<lambda>e. \<not> String_eq (fst e) k) t"

definition Stl_Get :: "'v stl_table \<Rightarrow> cptr \<Rightarrow> 'v option result" where
  "Stl_Get t key = bindR (Wrap key) (\<lambda>k.
     case stl_find t k of [] \<Rightarrow> Inr None | e # _ \<Rightarrow> Inr (Some (snd e)))"

definition Stl_Insert :: "bucket_order \<Rightarrow> 'v stl_table \<Rightarrow> cptr \<Rightarrow> 'v \<Rightarrow> (bool \<times> 'v stl_table) result" where
  "Stl_Insert ord t key value =
     (if key = None then Inr (False, t)
      else bindR (Copy key) (\<lambda>skey.
        if stl_find t skey = [] then Inr (True, arrange ord (t @ [(skey, value)])) else Inr (False, t)))"

definition Stl_Update :: "'v stl_table \<Rightarrow> cptr \<Rightarrow> 'v \<Rightarrow> ('v option \<times> 'v stl_table) result" where
  "Stl_Update t key value = bindR (Wrap key) (\<lambda>k.
     case stl_find t k of [] \<Rightarrow> Inr (None, t)
     | e # rest \<Rightarrow> Inr (Some (snd e), stl_before t k @ (fst e, value) # rest))"

definition Stl_Remove :: "'v stl_table \<Rightarrow> cptr \<Rightarrow> ('v option \<times> 'v stl_table) result" where
  "Stl_Remove t key = bindR (Wrap key) (\<lambda>k.
     case stl_find t k of [] \<Rightarrow> Inr (None, t)
     | e # rest \<Rightarrow> Inr (Some (snd e), stl_before t k @ rest))"

definition Stl_Entries :: "'v stl_table \<Rightarrow> cptr \<Rightarrow> u64 \<Rightarrow> (string \<times> 'v) list result" where
  "Stl_Entries t key n =
     bindR (if key = None then Inr t else bindR (Wrap key) (\<lambda>k. Inr (stl_find t k))) (\<lambda>pos.
     Inr (map (\<lambda>e. (vvalue (fst e), snd e)) (take (unat n) pos)))"

definition Stl_Size :: "'v stl_table \<Rightarrow> nat" where
  "Stl_Size t = length t"

section \<open>LockStlHashtable\<close>

text \<open>
  Each operation holds the mutex of the table from its first to its last statement, so that the
  operations of different threads on one table happen one after the other.
\<close>

definition Lock_Get :: "'v stl_table \<Rightarrow> cptr \<Rightarrow> 'v option result" where
  "Lock_Get t key = Stl_Get t key"

definition Lock_Insert :: "bucket_order \<Rightarrow> 'v stl_table \<Rightarrow> cptr \<Rightarrow> 'v \<Rightarrow> (bool \<times> 'v stl_table) result" where
  "Lock_Insert ord t key value = Stl_Insert ord t key value"

definition Lock_Update :: "'v stl_table \<Rightarrow> cptr \<Rightarrow> 'v \<Rightarrow> ('v option \<times> 'v stl_table) result" where
  "Lock_Update t key value = Stl_Update t key value"

definition Lock_Remove :: "'v stl_table \<Rightarrow> cptr \<Rightarrow> ('v option \<times> 'v stl_table) result" where
  "Lock_Remove t key = Stl_Remove t key"

definition Lock_Entries :: "'v stl_table \<Rightarrow> cptr \<Rightarrow> u64 \<Rightarrow> (string \<times> 'v) list result" where
  "Lock_Entries t key n = Stl_Entries t key n"

definition Lock_Size :: "'v stl_table \<Rightarrow> nat" where
  "Lock_Size t = Stl_Size t"

section \<open>The interface\<close>

text \<open>The effect of inserting a list of pairs on a map, up to the first key that is present.\<close>

fun insert_spec :: "('k \<rightharpoonup> 'v) \<Rightarrow> ('k \<times> 'v) list \<Rightarrow> bool \<times> ('k \<rightharpoonup> 'v)" where
  "insert_spec m [] = (True, m)"
| "insert_spec m (kv # kvs) =
     (if m (fst kv) = None then insert_spec (m(fst kv \<mapsto> snd kv)) kvs else (False, m))"

lemma insert_spec_fresh:
  "distinct (map fst kvs) \<Longrightarrow> set (map fst kvs) \<inter> dom m = {} \<Longrightarrow> insert_spec m kvs = (True, m ++ map_of kvs)"
proof (induction kvs arbitrary: m)
  case Nil
  then show ?case by simp
next
  case (Cons kv kvs)
  have "m (fst kv) = None" using Cons.prems(2) by auto
  moreover have "insert_spec (m(fst kv \<mapsto> snd kv)) kvs = (True, m(fst kv \<mapsto> snd kv) ++ map_of kvs)"
  proof (rule Cons.IH)
    show "distinct (map fst kvs)" using Cons.prems(1) by simp
    have "fst kv \<notin> set (map fst kvs)" "set (map fst kvs) \<inter> dom m = {}" using Cons.prems by auto
    then show "set (map fst kvs) \<inter> dom (m(fst kv \<mapsto> snd kv)) = {}" unfolding dom_fun_upd by auto
  qed
  moreover have "m(fst kv \<mapsto> snd kv) ++ map_of kvs = (m ++ map_of kvs)(fst kv \<mapsto> snd kv)"
    using Cons.prems(1) by (intro map_add_upd_left) (simp add: dom_map_of_conv_image_fst)
  moreover have "map_of (kv # kvs) = (map_of kvs)(fst kv \<mapsto> snd kv)" by (rule map_of.simps(2))
  ultimately show ?case by (simp only: insert_spec.simps if_True map_add_upd simp_thms)
qed

text \<open>
  The virtual methods of StringHashtable and the constructor of a class that implements it: one
  record of functions for each class, so that what uses a table through the interface is one
  definition for all of them.
\<close>

record ('t, 'v) table_ops =
  op_get :: "'t \<Rightarrow> cptr \<Rightarrow> 'v option result"
  op_ins :: "'t \<Rightarrow> cptr \<Rightarrow> 'v \<Rightarrow> (bool \<times> 't) result"
  op_upd :: "'t \<Rightarrow> cptr \<Rightarrow> 'v \<Rightarrow> ('v option \<times> 't) result"
  op_rem :: "'t \<Rightarrow> cptr \<Rightarrow> ('v option \<times> 't) result"
  op_ents :: "'t \<Rightarrow> cptr \<Rightarrow> u64 \<Rightarrow> (string \<times> 'v) list result"
  op_size :: "'t \<Rightarrow> nat"
  op_new :: 't

definition stl_ops :: "bucket_order \<Rightarrow> ('v stl_table, 'v) table_ops" where
  "stl_ops ord = \<lparr>op_get = Stl_Get, op_ins = Stl_Insert ord, op_upd = Stl_Update, op_rem = Stl_Remove,
     op_ents = Stl_Entries, op_size = Stl_Size, op_new = StlHashtable\<rparr>"

definition lock_ops :: "bucket_order \<Rightarrow> ('v stl_table, 'v) table_ops" where
  "lock_ops ord = \<lparr>op_get = Lock_Get, op_ins = Lock_Insert ord, op_upd = Lock_Update, op_rem = Lock_Remove,
     op_ents = Lock_Entries, op_size = Lock_Size, op_new = StlHashtable\<rparr>"

text \<open>
  What StringHashtable promises, with the map a table stands for: Get looks the key up, Insert
  adds a key that is absent and refuses one that is present, Update replaces the value of a key
  that is present, Remove deletes it, the entries from the beginning are the map, each key
  once, and the entries from a key on begin with that key, or are none when it is absent.
\<close>

locale string_hashtable =
  fixes get :: "'t \<Rightarrow> cptr \<Rightarrow> 'v option result"
    and ins :: "'t \<Rightarrow> cptr \<Rightarrow> 'v \<Rightarrow> (bool \<times> 't) result"
    and upd :: "'t \<Rightarrow> cptr \<Rightarrow> 'v \<Rightarrow> ('v option \<times> 't) result"
    and rem :: "'t \<Rightarrow> cptr \<Rightarrow> ('v option \<times> 't) result"
    and ents :: "'t \<Rightarrow> cptr \<Rightarrow> u64 \<Rightarrow> (string \<times> 'v) list result"
    and size_of :: "'t \<Rightarrow> nat"
    and inv :: "'t \<Rightarrow> bool"
    and mp :: "'t \<Rightarrow> string \<rightharpoonup> 'v"
  assumes get_law: "inv t \<Longrightarrow> get t (Some k) = Inr (mp t k)"
    and ins_law: "inv t \<Longrightarrow> \<exists>t'. ins t (Some k) v = Inr (mp t k = None, t') \<and> inv t' \<and>
        mp t' = (if mp t k = None then (mp t)(k \<mapsto> v) else mp t) \<and> (mp t k \<noteq> None \<longrightarrow> t' = t)"
    and upd_law: "inv t \<Longrightarrow> \<exists>t'. upd t (Some k) v = Inr (mp t k, t') \<and> inv t' \<and>
        mp t' = (if mp t k = None then mp t else (mp t)(k \<mapsto> v)) \<and> size_of t' = size_of t"
    and rem_law: "inv t \<Longrightarrow> \<exists>t'. rem t (Some k) = Inr (mp t k, t') \<and> inv t' \<and> mp t' = (mp t)(k := None)"
    and ents_law: "inv t \<Longrightarrow> \<exists>es. ents t None n = Inr (take (unat n) es) \<and> distinct (map fst es) \<and>
        map_of es = mp t \<and> length es = size_of t"
    and from_law: "inv t \<Longrightarrow> \<exists>es. ents t (Some k) n = Inr (take (unat n) es) \<and> distinct (map fst es) \<and>
        (\<forall>e\<in>set es. mp t (fst e) = Some (snd e)) \<and>
        (case mp t k of None \<Rightarrow> es = [] | Some v \<Rightarrow> \<exists>rest. es = (k, v) # rest)"
begin

text \<open>The loop of Insert over a list of pairs that stops at the first conflict.\<close>

fun insert_all :: "'t \<Rightarrow> (string \<times> 'v) list \<Rightarrow> (bool \<times> 't) result" where
  "insert_all t [] = Inr (True, t)"
| "insert_all t (kv # kvs) = bindR (ins t (Some (fst kv)) (snd kv)) (\<lambda>(ok, t').
     if ok then insert_all t' kvs else Inr (False, t'))"

lemma insert_all_law:
  assumes "inv t"
  shows "\<exists>t'. insert_all t kvs = Inr (fst (insert_spec (mp t) kvs), t') \<and> inv t' \<and>
           mp t' = snd (insert_spec (mp t) kvs)"
  using assms
proof (induction kvs arbitrary: t)
  case Nil
  then show ?case by simp
next
  case (Cons kv kvs)
  obtain t1 where t1: "ins t (Some (fst kv)) (snd kv) = Inr (mp t (fst kv) = None, t1)" "inv t1"
    "mp t1 = (if mp t (fst kv) = None then (mp t)(fst kv \<mapsto> snd kv) else mp t)"
    using ins_law [OF Cons.prems, of "fst kv" "snd kv"] by blast
  show ?case
  proof (cases "mp t (fst kv) = None")
    case True
    then have "mp t1 = (mp t)(fst kv \<mapsto> snd kv)" by (simp add: t1(3))
    then show ?thesis using Cons.IH [OF t1(2)] True by (simp add: t1(1) del: fun_upd_apply)
  next
    case False
    then have "mp t1 = mp t" "ins t (Some (fst kv)) (snd kv) = Inr (False, t1)"
      unfolding t1(3) t1(1) by (simp_all only: if_False)
    moreover obtain y where "mp t (fst kv) = Some y" using False by blast
    ultimately show ?thesis using t1(2) by simp
  qed
qed

text \<open>The loop of Update: replace the value of a key, or insert it when it is absent.\<close>

fun upsert_all :: "'t \<Rightarrow> (string \<times> 'v) list \<Rightarrow> 't result" where
  "upsert_all t [] = Inr t"
| "upsert_all t (kv # kvs) = bindR (upd t (Some (fst kv)) (snd kv)) (\<lambda>(old, t1).
     bindR (if old = None then ins t1 (Some (fst kv)) (snd kv) else Inr (True, t1)) (\<lambda>(ok, t2).
     upsert_all t2 kvs))"

lemma upsert_all_law:
  assumes "inv t"
  shows "\<exists>t'. upsert_all t kvs = Inr t' \<and> inv t' \<and> mp t' = mp t ++ map_of (rev kvs)"
  using assms
proof (induction kvs arbitrary: t)
  case Nil
  then show ?case by simp
next
  case (Cons kv kvs)
  obtain k v where kv: "kv = (k, v)" by (cases kv)
  obtain t1 where t1: "upd t (Some k) v = Inr (mp t k, t1)" "inv t1"
    "mp t1 = (if mp t k = None then mp t else (mp t)(k \<mapsto> v))"
    using upd_law [OF Cons.prems, of k v] by blast
  obtain ok t2 where t2: "(if mp t k = None then ins t1 (Some k) v else Inr (True, t1)) = Inr (ok, t2)"
    "inv t2" "mp t2 = (mp t)(k \<mapsto> v)"
  proof (cases "mp t k")
    case None
    then show ?thesis using that ins_law [OF t1(2), of k v] t1(3) by auto
  next
    case Some
    then show ?thesis using that [of True t1] t1 by simp
  qed
  obtain t3 where t3: "upsert_all t2 kvs = Inr t3" "inv t3" "mp t3 = mp t2 ++ map_of (rev kvs)"
    using Cons.IH [OF t2(2)] by blast
  have "upsert_all t (kv # kvs) = Inr t3"
    using t1(1) t2(1) t3(1) by (cases "mp t k") (simp_all add: kv)
  moreover have "mp t3 = mp t ++ map_of (rev (kv # kvs))" by (simp add: t3(3) t2(3) kv)
  ultimately show ?case using t3(2) by blast
qed

end

text \<open>A class of tables: the methods keep the promises, and the constructor makes an empty table.\<close>

locale table_class = string_hashtable "op_get T" "op_ins T" "op_upd T" "op_rem T" "op_ents T" "op_size T" inv mp
  for T :: "('t, 'v) table_ops" and inv mp +
  assumes new_law: "inv (op_new T)" "mp (op_new T) = Map.empty"

section \<open>StlHashtable keeps its promises\<close>

definition stl_inv :: "'v stl_table \<Rightarrow> bool" where
  "stl_inv t \<longleftrightarrow> distinct (map (\<lambda>e. vvalue (fst e)) t) \<and> (\<forall>e\<in>set t. fst e = set_value (vvalue (fst e)))"

definition stl_map :: "'v stl_table \<Rightarrow> string \<rightharpoonup> 'v" where
  "stl_map t = map_of (map (\<lambda>e. (vvalue (fst e), snd e)) t)"

lemma set_value_value [simp]: "vvalue (set_value s) = s"
  by (simp add: set_value_def)

lemma String_eq_inv: "stl_inv t \<Longrightarrow> e \<in> set t \<Longrightarrow> String_eq (fst e) (set_value k) \<longleftrightarrow> vvalue (fst e) = k"
  by (metis String_eq_Wrap stl_inv_def)

lemma stl_find_before: "stl_before t k @ stl_find t k = t"
  by (simp add: stl_before_def stl_find_def)

lemma stl_find_cases:
  assumes "stl_inv t"
  shows "(stl_find t (set_value k) = [] \<and> stl_map t k = None) \<or>
         (\<exists>v rest. stl_find t (set_value k) = (set_value k, v) # rest \<and> stl_map t k = Some v)"
  using assms
proof (induction t)
  case Nil
  then show ?case by (simp add: stl_find_def stl_map_def)
next
  case (Cons e t)
  have inv: "stl_inv t" using Cons.prems by (simp add: stl_inv_def)
  have e: "fst e = set_value (vvalue (fst e))" using Cons.prems by (simp add: stl_inv_def)
  show ?case
  proof (cases "vvalue (fst e) = k")
    case True
    then have eq: "e = (set_value k, snd e)" using e by (metis prod.collapse)
    have "String_eq (fst e) (set_value k)" using e True String_eq_Wrap by metis
    then have "stl_find (e # t) (set_value k) = e # t" by (simp add: stl_find_def)
    moreover have "stl_map (e # t) k = Some (snd e)" using True by (simp add: stl_map_def)
    ultimately show ?thesis using eq by metis
  next
    case False
    then have "\<not> String_eq (fst e) (set_value k)" using e by (metis String_eq_Wrap)
    then show ?thesis using Cons.IH [OF inv] False by (simp add: stl_find_def stl_map_def)
  qed
qed

lemma arrange_mset: "mset (arrange ord t) = mset t"
proof (cases "distinct (ord (map (\<lambda>e. vhash (fst e)) t)) \<and> set (ord (map (\<lambda>e. vhash (fst e)) t)) = {0..<length t}")
  case True
  let ?p = "ord (map (\<lambda>e. vhash (fst e)) t)"
  have "mset ?p = mset [0..<length t]" using True by (metis distinct_upt set_eq_iff_mset_eq_distinct set_upt)
  then have "mset (map (\<lambda>i. t ! i) ?p) = mset (map (\<lambda>i. t ! i) [0..<length t])" by (simp only: mset_map)
  then show ?thesis using True by (simp add: arrange_def map_nth)
next
  case False
  then show ?thesis by (auto simp: arrange_def Let_def)
qed

lemma stl_inv_mset: "mset s = mset t \<Longrightarrow> stl_inv s = stl_inv t"
  unfolding stl_inv_def by (metis mset_eq_imp_distinct_iff mset_map set_mset_mset)

lemma stl_map_mset:
  assumes "mset s = mset t" "stl_inv t"
  shows "stl_map s = stl_map t"
proof -
  let ?f = "\<lambda>e. (vvalue (fst e), snd e)"
  have "distinct (map fst (map ?f t))" "distinct (map fst (map ?f s))"
    using assms stl_inv_mset [OF assms(1)] by (simp_all add: stl_inv_def o_def)
  moreover have "set (map ?f s) = set (map ?f t)" using mset_eq_setD [OF assms(1)] by simp
  ultimately show ?thesis unfolding stl_map_def using map_of_inject_set by blast
qed

lemma stl_map_append: "stl_map t k = None \<Longrightarrow> stl_map (t @ [(set_value k, v)]) = (stl_map t)(k \<mapsto> v)"
  by (rule ext) (auto simp: stl_map_def map_add_def split: option.splits)

lemma stl_map_dom: "dom (stl_map t) = (\<lambda>e. vvalue (fst e)) ` set t"
  by (auto simp: stl_map_def dom_map_of_conv_image_fst image_image)

lemma Stl_Get_law: "stl_inv t \<Longrightarrow> Stl_Get t (Some k) = Inr (stl_map t k)"
  using stl_find_cases [of t k] by (auto simp: Stl_Get_def Wrap_def)

lemma Stl_Insert_law:
  assumes "stl_inv t"
  shows "\<exists>t'. Stl_Insert ord t (Some k) v = Inr (stl_map t k = None, t') \<and> stl_inv t' \<and>
           stl_map t' = (if stl_map t k = None then (stl_map t)(k \<mapsto> v) else stl_map t) \<and>
           (stl_map t k \<noteq> None \<longrightarrow> t' = t)"
proof -
  have copy: "Copy (Some k) = Inr (set_value k)" by (simp add: Copy_def set_value_def)
  show ?thesis
  proof (cases "stl_map t k")
    case None
    then have find: "stl_find t (set_value k) = []" using stl_find_cases [OF assms, of k] by auto
    let ?t = "t @ [(set_value k, v)]"
    have "k \<notin> (\<lambda>e. vvalue (fst e)) ` set t" using None stl_map_dom [of t] by auto
    then have inv: "stl_inv ?t" using assms by (auto simp: stl_inv_def)
    have "Stl_Insert ord t (Some k) v = Inr (True, arrange ord ?t)"
      by (simp add: Stl_Insert_def copy find)
    moreover have "stl_inv (arrange ord ?t)" using inv stl_inv_mset [OF arrange_mset] by blast
    moreover have "stl_map (arrange ord ?t) = (stl_map t)(k \<mapsto> v)"
      using stl_map_mset [OF arrange_mset inv] stl_map_append [OF None] by simp
    ultimately show ?thesis using None by simp
  next
    case (Some w)
    then have "stl_find t (set_value k) \<noteq> []" using stl_find_cases [OF assms, of k] by auto
    then show ?thesis using assms Some by (simp add: Stl_Insert_def copy)
  qed
qed

lemma stl_split:
  assumes "stl_inv t" "stl_find t (set_value k) = (set_value k, v) # rest"
  shows "t = stl_before t (set_value k) @ (set_value k, v) # rest"
    and "stl_inv (stl_before t (set_value k) @ (set_value k, w) # rest)"
    and "stl_map (stl_before t (set_value k) @ (set_value k, w) # rest) = (stl_map t)(k \<mapsto> w)"
    and "stl_inv (stl_before t (set_value k) @ rest)"
    and "stl_map (stl_before t (set_value k) @ rest) = (stl_map t)(k := None)"
proof -
  let ?b = "stl_before t (set_value k)"
  show t: "t = ?b @ (set_value k, v) # rest" using stl_find_before [of t "set_value k"] assms(2) by simp
  let ?val = "\<lambda>e :: vstring \<times> 'a. vvalue (fst e)"
  have "stl_inv (?b @ (set_value k, v) # rest)" using assms(1) t by simp
  then have d: "distinct (map ?val ?b)" "distinct (map ?val rest)" "k \<notin> ?val ` set ?b" "k \<notin> ?val ` set rest"
    "set (map ?val ?b) \<inter> set (map ?val rest) = {}"
    "\<forall>e\<in>set ?b \<union> set rest. fst e = set_value (?val e)"
    by (auto simp: stl_inv_def)
  show "stl_inv (?b @ (set_value k, w) # rest)" "stl_inv (?b @ rest)"
    using d by (auto simp: stl_inv_def)
  have no: "map_of (map (\<lambda>e. (?val e, snd e)) ?b) k = None" "map_of (map (\<lambda>e. (?val e, snd e)) rest) k = None"
    unfolding map_of_eq_None_iff using d(3,4) by (simp_all add: image_image)
  have m: "stl_map t = stl_map (?b @ (set_value k, v) # rest)" using t by simp
  show "stl_map (?b @ (set_value k, w) # rest) = (stl_map t)(k \<mapsto> w)"
    unfolding m by (rule ext) (auto simp: stl_map_def map_add_def no split: option.splits)
  show "stl_map (?b @ rest) = (stl_map t)(k := None)"
    unfolding m by (rule ext) (auto simp: stl_map_def map_add_def no split: option.splits)
qed

lemma stl_find_suffix_law:
  assumes "stl_inv t" "t = us @ es"
  shows "distinct (map fst (map (\<lambda>e. (vvalue (fst e), snd e)) es))"
    and "\<forall>e\<in>set (map (\<lambda>e. (vvalue (fst e), snd e)) es). stl_map t (fst e) = Some (snd e)"
proof -
  have d: "distinct (map fst (map (\<lambda>e. (vvalue (fst e), snd e)) t))" using assms(1) by (simp add: stl_inv_def o_def)
  then show "distinct (map fst (map (\<lambda>e. (vvalue (fst e), snd e)) es))" using assms(2) by simp
  show "\<forall>e\<in>set (map (\<lambda>e. (vvalue (fst e), snd e)) es). stl_map t (fst e) = Some (snd e)"
  proof
    fix e assume "e \<in> set (map (\<lambda>e. (vvalue (fst e), snd e)) es)"
    then have "(fst e, snd e) \<in> set (map (\<lambda>e. (vvalue (fst e), snd e)) t)" using assms(2) by auto
    then show "stl_map t (fst e) = Some (snd e)" unfolding stl_map_def by (rule map_of_is_SomeI [OF d])
  qed
qed

interpretation stl: string_hashtable Stl_Get "Stl_Insert ord" Stl_Update Stl_Remove Stl_Entries
  Stl_Size stl_inv stl_map
proof unfold_locales
  fix t :: "'v stl_table" and k v and n :: u64
  assume inv: "stl_inv t"
  show "Stl_Get t (Some k) = Inr (stl_map t k)" by (rule Stl_Get_law [OF inv])
  show "\<exists>t'. Stl_Insert ord t (Some k) v = Inr (stl_map t k = None, t') \<and> stl_inv t' \<and>
      stl_map t' = (if stl_map t k = None then (stl_map t)(k \<mapsto> v) else stl_map t) \<and>
      (stl_map t k \<noteq> None \<longrightarrow> t' = t)" by (rule Stl_Insert_law [OF inv])
  show "\<exists>t'. Stl_Update t (Some k) v = Inr (stl_map t k, t') \<and> stl_inv t' \<and>
      stl_map t' = (if stl_map t k = None then stl_map t else (stl_map t)(k \<mapsto> v)) \<and> Stl_Size t' = Stl_Size t"
  proof (cases "stl_find t (set_value k)")
    case Nil
    then show ?thesis using stl_find_cases [OF inv, of k] inv by (auto simp: Stl_Update_def Wrap_def)
  next
    case (Cons e rest)
    then obtain w where w: "stl_find t (set_value k) = (set_value k, w) # rest" "stl_map t k = Some w"
      using stl_find_cases [OF inv, of k] by auto
    have "length t = length (stl_before t (set_value k)) + Suc (length rest)"
      using arg_cong [OF stl_split(1) [OF inv w(1)], of length] by simp
    then show ?thesis using stl_split(2,3) [OF inv w(1), of v] w
      by (simp add: Stl_Update_def Wrap_def Stl_Size_def)
  qed
  show "\<exists>t'. Stl_Remove t (Some k) = Inr (stl_map t k, t') \<and> stl_inv t' \<and> stl_map t' = (stl_map t)(k := None)"
  proof (cases "stl_find t (set_value k)")
    case Nil
    then show ?thesis using stl_find_cases [OF inv, of k] inv by (auto simp: Stl_Remove_def Wrap_def)
  next
    case (Cons e rest)
    then obtain w where w: "stl_find t (set_value k) = (set_value k, w) # rest" "stl_map t k = Some w"
      using stl_find_cases [OF inv, of k] by auto
    then show ?thesis using stl_split(4,5) [OF inv w(1)] by (simp add: Stl_Remove_def Wrap_def)
  qed
  show "\<exists>es. Stl_Entries t None n = Inr (take (unat n) es) \<and> distinct (map fst es) \<and>
      map_of es = stl_map t \<and> length es = Stl_Size t"
    using inv by (intro exI [of _ "map (\<lambda>e. (vvalue (fst e), snd e)) t"])
      (simp add: Stl_Entries_def stl_map_def stl_inv_def Stl_Size_def take_map o_def)
  let ?es = "map (\<lambda>e. (vvalue (fst e), snd e)) (stl_find t (set_value k))"
  have "Stl_Entries t (Some k) n = Inr (take (unat n) ?es)" by (simp add: Stl_Entries_def Wrap_def take_map)
  moreover have "case stl_map t k of None \<Rightarrow> ?es = [] | Some v \<Rightarrow> \<exists>rest. ?es = (k, v) # rest"
    using stl_find_cases [OF inv, of k] by auto
  ultimately show "\<exists>es. Stl_Entries t (Some k) n = Inr (take (unat n) es) \<and> distinct (map fst es) \<and>
      (\<forall>e\<in>set es. stl_map t (fst e) = Some (snd e)) \<and>
      (case stl_map t k of None \<Rightarrow> es = [] | Some v \<Rightarrow> \<exists>rest. es = (k, v) # rest)"
    using stl_find_suffix_law [OF inv stl_find_before [symmetric]] by blast
qed

lemmas lock_defs = Lock_Get_def Lock_Insert_def Lock_Update_def Lock_Remove_def Lock_Entries_def Lock_Size_def

interpretation lock: string_hashtable Lock_Get "Lock_Insert ord" Lock_Update Lock_Remove Lock_Entries
  Lock_Size stl_inv stl_map
  by unfold_locales
     (simp_all only: lock_defs stl.get_law stl.ins_law stl.upd_law stl.rem_law stl.ents_law stl.from_law)

lemma StlHashtable_law: "stl_inv StlHashtable" "stl_map StlHashtable = Map.empty"
  by (simp_all add: StlHashtable_def stl_map_def stl_inv_def)

interpretation stl_class: table_class "stl_ops ord" stl_inv stl_map
  by (simp add: table_class_def table_class_axioms_def stl_ops_def stl.string_hashtable_axioms StlHashtable_law)

interpretation lock_class: table_class "lock_ops ord" stl_inv stl_map
  by (simp add: table_class_def table_class_axioms_def lock_ops_def lock.string_hashtable_axioms StlHashtable_law)

end
