(* ===== verification/DB_Interface.thy ===== *)
theory DB_Interface
  imports Prelude
begin

text \<open>
  The abstract class DB of core/db.h: the status codes and the virtual operations, as a record of
  functions on the state of a database, so that the client is one definition for all back ends.
  The output parameter result of Read and Scan is passed in and returned.
\<close>

type_synonym kvs = "(string \<times> string) list"

definition kOK :: int where "kOK = 0"
definition kErrorNoData :: int where "kErrorNoData = 1"
definition kErrorConflict :: int where "kErrorConflict = 2"

record 's db_ops =
  db_Init :: "'s \<Rightarrow> 's result"
  db_Close :: "'s \<Rightarrow> 's result"
  db_Read :: "'s \<Rightarrow> string \<Rightarrow> string \<Rightarrow> string list option \<Rightarrow> kvs \<Rightarrow> (int \<times> kvs \<times> 's) result"
  db_Scan :: "'s \<Rightarrow> string \<Rightarrow> string \<Rightarrow> int \<Rightarrow> string list option \<Rightarrow> kvs list \<Rightarrow> (int \<times> kvs list \<times> 's) result"
  db_Update :: "'s \<Rightarrow> string \<Rightarrow> string \<Rightarrow> kvs \<Rightarrow> (int \<times> 's) result"
  db_Insert :: "'s \<Rightarrow> string \<Rightarrow> string \<Rightarrow> kvs \<Rightarrow> (int \<times> 's) result"
  db_Delete :: "'s \<Rightarrow> string \<Rightarrow> string \<Rightarrow> (int \<times> 's) result"
  db_printStats :: "'s \<Rightarrow> 's"
  db_getName :: "'s \<Rightarrow> string"

text \<open>
  What the client relies on: from a state in the invariant every operation it calls returns, with
  a status that is not negative, and leaves a state in the invariant.
\<close>

locale db_contract =
  fixes db :: "'s db_ops" and inv :: "'s \<Rightarrow> bool"
  assumes init_ok: "inv s \<Longrightarrow> \<exists>s'. db_Init db s = Inr s' \<and> inv s'"
    and close_ok: "inv s \<Longrightarrow> \<exists>s'. db_Close db s = Inr s' \<and> inv s'"
    and read_ok: "inv s \<Longrightarrow> \<exists>st res' s'. db_Read db s tab key fs res = Inr (st, res', s') \<and> 0 \<le> st \<and> inv s'"
    and scan_ok: "inv s \<Longrightarrow> \<exists>st ress' s'. db_Scan db s tab key n fs ress = Inr (st, ress', s') \<and> 0 \<le> st \<and> inv s'"
    and update_ok: "inv s \<Longrightarrow> \<exists>st s'. db_Update db s tab key vs = Inr (st, s') \<and> 0 \<le> st \<and> inv s'"
    and insert_ok: "inv s \<Longrightarrow> \<exists>st s'. db_Insert db s tab key vs = Inr (st, s') \<and> 0 \<le> st \<and> inv s'"

section \<open>Sequences of calls\<close>

text \<open>
  A call of one of the five data operations, and the statuses and the state after a sequence of
  calls. Results of reads are handed back to the caller and are dropped here.
\<close>

datatype db_call =
    Call_Read string string "string list option"
  | Call_Scan string string int "string list option"
  | Call_Update string string kvs
  | Call_Insert string string kvs
  | Call_Delete string string

fun do_call :: "'s db_ops \<Rightarrow> db_call \<Rightarrow> 's \<Rightarrow> (int \<times> 's) result" where
  "do_call db (Call_Read tab key fs) s = bindR (db_Read db s tab key fs []) (\<lambda>(st, _, s'). Inr (st, s'))"
| "do_call db (Call_Scan tab key n fs) s = bindR (db_Scan db s tab key n fs []) (\<lambda>(st, _, s'). Inr (st, s'))"
| "do_call db (Call_Update tab key vs) s = db_Update db s tab key vs"
| "do_call db (Call_Insert tab key vs) s = db_Insert db s tab key vs"
| "do_call db (Call_Delete tab key) s = db_Delete db s tab key"

fun do_calls :: "'s db_ops \<Rightarrow> db_call list \<Rightarrow> 's \<Rightarrow> (int list \<times> 's) result" where
  "do_calls db [] s = Inr ([], s)"
| "do_calls db (c # cs) s =
     bindR (do_call db c s) (\<lambda>(st, s1).
     bindR (do_calls db cs s1) (\<lambda>(sts, s2). Inr (st # sts, s2)))"

fun call_strings :: "db_call \<Rightarrow> string list" where
  "call_strings (Call_Read tab key fs) = tab # key # (case fs of None \<Rightarrow> [] | Some l \<Rightarrow> l)"
| "call_strings (Call_Scan tab key n fs) = tab # key # (case fs of None \<Rightarrow> [] | Some l \<Rightarrow> l)"
| "call_strings (Call_Update tab key vs) = tab # key # map fst vs @ map snd vs"
| "call_strings (Call_Insert tab key vs) = tab # key # map fst vs @ map snd vs"
| "call_strings (Call_Delete tab key) = [tab, key]"

end
