(* ===== verification/Hashtable_DB.thy ===== *)
theory Hashtable_DB
  imports Hashtables DB_Interface
begin

text \<open>
  HashtableDB of db/hashtable\_db.h and db/hashtable\_db.cc, over any classes of tables, and its
  subclass LockStlDB over lock-protected ones. The key table maps the concatenation of table name
  and key to a table of fields. A field table is reached only through its entry in the key table,
  so the model stores it there and writes it back where the code changes it through the pointer.
  Strings handed to a table are C strings: they end at their first NUL. CopyString copies the C
  string; freeing memory has no effect on the model.
\<close>

section \<open>The class\<close>

text \<open>
  What a subclass chooses: the class of the key table and the class of the field tables it makes.
  The methods of a table are virtual, so the operations take them from here.
\<close>

record ('k, 'f) hashtable_class =
  key_class :: "('k, 'f) table_ops"
  field_class :: "('f, string) table_ops"

record 'k hashtable_db =
  key_table :: 'k
  hdb_name :: string

definition NewFieldHashtable :: "('k, 'f) hashtable_class \<Rightarrow> 'f" where
  "NewFieldHashtable C = op_new (field_class C)"

definition CopyString :: "string \<Rightarrow> string" where
  "CopyString str = c_str str"

definition key_index :: "string \<Rightarrow> string \<Rightarrow> cptr" where
  "key_index table key = Some (c_str (table @ key))"

text \<open>The loop over the requested fields; a field without value is skipped.\<close>

fun read_fields :: "('k, 'f) hashtable_class \<Rightarrow> 'f \<Rightarrow> string list \<Rightarrow> kvs result" where
  "read_fields C ft [] = Inr []"
| "read_fields C ft (f # fs) =
     bindR (op_get (field_class C) ft (Some (c_str f))) (\<lambda>value.
     bindR (read_fields C ft fs) (\<lambda>rest.
     Inr (case value of None \<Rightarrow> rest | Some v \<Rightarrow> (f, v) # rest)))"

text \<open>The default arguments of Entries are a NULL key and the largest size\_t.\<close>

definition read_record :: "('k, 'f) hashtable_class \<Rightarrow> 'f \<Rightarrow> string list option \<Rightarrow> kvs result" where
  "read_record C ft flds = (case flds of
       None \<Rightarrow> op_ents (field_class C) ft None (- 1)
     | Some fs \<Rightarrow> read_fields C ft fs)"

definition HashtableDB_Read ::
  "('k, 'f) hashtable_class \<Rightarrow> 'k hashtable_db \<Rightarrow> string \<Rightarrow> string \<Rightarrow> string list option \<Rightarrow> kvs \<Rightarrow>
   (int \<times> kvs \<times> 'k hashtable_db) result" where
  "HashtableDB_Read C d table key flds res =
     bindR (op_get (key_class C) (key_table d) (key_index table key)) (\<lambda>field_table.
     case field_table of
       None \<Rightarrow> Inr (kErrorNoData, res, d)
     | Some ft \<Rightarrow> bindR (read_record C ft flds) (\<lambda>res'. Inr (kOK, res', d)))"

fun scan_records :: "('k, 'f) hashtable_class \<Rightarrow> string list option \<Rightarrow> (string \<times> 'f) list \<Rightarrow> kvs list result" where
  "scan_records C flds [] = Inr []"
| "scan_records C flds (kp # kps) =
     bindR (read_record C (snd kp) flds) (\<lambda>field_values.
     bindR (scan_records C flds kps) (\<lambda>rest. Inr (field_values # rest)))"

text \<open>The int length becomes a size\_t: a negative one is huge.\<close>

definition HashtableDB_Scan ::
  "('k, 'f) hashtable_class \<Rightarrow> 'k hashtable_db \<Rightarrow> string \<Rightarrow> string \<Rightarrow> int \<Rightarrow> string list option \<Rightarrow> kvs list \<Rightarrow>
   (int \<times> kvs list \<times> 'k hashtable_db) result" where
  "HashtableDB_Scan C d table key len flds res =
     bindR (op_ents (key_class C) (key_table d) (key_index table key) (word_of_int len)) (\<lambda>key_pairs.
     bindR (scan_records C flds key_pairs) (\<lambda>res'. Inr (kOK, res', d)))"

fun insert_fields :: "('k, 'f) hashtable_class \<Rightarrow> 'f \<Rightarrow> kvs \<Rightarrow> (bool \<times> 'f) result" where
  "insert_fields C ft [] = Inr (True, ft)"
| "insert_fields C ft (fp # fps) =
     bindR (op_ins (field_class C) ft (Some (c_str (fst fp))) (CopyString (snd fp))) (\<lambda>(ok, ft').
     if \<not> ok then Inr (False, ft') else insert_fields C ft' fps)"

text \<open>The loop of Update on a new record ignores what Insert returns.\<close>

fun fill_fields :: "('k, 'f) hashtable_class \<Rightarrow> 'f \<Rightarrow> kvs \<Rightarrow> 'f result" where
  "fill_fields C ft [] = Inr ft"
| "fill_fields C ft (fp # fps) =
     bindR (op_ins (field_class C) ft (Some (c_str (fst fp))) (CopyString (snd fp))) (\<lambda>(ok, ft').
     fill_fields C ft' fps)"

fun update_fields :: "('k, 'f) hashtable_class \<Rightarrow> 'f \<Rightarrow> kvs \<Rightarrow> 'f result" where
  "update_fields C ft [] = Inr ft"
| "update_fields C ft (fp # fps) =
     (let value = CopyString (snd fp) in
      bindR (op_upd (field_class C) ft (Some (c_str (fst fp))) value) (\<lambda>(old, ft').
      bindR (if old = None then op_ins (field_class C) ft' (Some (c_str (fst fp))) value else Inr (True, ft'))
        (\<lambda>(ok, ft''). update_fields C ft'' fps)))"

text \<open>The record of a key after a change made through its pointer.\<close>

definition write_back ::
  "('k, 'f) hashtable_class \<Rightarrow> 'k hashtable_db \<Rightarrow> cptr \<Rightarrow> 'f \<Rightarrow> 'k hashtable_db result" where
  "write_back C d k ft =
     bindR (op_upd (key_class C) (key_table d) k ft) (\<lambda>(_, kt). Inr (d\<lparr>key_table := kt\<rparr>))"

definition HashtableDB_Update ::
  "('k, 'f) hashtable_class \<Rightarrow> 'k hashtable_db \<Rightarrow> string \<Rightarrow> string \<Rightarrow> kvs \<Rightarrow> (int \<times> 'k hashtable_db) result" where
  "HashtableDB_Update C d table key vs =
     bindR (op_get (key_class C) (key_table d) (key_index table key)) (\<lambda>field_table.
     case field_table of
       None \<Rightarrow>
         bindR (op_ins (key_class C) (key_table d) (key_index table key) (NewFieldHashtable C)) (\<lambda>(_, kt).
         bindR (fill_fields C (NewFieldHashtable C) vs) (\<lambda>ft.
         bindR (write_back C (d\<lparr>key_table := kt\<rparr>) (key_index table key) ft) (\<lambda>d'. Inr (kOK, d'))))
     | Some ft \<Rightarrow>
         bindR (update_fields C ft vs) (\<lambda>ft'.
         bindR (write_back C d (key_index table key) ft') (\<lambda>d'. Inr (kOK, d'))))"

definition HashtableDB_Insert ::
  "('k, 'f) hashtable_class \<Rightarrow> 'k hashtable_db \<Rightarrow> string \<Rightarrow> string \<Rightarrow> kvs \<Rightarrow> (int \<times> 'k hashtable_db) result" where
  "HashtableDB_Insert C d table key vs =
     bindR (op_get (key_class C) (key_table d) (key_index table key)) (\<lambda>field_table.
     bindR (case field_table of
              None \<Rightarrow> bindR (op_ins (key_class C) (key_table d) (key_index table key) (NewFieldHashtable C))
                        (\<lambda>(_, kt). Inr (NewFieldHashtable C, d\<lparr>key_table := kt\<rparr>))
            | Some ft \<Rightarrow> Inr (ft, d)) (\<lambda>(ft, d).
     bindR (insert_fields C ft vs) (\<lambda>(ok, ft').
     bindR (write_back C d (key_index table key) ft') (\<lambda>d'.
     Inr (if ok then kOK else kErrorConflict, d')))))"

definition HashtableDB_Delete ::
  "('k, 'f) hashtable_class \<Rightarrow> 'k hashtable_db \<Rightarrow> string \<Rightarrow> string \<Rightarrow> (int \<times> 'k hashtable_db) result" where
  "HashtableDB_Delete C d table key =
     bindR (op_rem (key_class C) (key_table d) (key_index table key)) (\<lambda>(field_table, kt).
     Inr (if field_table = None then kErrorNoData else kOK, d\<lparr>key_table := kt\<rparr>))"

text \<open>Init and Close are those of DB and do nothing, unless a subclass overrides them.\<close>

definition hashtable_ops :: "('k, 'f) hashtable_class \<Rightarrow> 'k hashtable_db db_ops" where
  "hashtable_ops C = \<lparr>db_Init = Inr, db_Close = Inr, db_Read = HashtableDB_Read C,
     db_Scan = HashtableDB_Scan C, db_Update = HashtableDB_Update C,
     db_Insert = HashtableDB_Insert C, db_Delete = HashtableDB_Delete C, db_printStats = id,
     db_getName = hdb_name\<rparr>"

section \<open>LockStlDB\<close>

text \<open>
  LockStlDB of db/lock\_stl\_db.hbak chooses LockStlHashtable for both tables; its constructor
  leaves the name empty and Init sets it.
\<close>

type_synonym field_table = "string stl_table"
type_synonym lock_db = "field_table stl_table hashtable_db"

definition LockStlDB_class :: "bucket_order \<Rightarrow> (field_table stl_table, field_table) hashtable_class" where
  "LockStlDB_class ord = \<lparr>key_class = lock_ops ord, field_class = lock_ops ord\<rparr>"

definition LockStlDB :: lock_db where
  "LockStlDB = \<lparr>key_table = StlHashtable, hdb_name = []\<rparr>"

definition LockStlDB_Init :: "lock_db \<Rightarrow> lock_db result" where
  "LockStlDB_Init d = Inr (d\<lparr>hdb_name := ''hashtable''\<rparr>)"

definition LockStlDB_ops :: "bucket_order \<Rightarrow> lock_db db_ops" where
  "LockStlDB_ops ord = (hashtable_ops (LockStlDB_class ord))\<lparr>db_Init := LockStlDB_Init\<rparr>"

section \<open>The abstract database\<close>

text \<open>A map from key indices to records, a record being a map from field names to values.\<close>

definition tables_inv ::
  "('k \<Rightarrow> bool) \<Rightarrow> ('k \<Rightarrow> string \<rightharpoonup> 'f) \<Rightarrow> ('f \<Rightarrow> bool) \<Rightarrow> 'k hashtable_db \<Rightarrow> bool" where
  "tables_inv kinv kmp finv d \<longleftrightarrow> kinv (key_table d) \<and> (\<forall>k ft. kmp (key_table d) k = Some ft \<longrightarrow> finv ft)"

definition tables_abs ::
  "('k \<Rightarrow> string \<rightharpoonup> 'f) \<Rightarrow> ('f \<Rightarrow> string \<rightharpoonup> string) \<Rightarrow> 'k hashtable_db \<Rightarrow> string \<rightharpoonup> (string \<rightharpoonup> string)" where
  "tables_abs kmp fmp d k = map_option fmp (kmp (key_table d) k)"

text \<open>Both for the tables of LockStlDB.\<close>

abbreviation db_inv :: "lock_db \<Rightarrow> bool" where
  "db_inv \<equiv> tables_inv stl_inv stl_map stl_inv"

abbreviation db_abs :: "lock_db \<Rightarrow> string \<rightharpoonup> (string \<rightharpoonup> string)" where
  "db_abs \<equiv> tables_abs stl_map stl_map"

definition c_pairs :: "kvs \<Rightarrow> kvs" where
  "c_pairs vs = map (\<lambda>(f, v). (c_str f, c_str v)) vs"

lemma c_pairs_Cons: "c_pairs (fp # fps) = (c_str (fst fp), c_str (snd fp)) # c_pairs fps"
  by (simp add: c_pairs_def split: prod.splits)

lemma c_pairs_Nil [simp]: "c_pairs [] = []"
  by (simp add: c_pairs_def)

definition abs_insert :: "(string \<rightharpoonup> (string \<rightharpoonup> string)) \<Rightarrow> string \<Rightarrow> kvs \<Rightarrow> int \<times> (string \<rightharpoonup> (string \<rightharpoonup> string))" where
  "abs_insert m k vs =
     (let (ok, r) = insert_spec (case m k of None \<Rightarrow> Map.empty | Some r \<Rightarrow> r) (c_pairs vs)
      in (if ok then kOK else kErrorConflict, m(k \<mapsto> r)))"

definition abs_update :: "(string \<rightharpoonup> (string \<rightharpoonup> string)) \<Rightarrow> string \<Rightarrow> kvs \<Rightarrow> int \<times> (string \<rightharpoonup> (string \<rightharpoonup> string))" where
  "abs_update m k vs =
     (kOK, m(k \<mapsto> (case m k of None \<Rightarrow> map_of (c_pairs vs) | Some r \<Rightarrow> r ++ map_of (rev (c_pairs vs)))))"

definition abs_delete :: "(string \<rightharpoonup> (string \<rightharpoonup> string)) \<Rightarrow> string \<Rightarrow> int \<times> (string \<rightharpoonup> (string \<rightharpoonup> string))" where
  "abs_delete m k = (if m k = None then kErrorNoData else kOK, m(k := None))"

text \<open>What a read may return of a record: all pairs, each field once, or the requested ones.\<close>

definition record_shown :: "(string \<rightharpoonup> string) \<Rightarrow> string list option \<Rightarrow> kvs \<Rightarrow> bool" where
  "record_shown r flds res = (case flds of
       None \<Rightarrow> distinct (map fst res) \<and> map_of res = r
     | Some fs \<Rightarrow> res = [(f, the (r (c_str f))). f \<leftarrow> fs, r (c_str f) \<noteq> None])"

lemma abs_status: "fst (abs_insert m k vs) \<in> {kOK, kErrorConflict}" "fst (abs_update m k vs) = kOK"
  by (auto simp: abs_insert_def abs_update_def case_prod_unfold Let_def)

text \<open>Sequences of calls, with the statuses they return. A scan of the database always succeeds.\<close>

fun abs_call :: "db_call \<Rightarrow> (string \<rightharpoonup> (string \<rightharpoonup> string)) \<Rightarrow> int \<times> (string \<rightharpoonup> (string \<rightharpoonup> string))" where
  "abs_call (Call_Read tab key fs) m = (if m (c_str (tab @ key)) = None then kErrorNoData else kOK, m)"
| "abs_call (Call_Scan tab key n fs) m = (kOK, m)"
| "abs_call (Call_Update tab key vs) m = abs_update m (c_str (tab @ key)) vs"
| "abs_call (Call_Insert tab key vs) m = abs_insert m (c_str (tab @ key)) vs"
| "abs_call (Call_Delete tab key) m = abs_delete m (c_str (tab @ key))"

fun abs_calls :: "db_call list \<Rightarrow> (string \<rightharpoonup> (string \<rightharpoonup> string)) \<Rightarrow> int list \<times> (string \<rightharpoonup> (string \<rightharpoonup> string))" where
  "abs_calls [] m = ([], m)"
| "abs_calls (c # cs) m = (let (st, m1) = abs_call c m; (sts, m2) = abs_calls cs m1 in (st # sts, m2))"

section \<open>The operations refine the abstract ones\<close>

text \<open>HashtableDB relies on the two classes of tables only through what they promise.\<close>

locale hashtable_tables = key: table_class "key_class C" kinv kmp + field: table_class "field_class C" finv fmp
  for C :: "('k, 'f) hashtable_class" and kinv kmp finv fmp
begin

abbreviation inv :: "'k hashtable_db \<Rightarrow> bool" where
  "inv \<equiv> tables_inv kinv kmp finv"

abbreviation contents :: "'k hashtable_db \<Rightarrow> string \<rightharpoonup> (string \<rightharpoonup> string)" where
  "contents \<equiv> tables_abs kmp fmp"

lemma insert_fields_eq: "insert_fields C ft vs = field.insert_all ft (c_pairs vs)"
proof (induction vs arbitrary: ft)
  case (Cons fp fps)
  then show ?case
    by (simp only: insert_fields.simps field.insert_all.simps c_pairs_Cons fst_conv snd_conv CopyString_def
        if_not_P) (auto intro!: arg_cong [of _ _ "bindR _"])
qed simp

lemma update_fields_eq: "update_fields C ft vs = field.upsert_all ft (c_pairs vs)"
proof (induction vs arbitrary: ft)
  case (Cons fp fps)
  then show ?case
    by (simp only: update_fields.simps field.upsert_all.simps c_pairs_Cons fst_conv snd_conv CopyString_def Let_def)
qed simp

lemma fill_fields_law:
  "finv ft \<Longrightarrow> \<exists>ft'. fill_fields C ft vs = Inr ft' \<and> finv ft' \<and> fmp ft' = map_of (c_pairs vs) ++ fmp ft"
proof (induction vs arbitrary: ft)
  case Nil
  then show ?case by simp
next
  case (Cons fp fps)
  let ?f = "c_str (fst fp)" and ?v = "c_str (snd fp)"
  obtain ft1 where 1: "op_ins (field_class C) ft (Some ?f) ?v = Inr (fmp ft ?f = None, ft1)" "finv ft1"
    "fmp ft1 = (if fmp ft ?f = None then (fmp ft)(?f \<mapsto> ?v) else fmp ft)"
    using field.ins_law [OF Cons.prems] by blast
  obtain ft2 where 2: "fill_fields C ft1 fps = Inr ft2" "finv ft2"
    "fmp ft2 = map_of (c_pairs fps) ++ fmp ft1" using Cons.IH [OF 1(2)] by blast
  have "fmp ft2 x = (map_of (c_pairs (fp # fps)) ++ fmp ft) x" for x
    unfolding 2(3) 1(3) c_pairs_Cons by (cases "fmp ft x"; cases "x = ?f") (auto simp: map_add_def)
  then show ?case using 1 2 by (auto simp: CopyString_def)
qed

lemma read_fields_law:
  "finv ft \<Longrightarrow> read_fields C ft fs = Inr [(f, the (fmp ft (c_str f))). f \<leftarrow> fs, fmp ft (c_str f) \<noteq> None]"
  by (induction fs) (auto simp: field.get_law split: option.splits)

text \<open>All entries are returned when there are fewer than \<open>2\<^sup>6\<^sup>4\<close> of them.\<close>

lemma read_record_law:
  assumes "finv ft"
  shows "\<exists>res. read_record C ft flds = Inr res \<and> (card (dom (fmp ft)) < 2 ^ 64 \<longrightarrow> record_shown (fmp ft) flds res)"
proof (cases flds)
  case None
  obtain es where es: "op_ents (field_class C) ft None (- 1) = Inr (take (unat (- 1 :: u64)) es)"
    "distinct (map fst es)" "map_of es = fmp ft"
    using field.ents_law [OF assms, of "- 1"] by blast
  have "length es = card (dom (fmp ft))"
    using distinct_card [OF es(2)] unfolding es(3) [symmetric] by (simp add: dom_map_of_conv_image_fst)
  then have "length es \<le> unat (- 1 :: u64)" if "card (dom (fmp ft)) < 2 ^ 64"
    using that by (simp add: unsigned_minus_1_eq_mask mask_eq_exp_minus_1)
  then show ?thesis using es None by (simp add: read_record_def record_shown_def)
next
  case (Some fs)
  then show ?thesis using read_fields_law [OF assms] by (simp add: read_record_def record_shown_def)
qed

lemma write_back_law:
  assumes "inv d" "kmp (key_table d) k \<noteq> None" "finv ft"
  shows "\<exists>d'. write_back C d (Some k) ft = Inr d' \<and> inv d' \<and> contents d' = (contents d)(k \<mapsto> fmp ft)"
proof -
  have "kinv (key_table d)" using assms(1) by (simp add: tables_inv_def)
  from key.upd_law [OF this, of k ft] obtain kt where
    kt: "op_upd (key_class C) (key_table d) (Some k) ft = Inr (kmp (key_table d) k, kt)" "kinv kt"
    "kmp kt = (kmp (key_table d))(k \<mapsto> ft)" using assms(2) by auto
  have "inv (d\<lparr>key_table := kt\<rparr>)" using assms(1,3) kt by (auto simp: tables_inv_def)
  moreover have "contents (d\<lparr>key_table := kt\<rparr>) = (contents d)(k \<mapsto> fmp ft)"
    by (rule ext) (simp add: tables_abs_def kt(3))
  ultimately show ?thesis by (simp add: write_back_def kt(1))
qed

lemma new_field_table: "finv (NewFieldHashtable C)" "fmp (NewFieldHashtable C) = Map.empty"
  by (simp_all add: NewFieldHashtable_def field.new_law)

lemma new_record_law:
  assumes "inv d" "kmp (key_table d) k = None"
  shows "\<exists>kt. op_ins (key_class C) (key_table d) (Some k) (NewFieldHashtable C) = Inr (True, kt) \<and>
           inv (d\<lparr>key_table := kt\<rparr>) \<and> kmp kt k = Some (NewFieldHashtable C) \<and>
           contents (d\<lparr>key_table := kt\<rparr>) = (contents d)(k \<mapsto> Map.empty)"
proof -
  have "kinv (key_table d)" using assms(1) by (simp add: tables_inv_def)
  from key.ins_law [OF this, of k "NewFieldHashtable C"] obtain kt where
    kt: "op_ins (key_class C) (key_table d) (Some k) (NewFieldHashtable C) = Inr (True, kt)" "kinv kt"
    "kmp kt = (kmp (key_table d))(k \<mapsto> NewFieldHashtable C)" using assms(2) by auto
  have "contents (d\<lparr>key_table := kt\<rparr>) = (contents d)(k \<mapsto> Map.empty)"
    by (rule ext) (simp add: tables_abs_def kt(3) new_field_table)
  then show ?thesis using kt assms(1) by (auto simp: tables_inv_def new_field_table)
qed

lemma key_get: "inv d \<Longrightarrow> op_get (key_class C) (key_table d) (Some k) = Inr (kmp (key_table d) k)"
  by (simp add: tables_inv_def key.get_law)

lemma Insert_refines:
  assumes "inv d"
  shows "\<exists>st d'. HashtableDB_Insert C d tab key vs = Inr (st, d') \<and> inv d' \<and>
           (st, contents d') = abs_insert (contents d) (c_str (tab @ key)) vs"
proof -
  let ?k = "c_str (tab @ key)"
  obtain ft d1 where 1: "(case kmp (key_table d) ?k of
        None \<Rightarrow> bindR (op_ins (key_class C) (key_table d) (Some ?k) (NewFieldHashtable C))
                  (\<lambda>(_, kt). Inr (NewFieldHashtable C, d\<lparr>key_table := kt\<rparr>))
      | Some ft \<Rightarrow> Inr (ft, d)) = Inr (ft, d1)"
    "inv d1" "kmp (key_table d1) ?k \<noteq> None" "finv ft"
    "fmp ft = (case contents d ?k of None \<Rightarrow> Map.empty | Some r \<Rightarrow> r)"
    "\<And>r. (contents d1)(?k \<mapsto> r) = (contents d)(?k \<mapsto> r)"
  proof (cases "kmp (key_table d) ?k")
    case None
    then show ?thesis
      using new_record_law [OF assms None] by (auto intro!: that simp: tables_abs_def new_field_table)
  next
    case (Some ft)
    then show ?thesis using assms by (auto intro!: that [of ft d] simp: tables_abs_def tables_inv_def)
  qed
  let ?m = "case contents d ?k of None \<Rightarrow> Map.empty | Some r \<Rightarrow> r"
  obtain ft2 where 2: "insert_fields C ft vs = Inr (fst (insert_spec ?m (c_pairs vs)), ft2)"
    "finv ft2" "fmp ft2 = snd (insert_spec ?m (c_pairs vs))"
    using field.insert_all_law [OF 1(4), of "c_pairs vs"] unfolding insert_fields_eq 1(5) by blast
  obtain d' where 3: "write_back C d1 (Some ?k) ft2 = Inr d'" "inv d'"
    "contents d' = (contents d)(?k \<mapsto> fmp ft2)"
    using write_back_law [OF 1(2,3) 2(2)] 1(6) by auto
  have "HashtableDB_Insert C d tab key vs =
      Inr (if fst (insert_spec ?m (c_pairs vs)) then kOK else kErrorConflict, d')"
    unfolding HashtableDB_Insert_def key_index_def key_get [OF assms] bindR_Inr 1(1) using 2(1) 3(1) by simp
  then show ?thesis using 2(3) 3(2,3) by (simp add: abs_insert_def case_prod_unfold Let_def)
qed

lemma Update_refines:
  assumes "inv d"
  shows "\<exists>st d'. HashtableDB_Update C d tab key vs = Inr (st, d') \<and> inv d' \<and>
           (st, contents d') = abs_update (contents d) (c_str (tab @ key)) vs"
proof -
  let ?k = "c_str (tab @ key)"
  show ?thesis
  proof (cases "kmp (key_table d) ?k")
    case None
    obtain kt where kt: "op_ins (key_class C) (key_table d) (Some ?k) (NewFieldHashtable C) = Inr (True, kt)"
      "inv (d\<lparr>key_table := kt\<rparr>)" "kmp kt ?k = Some (NewFieldHashtable C)"
      "contents (d\<lparr>key_table := kt\<rparr>) = (contents d)(?k \<mapsto> Map.empty)"
      using new_record_law [OF assms None] by blast
    obtain ft where ft: "fill_fields C (NewFieldHashtable C) vs = Inr ft" "finv ft"
      "fmp ft = map_of (c_pairs vs)"
      using fill_fields_law [OF new_field_table(1), of vs] by (auto simp: new_field_table)
    obtain d' where d': "write_back C (d\<lparr>key_table := kt\<rparr>) (Some ?k) ft = Inr d'" "inv d'"
      "contents d' = (contents d)(?k \<mapsto> map_of (c_pairs vs))"
      using write_back_law [OF kt(2) _ ft(2), of ?k] kt(3,4) ft(3) by auto
    have "contents d ?k = None" using None by (simp add: tables_abs_def)
    then show ?thesis using None kt(1) ft(1) d'
      by (simp add: HashtableDB_Update_def key_index_def key_get [OF assms] abs_update_def)
  next
    case (Some ft)
    then have inv: "finv ft" using assms by (simp add: tables_inv_def)
    obtain ft2 where 2: "update_fields C ft vs = Inr ft2" "finv ft2"
      "fmp ft2 = fmp ft ++ map_of (rev (c_pairs vs))"
      using field.upsert_all_law [OF inv, of "c_pairs vs"] unfolding update_fields_eq by blast
    obtain d' where d': "write_back C d (Some ?k) ft2 = Inr d'" "inv d'"
      "contents d' = (contents d)(?k \<mapsto> fmp ft2)"
      using write_back_law [OF assms _ 2(2)] Some by auto
    have "contents d ?k = Some (fmp ft)" using Some by (simp add: tables_abs_def)
    then show ?thesis using Some 2 d'
      by (simp add: HashtableDB_Update_def key_index_def key_get [OF assms] abs_update_def)
  qed
qed

lemma Delete_refines:
  assumes "inv d"
  shows "\<exists>st d'. HashtableDB_Delete C d tab key = Inr (st, d') \<and> inv d' \<and>
           (st, contents d') = abs_delete (contents d) (c_str (tab @ key))"
proof -
  let ?k = "c_str (tab @ key)"
  have "kinv (key_table d)" using assms by (simp add: tables_inv_def)
  from key.rem_law [OF this, of ?k] obtain kt where
    kt: "op_rem (key_class C) (key_table d) (Some ?k) = Inr (kmp (key_table d) ?k, kt)" "kinv kt"
    "kmp kt = (kmp (key_table d))(?k := None)" by blast
  have "inv (d\<lparr>key_table := kt\<rparr>)" using assms kt by (auto simp: tables_inv_def split: if_splits)
  moreover have "contents (d\<lparr>key_table := kt\<rparr>) = (contents d)(?k := None)"
    by (rule ext) (simp add: tables_abs_def kt(3))
  ultimately show ?thesis
    using kt(1) by (simp add: HashtableDB_Delete_def key_index_def abs_delete_def tables_abs_def)
qed

lemma Read_refines:
  assumes "inv d"
  shows "contents d (c_str (tab @ key)) = None \<Longrightarrow>
            HashtableDB_Read C d tab key flds res = Inr (kErrorNoData, res, d)"
    and "contents d (c_str (tab @ key)) = Some r \<Longrightarrow>
            \<exists>res'. HashtableDB_Read C d tab key flds res = Inr (kOK, res', d) \<and>
               (card (dom r) < 2 ^ 64 \<longrightarrow> record_shown r flds res')"
proof -
  assume "contents d (c_str (tab @ key)) = None"
  then show "HashtableDB_Read C d tab key flds res = Inr (kErrorNoData, res, d)"
    by (simp add: HashtableDB_Read_def key_index_def key_get [OF assms] tables_abs_def)
next
  assume "contents d (c_str (tab @ key)) = Some r"
  then obtain ft where ft: "kmp (key_table d) (c_str (tab @ key)) = Some ft" "fmp ft = r"
    by (auto simp: tables_abs_def)
  have inv: "finv ft" using assms ft(1) by (simp add: tables_inv_def)
  show "\<exists>res'. HashtableDB_Read C d tab key flds res = Inr (kOK, res', d) \<and>
      (card (dom r) < 2 ^ 64 \<longrightarrow> record_shown r flds res')"
    using ft read_record_law [OF inv, of flds]
    by (auto simp: HashtableDB_Read_def key_index_def key_get [OF assms])
qed

lemma scan_records_law:
  "\<forall>kp\<in>set kps. \<exists>ft. kmp (key_table d) (fst kp) = Some (snd kp) \<and> finv (snd kp) \<Longrightarrow>
   \<exists>ress. scan_records C flds kps = Inr ress \<and>
     list_all2 (\<lambda>k res. \<exists>r. contents d k = Some r \<and> (card (dom r) < 2 ^ 64 \<longrightarrow> record_shown r flds res))
       (map fst kps) ress"
proof (induction kps)
  case (Cons kp kps)
  then show ?case using read_record_law [of "snd kp" flds] by (auto simp: tables_abs_def)
qed simp

lemma Scan_returns:
  assumes "inv d"
  shows "\<exists>ks ress. HashtableDB_Scan C d tab key n flds res = Inr (kOK, ress, d) \<and>
           length ress \<le> unat (word_of_int n :: u64) \<and> distinct ks \<and>
           list_all2 (\<lambda>k res. \<exists>r. contents d k = Some r \<and> (card (dom r) < 2 ^ 64 \<longrightarrow> record_shown r flds res)) ks ress \<and>
           (if contents d (c_str (tab @ key)) = None \<or> (word_of_int n :: u64) = 0 then ks = []
            else \<exists>ks'. ks = c_str (tab @ key) # ks')"
proof -
  let ?k = "c_str (tab @ key)" and ?n = "word_of_int n :: u64"
  have "kinv (key_table d)" using assms by (simp add: tables_inv_def)
  from key.from_law [OF this, of ?k ?n] obtain es where
    es: "op_ents (key_class C) (key_table d) (Some ?k) ?n = Inr (take (unat ?n) es)" "distinct (map fst es)"
    "\<forall>e\<in>set es. kmp (key_table d) (fst e) = Some (snd e)"
    "case kmp (key_table d) ?k of None \<Rightarrow> es = [] | Some v \<Rightarrow> \<exists>rest. es = (?k, v) # rest" by blast
  let ?kps = "take (unat ?n) es"
  have "\<forall>kp\<in>set ?kps. \<exists>ft. kmp (key_table d) (fst kp) = Some (snd kp) \<and> finv (snd kp)"
  proof
    fix kp assume "kp \<in> set ?kps"
    then have "kmp (key_table d) (fst kp) = Some (snd kp)" using es(3) in_set_takeD by metis
    then show "\<exists>ft. kmp (key_table d) (fst kp) = Some (snd kp) \<and> finv (snd kp)"
      using assms by (auto simp: tables_inv_def)
  qed
  from scan_records_law [OF this, of flds] obtain ress where ress: "scan_records C flds ?kps = Inr ress"
    "list_all2 (\<lambda>k res. \<exists>r. contents d k = Some r \<and> (card (dom r) < 2 ^ 64 \<longrightarrow> record_shown r flds res))
       (map fst ?kps) ress" by blast
  have "length ress \<le> unat ?n" using list_all2_lengthD [OF ress(2)] by simp
  moreover have "distinct (map fst ?kps)" using es(2) by (simp add: distinct_take flip: take_map)
  moreover have "if contents d ?k = None \<or> ?n = 0 then map fst ?kps = [] else \<exists>ks'. map fst ?kps = ?k # ks'"
  proof (cases "contents d ?k = None \<or> ?n = 0")
    case True
    then show ?thesis using es(4) by (auto simp: tables_abs_def)
  next
    case False
    then have "0 < unat ?n" by (simp add: unat_gt_0)
    then show ?thesis using es(4) False by (cases "unat ?n") (auto simp: tables_abs_def)
  qed
  ultimately show ?thesis using ress
    by (intro exI [of _ "map fst ?kps"] exI [of _ ress]) (simp add: HashtableDB_Scan_def key_index_def es(1))
qed

lemma Read_named:
  assumes "inv d"
  shows "HashtableDB_Read C d tab key (Some fs) res = Inr (case contents d (c_str (tab @ key)) of
      None \<Rightarrow> (kErrorNoData, res, d)
    | Some r \<Rightarrow> (kOK, [(f, the (r (c_str f))). f \<leftarrow> fs, r (c_str f) \<noteq> None], d))"
proof (cases "kmp (key_table d) (c_str (tab @ key))")
  case (Some ft)
  then have "finv ft" using assms by (simp add: tables_inv_def)
  from read_fields_law [OF this, of fs] show ?thesis using Some
    by (simp add: HashtableDB_Read_def key_index_def key_get [OF assms] tables_abs_def read_record_def)
qed (simp add: HashtableDB_Read_def key_index_def key_get [OF assms] tables_abs_def)

lemma refines_split:
  assumes "\<exists>st d'. x = Inr (st, d') \<and> P d' \<and> (st, f d') = p"
  shows "\<exists>d'. x = Inr (fst p, d') \<and> P d' \<and> f d' = snd p"
  using assms by (metis fst_conv snd_conv)

lemma do_call_law:
  assumes "inv d"
  shows "\<exists>d'. do_call (hashtable_ops C) c d = Inr (fst (abs_call c (contents d)), d') \<and> inv d' \<and>
           contents d' = snd (abs_call c (contents d))"
proof (cases c)
  case (Call_Read tab key fs)
  show ?thesis
  proof (cases "contents d (c_str (tab @ key))")
    case None
    then show ?thesis
      using Read_refines(1) [OF assms None, of fs "[]"] assms Call_Read by (simp add: hashtable_ops_def)
  next
    case (Some r)
    then show ?thesis
      using Read_refines(2) [OF assms Some, of fs "[]"] assms Call_Read by (auto simp: hashtable_ops_def)
  qed
next
  case (Call_Scan tab key n fs)
  obtain ress where "HashtableDB_Scan C d tab key n fs [] = Inr (kOK, ress, d)"
    using Scan_returns [OF assms, of tab key n fs "[]"] by blast
  then show ?thesis using assms Call_Scan by (simp add: hashtable_ops_def)
next
  case (Call_Update tab key vs)
  then show ?thesis using refines_split [OF Update_refines [OF assms, of tab key vs]] by (simp add: hashtable_ops_def)
next
  case (Call_Insert tab key vs)
  then show ?thesis using refines_split [OF Insert_refines [OF assms, of tab key vs]] by (simp add: hashtable_ops_def)
next
  case (Call_Delete tab key)
  then show ?thesis using refines_split [OF Delete_refines [OF assms, of tab key]] by (simp add: hashtable_ops_def)
qed

lemma do_calls_law:
  assumes "inv d"
  shows "\<exists>d'. do_calls (hashtable_ops C) cs d = Inr (fst (abs_calls cs (contents d)), d') \<and> inv d' \<and>
           contents d' = snd (abs_calls cs (contents d))"
  using assms
proof (induction cs arbitrary: d)
  case (Cons c cs)
  obtain d1 where d1: "do_call (hashtable_ops C) c d = Inr (fst (abs_call c (contents d)), d1)" "inv d1"
    "contents d1 = snd (abs_call c (contents d))" using do_call_law [OF Cons.prems, of c] by blast
  obtain d2 where "do_calls (hashtable_ops C) cs d1 = Inr (fst (abs_calls cs (contents d1)), d2)" "inv d2"
    "contents d2 = snd (abs_calls cs (contents d1))" using Cons.IH [OF d1(2)] by blast
  then show ?case using d1(1) unfolding d1(3) by (simp add: case_prod_unfold Let_def)
qed simp

lemma contract: "db_contract (hashtable_ops C) inv"
proof unfold_locales
  fix s :: "'k hashtable_db" and tab key fs res and n :: int and ress vs
  assume inv: "inv s"
  show "\<exists>s'. db_Init (hashtable_ops C) s = Inr s' \<and> inv s'" using inv by (simp add: hashtable_ops_def)
  show "\<exists>s'. db_Close (hashtable_ops C) s = Inr s' \<and> inv s'" using inv by (simp add: hashtable_ops_def)
  show "\<exists>st res' s'. db_Read (hashtable_ops C) s tab key fs res = Inr (st, res', s') \<and> 0 \<le> st \<and> inv s'"
  proof (cases "contents s (c_str (tab @ key))")
    case None
    then show ?thesis
      using Read_refines(1) [OF inv, of tab key fs res] inv by (simp add: hashtable_ops_def kErrorNoData_def)
  next
    case (Some r)
    then show ?thesis
      using Read_refines(2) [OF inv, of tab key r fs res] inv by (auto simp: hashtable_ops_def kOK_def)
  qed
  show "\<exists>st ress' s'. db_Scan (hashtable_ops C) s tab key n fs ress = Inr (st, ress', s') \<and> 0 \<le> st \<and> inv s'"
    using Scan_returns [OF inv, of tab key n fs ress] inv by (auto simp: hashtable_ops_def kOK_def)
  show "\<exists>st s'. db_Update (hashtable_ops C) s tab key vs = Inr (st, s') \<and> 0 \<le> st \<and> inv s'"
    using Update_refines [OF inv, of tab key vs] by (auto simp: hashtable_ops_def kOK_def abs_update_def)
  obtain st s' where st: "HashtableDB_Insert C s tab key vs = Inr (st, s')" "inv s'"
    "(st, contents s') = abs_insert (contents s) (c_str (tab @ key)) vs"
    using Insert_refines [OF inv, of tab key vs] by blast
  have "st = fst (abs_insert (contents s) (c_str (tab @ key)) vs)" using st(3) by (metis fst_conv)
  then have "0 \<le> st" using abs_status(1) [of "contents s" "c_str (tab @ key)" vs]
    by (auto simp: kOK_def kErrorConflict_def)
  then show "\<exists>st s'. db_Insert (hashtable_ops C) s tab key vs = Inr (st, s') \<and> 0 \<le> st \<and> inv s'"
    using st by (simp add: hashtable_ops_def)
qed

end

text \<open>A subclass may override Init as long as it keeps the invariant.\<close>

lemma db_contract_Init:
  assumes "db_contract db ok" "\<And>s. ok s \<Longrightarrow> \<exists>s'. f s = Inr s' \<and> ok s'"
  shows "db_contract (db\<lparr>db_Init := f\<rparr>) ok"
  using assms by (simp add: db_contract_def)

lemma do_call_Init: "do_call (db\<lparr>db_Init := f\<rparr>) c s = do_call db c s"
  by (cases c) simp_all

lemma do_calls_Init: "do_calls (db\<lparr>db_Init := f\<rparr>) cs s = do_calls db cs s"
  by (induction cs arbitrary: s) (simp_all add: do_call_Init)

interpretation lock_db: hashtable_tables "LockStlDB_class ord" stl_inv stl_map stl_inv stl_map
  by (simp add: hashtable_tables_def LockStlDB_class_def lock_class.table_class_axioms)

interpretation hashtable_contract: db_contract "LockStlDB_ops ord" db_inv
  unfolding LockStlDB_ops_def
  by (rule db_contract_Init [OF lock_db.contract]) (simp add: LockStlDB_Init_def tables_inv_def)

section \<open>Properties\<close>

lemma LockStlDB_inv: "db_inv LockStlDB" and LockStlDB_abs: "db_abs LockStlDB k = None"
  by (simp_all add: LockStlDB_def tables_inv_def tables_abs_def StlHashtable_law)

text \<open>
  C5. The three writing operations of HashtableDB return from every state in the invariant, keep
  the invariant, and their status and effect are those of the abstract operations on a map from
  key indices (table name and key concatenated) to records: Insert adds fields until the first
  one that is present and reports the conflict, Update writes all fields and creates the record
  where there is none, Delete removes the record or reports its absence. The order in which
  the hash tables keep their buckets plays no role.
\<close>

theorem HashtableDB_refines_map:
  assumes "db_inv d"
  shows "(\<exists>st d'. HashtableDB_Insert (LockStlDB_class ord) d tab key vs = Inr (st, d') \<and> db_inv d' \<and>
            (st, db_abs d') = abs_insert (db_abs d) (c_str (tab @ key)) vs) \<and>
         (\<exists>st d'. HashtableDB_Update (LockStlDB_class ord) d tab key vs = Inr (st, d') \<and> db_inv d' \<and>
            (st, db_abs d') = abs_update (db_abs d) (c_str (tab @ key)) vs) \<and>
         (\<exists>st d'. HashtableDB_Delete (LockStlDB_class ord) d tab key = Inr (st, d') \<and> db_inv d' \<and>
            (st, db_abs d') = abs_delete (db_abs d) (c_str (tab @ key)))"
  using lock_db.Insert_refines [OF assms] lock_db.Update_refines [OF assms] lock_db.Delete_refines [OF assms] by blast

theorem HashtableDB_refines_map_witness:
  "\<exists>d'. HashtableDB_Delete (LockStlDB_class (\<lambda>_. [])) LockStlDB ''t'' ''user1'' = Inr (kErrorNoData, d') \<and> db_inv d'"
  using HashtableDB_refines_map [OF LockStlDB_inv, of "\<lambda>_. []" "''t''" "''user1''" "[]"]
  by (auto simp: abs_delete_def LockStlDB_abs)

lemma finite_map_of_c_pairs: "card (dom (map_of (c_pairs vs))) \<le> length vs"
proof -
  have "dom (map_of (c_pairs vs)) = set (map fst (c_pairs vs))" by (simp add: dom_map_of_conv_image_fst)
  then show ?thesis using card_length [of "map fst (c_pairs vs)"] by (simp add: c_pairs_def)
qed

text \<open>
  C27. Round trip through HashtableDB: inserting a record with different field names under a key
  that has no record succeeds, and reading it back with no field list returns exactly the
  inserted pairs, each once. The reader may split table name and key differently: only their
  concatenation identifies a record, so two tables can share one.
\<close>

theorem HashtableDB_insert_read:
  assumes "db_inv d" "db_abs d (c_str (tab @ key)) = None"
    and "distinct (map fst (c_pairs vs))" "length vs < 2 ^ 64" "tab' @ key' = tab @ key"
  shows "\<exists>d' res. HashtableDB_Insert (LockStlDB_class ord) d tab key vs = Inr (kOK, d') \<and>
           HashtableDB_Read (LockStlDB_class ord) d' tab' key' None res0 = Inr (kOK, res, d') \<and> mset res = mset (c_pairs vs)"
proof -
  have "abs_insert (db_abs d) (c_str (tab @ key)) vs =
      (kOK, (db_abs d)(c_str (tab @ key) \<mapsto> map_of (c_pairs vs)))"
    using insert_spec_fresh [OF assms(3), of Map.empty] assms(2) by (simp add: abs_insert_def)
  then obtain d' where d': "HashtableDB_Insert (LockStlDB_class ord) d tab key vs = Inr (kOK, d')" "db_inv d'"
    "db_abs d' = (db_abs d)(c_str (tab @ key) \<mapsto> map_of (c_pairs vs))"
    using lock_db.Insert_refines [OF assms(1), of ord tab key vs] by auto
  have "card (dom (map_of (c_pairs vs))) < 2 ^ 64"
    using finite_map_of_c_pairs [of vs] assms(4) by linarith
  moreover have "db_abs d' (c_str (tab' @ key')) = Some (map_of (c_pairs vs))"
    using d'(3) assms(5) by simp
  ultimately obtain res where res: "HashtableDB_Read (LockStlDB_class ord) d' tab' key' None res0 = Inr (kOK, res, d')"
    "distinct (map fst res)" "map_of res = map_of (c_pairs vs)"
    using lock_db.Read_refines(2) [OF d'(2), of tab' key' _ ord None res0] by (auto simp: record_shown_def)
  have "set res = set (c_pairs vs)"
    using map_of_inject_set [OF res(2) assms(3)] res(3) by blast
  then have "mset res = mset (c_pairs vs)"
    using res(2) assms(3) by (metis distinct_map set_eq_iff_mset_eq_distinct)
  then show ?thesis using d'(1) res(1) by blast
qed

theorem HashtableDB_insert_read_witness:
  "\<exists>d' res. HashtableDB_Insert (LockStlDB_class (\<lambda>_. [])) LockStlDB ''ab'' ''c'' [(''field0'', ''x''), (''field1'', ''y'')] = Inr (kOK, d') \<and>
     HashtableDB_Read (LockStlDB_class (\<lambda>_. [])) d' ''a'' ''bc'' None [] = Inr (kOK, res, d') \<and>
     mset res = {#(''field0'', ''x''), (''field1'', ''y'')#}"
  using HashtableDB_insert_read [OF LockStlDB_inv LockStlDB_abs, of "[(''field0'', ''x''), (''field1'', ''y'')]" "''a''" "''bc''" "''ab''" "''c''"]
  by (simp add: c_pairs_def c_str_def)

lemma insert_spec_conflict:
  "distinct (map fst us) \<Longrightarrow> set (map fst us) \<inter> dom m = {} \<Longrightarrow> fst kv \<in> dom m \<union> set (map fst us) \<Longrightarrow>
   insert_spec m (us @ kv # ws) = (False, m ++ map_of us)"
proof (induction us arbitrary: m)
  case Nil
  then show ?case by auto
next
  case (Cons u us)
  have no: "m (fst u) = None" using Cons.prems(2) by auto
  have "insert_spec (m(fst u \<mapsto> snd u)) (us @ kv # ws) = (False, m(fst u \<mapsto> snd u) ++ map_of us)"
  proof (rule Cons.IH)
    show "distinct (map fst us)" using Cons.prems(1) by simp
    show "set (map fst us) \<inter> dom (m(fst u \<mapsto> snd u)) = {}"
      using Cons.prems unfolding dom_fun_upd by auto
    show "fst kv \<in> dom (m(fst u \<mapsto> snd u)) \<union> set (map fst us)"
      using Cons.prems unfolding dom_fun_upd by auto
  qed
  moreover have "m(fst u \<mapsto> snd u) ++ map_of us = (m ++ map_of us)(fst u \<mapsto> snd u)"
    using Cons.prems(1) by (intro map_add_upd_left) (simp add: dom_map_of_conv_image_fst)
  moreover have "map_of (u # us) = (map_of us)(fst u \<mapsto> snd u)" by (rule map_of.simps(2))
  ultimately show ?case using no by (simp only: append_Cons insert_spec.simps if_True map_add_upd simp_thms)
qed

lemma c_pairs_append: "c_pairs (us @ vs) = c_pairs us @ c_pairs vs"
  by (simp add: c_pairs_def)

text \<open>
  Insert on a record that has one of the fields is not atomic: it reports a conflict, but the
  fields before the first one present stay inserted, and the value of the field that is present
  is not replaced.
\<close>

theorem HashtableDB_insert_conflict:
  assumes "db_inv d" "db_abs d (c_str (tab @ key)) = Some r"
    and "distinct (map fst (c_pairs us))" "set (map fst (c_pairs us)) \<inter> dom r = {}" "c_str f \<in> dom r"
  shows "\<exists>d'. HashtableDB_Insert (LockStlDB_class ord) d tab key (us @ (f, v) # ws) = Inr (kErrorConflict, d') \<and>
           db_abs d' = (db_abs d)(c_str (tab @ key) \<mapsto> r ++ map_of (c_pairs us))"
proof -
  have "insert_spec r (c_pairs (us @ (f, v) # ws)) = (False, r ++ map_of (c_pairs us))"
    unfolding c_pairs_append c_pairs_Cons using assms(3-5) by (intro insert_spec_conflict) auto
  then have "abs_insert (db_abs d) (c_str (tab @ key)) (us @ (f, v) # ws) =
      (kErrorConflict, (db_abs d)(c_str (tab @ key) \<mapsto> r ++ map_of (c_pairs us)))"
    using assms(2) by (simp add: abs_insert_def)
  then show ?thesis using lock_db.Insert_refines [OF assms(1), of ord tab key "us @ (f, v) # ws"] by auto
qed

definition one_record :: lock_db where
  "one_record = \<lparr>key_table = [(set_value ''tk'', [(set_value ''b'', ''1'')])], hdb_name = ''hashtable''\<rparr>"

lemma one_record_inv: "db_inv one_record"
  by (auto simp: one_record_def tables_inv_def stl_inv_def stl_map_def)

lemma one_record_abs: "db_abs one_record (c_str (''t'' @ ''k'')) = Some [''b'' \<mapsto> ''1'']"
  by (simp add: one_record_def tables_abs_def stl_map_def c_str_def)

theorem HashtableDB_insert_conflict_witness:
  "\<exists>d'. HashtableDB_Insert (LockStlDB_class (\<lambda>_. [])) one_record ''t'' ''k'' [(''a'', ''2''), (''b'', ''3''), (''c'', ''4'')] =
     Inr (kErrorConflict, d') \<and> db_abs d' ''tk'' = Some [''b'' \<mapsto> ''1'', ''a'' \<mapsto> ''2'']"
  using HashtableDB_insert_conflict [OF one_record_inv one_record_abs, of "[(''a'', ''2'')]" "''b''" "\<lambda>_. []" "''3''" "[(''c'', ''4'')]"]
  by (auto simp: c_pairs_def c_str_def)

text \<open>
  C28. Scan always succeeds and changes nothing. The records it returns are those of different
  keys, each shown with the requested fields, no more of them than the length asked for (read as
  a size\_t, so that a negative length is no bound). They begin with the record of the start key;
  when that key has no record, or the length is 0, there are none, whatever other keys the table
  holds.
\<close>

theorem HashtableDB_scan_bounds:
  assumes "db_inv d"
  shows "\<exists>ks ress. HashtableDB_Scan (LockStlDB_class ord) d tab key n flds res = Inr (kOK, ress, d) \<and>
           length ress \<le> unat (word_of_int n :: u64) \<and> distinct ks \<and>
           list_all2 (\<lambda>k res. \<exists>r. db_abs d k = Some r \<and> (card (dom r) < 2 ^ 64 \<longrightarrow> record_shown r flds res)) ks ress \<and>
           (if db_abs d (c_str (tab @ key)) = None \<or> (word_of_int n :: u64) = 0 then ks = []
            else \<exists>ks'. ks = c_str (tab @ key) # ks')"
  by (rule lock_db.Scan_returns [OF assms])

theorem HashtableDB_scan_bounds_witness:
  "HashtableDB_Scan (LockStlDB_class (\<lambda>_. [])) one_record ''t'' ''j'' 5 None [] = Inr (kOK, [], one_record) \<and>
   HashtableDB_Scan (LockStlDB_class (\<lambda>_. [])) one_record ''t'' ''k'' 1 (Some [''b'', ''c'']) [] =
     Inr (kOK, [[(''b'', ''1'')]], one_record)"
proof
  show "HashtableDB_Scan (LockStlDB_class (\<lambda>_. [])) one_record ''t'' ''j'' 5 None [] = Inr (kOK, [], one_record)"
    using HashtableDB_scan_bounds [OF one_record_inv, of "\<lambda>_. []" "''t''" "''j''" 5 None "[]"]
    by (auto simp: one_record_def tables_abs_def stl_map_def c_str_def)
  obtain ks ress where s: "HashtableDB_Scan (LockStlDB_class (\<lambda>_. [])) one_record ''t'' ''k'' 1 (Some [''b'', ''c'']) [] =
      Inr (kOK, ress, one_record)" "length ress \<le> 1"
    "list_all2 (\<lambda>k res. \<exists>r. db_abs one_record k = Some r \<and>
       (card (dom r) < 2 ^ 64 \<longrightarrow> record_shown r (Some [''b'', ''c'']) res)) ks ress"
    "\<exists>ks'. ks = c_str (''t'' @ ''k'') # ks'"
    using HashtableDB_scan_bounds [OF one_record_inv, of "\<lambda>_. []" "''t''" "''k''" 1 "Some [''b'', ''c'']" "[]"]
    unfolding one_record_abs by auto
  obtain rec where rec: "ress = [rec]" "ks = [c_str (''t'' @ ''k'')]"
    using s(2-4) by (auto simp: list_all2_Cons1 le_Suc_eq)
  then have "record_shown [''b'' \<mapsto> ''1''] (Some [''b'', ''c'']) rec" using s(3) one_record_abs by auto
  then show "HashtableDB_Scan (LockStlDB_class (\<lambda>_. [])) one_record ''t'' ''k'' 1 (Some [''b'', ''c'']) [] =
      Inr (kOK, [[(''b'', ''1'')]], one_record)"
    using s(1) rec(1) by (simp add: record_shown_def c_str_def)
qed

end
