(* ===== verification/Basic_DB.thy ===== *)
theory Basic_DB
  imports DB_Interface Cxx_Lib "HOL-Library.Sublist"
begin

text \<open>
  BasicDB of db/basic\_db.h, the back end that only prints. Its state is the text written to
  standard output. Every operation holds the mutex while it writes, so an operation is one step.
\<close>

section \<open>The class\<close>

record basic_db =
  basic_cout :: string

definition put_text :: "basic_db \<Rightarrow> string \<Rightarrow> basic_db" where
  "put_text s msg = s\<lparr>basic_cout := basic_cout s @ msg\<rparr>"

definition BasicDB_Init :: "basic_db \<Rightarrow> basic_db result" where
  "BasicDB_Init s = Inr (put_text s (''A new thread begins working.'' @ endl))"

definition fields_text :: "string list option \<Rightarrow> string" where
  "fields_text flds = (case flds of
       Some fs \<Rightarrow> '' [ '' @ concat (map (\<lambda>f. f @ '' '') fs) @ '']'' @ endl
     | None \<Rightarrow> '' < all fields >'' @ endl)"

definition values_text :: "kvs \<Rightarrow> string" where
  "values_text vs = concat (map (\<lambda>v. fst v @ ''='' @ snd v @ '' '') vs)"

definition BasicDB_Read ::
  "basic_db \<Rightarrow> string \<Rightarrow> string \<Rightarrow> string list option \<Rightarrow> kvs \<Rightarrow> (int \<times> kvs \<times> basic_db) result" where
  "BasicDB_Read s table key flds res =
     Inr (0, res, put_text s (''READ '' @ table @ '' '' @ key @ fields_text flds))"

definition BasicDB_Scan ::
  "basic_db \<Rightarrow> string \<Rightarrow> string \<Rightarrow> int \<Rightarrow> string list option \<Rightarrow> kvs list \<Rightarrow> (int \<times> kvs list \<times> basic_db) result" where
  "BasicDB_Scan s table key len flds res =
     Inr (0, res, put_text s (''SCAN '' @ table @ '' '' @ key @ '' '' @ to_string_int len @ fields_text flds))"

definition BasicDB_Update :: "basic_db \<Rightarrow> string \<Rightarrow> string \<Rightarrow> kvs \<Rightarrow> (int \<times> basic_db) result" where
  "BasicDB_Update s table key vs =
     Inr (0, put_text s (''UPDATE '' @ table @ '' '' @ key @ '' [ '' @ values_text vs @ '']'' @ endl))"

definition BasicDB_Insert :: "basic_db \<Rightarrow> string \<Rightarrow> string \<Rightarrow> kvs \<Rightarrow> (int \<times> basic_db) result" where
  "BasicDB_Insert s table key vs =
     Inr (0, put_text s (''INSERT '' @ table @ '' '' @ key @ '' [ '' @ values_text vs @ '']'' @ endl))"

definition BasicDB_Delete :: "basic_db \<Rightarrow> string \<Rightarrow> string \<Rightarrow> (int \<times> basic_db) result" where
  "BasicDB_Delete s table key = Inr (0, put_text s (''DELETE '' @ table @ '' '' @ key @ endl))"

definition basic_ops :: "basic_db db_ops" where
  "basic_ops = \<lparr>db_Init = BasicDB_Init, db_Close = Inr, db_Read = BasicDB_Read, db_Scan = BasicDB_Scan,
     db_Update = BasicDB_Update, db_Insert = BasicDB_Insert, db_Delete = BasicDB_Delete,
     db_printStats = id, db_getName = (\<lambda>_. ''basic'')\<rparr>"

lemmas basic_db_defs = basic_ops_def BasicDB_Init_def BasicDB_Read_def BasicDB_Scan_def
  BasicDB_Update_def BasicDB_Insert_def BasicDB_Delete_def put_text_def

interpretation basic_contract: db_contract basic_ops "\<lambda>_. True"
  by unfold_locales (simp_all add: basic_db_defs)

section \<open>The log\<close>

definition newlines :: "string \<Rightarrow> nat" where
  "newlines s = length (filter (\<lambda>c. c = CHR 0x0A) s)"

lemma newlines_simps [simp]:
  "newlines [] = 0" "newlines (c # s) = (if c = CHR 0x0A then Suc (newlines s) else newlines s)"
  "newlines (s @ t) = newlines s + newlines t" "newlines endl = 1"
  by (simp_all add: newlines_def endl_def)

lemma newlines_concat: "newlines (concat ss) = sum_list (map newlines ss)"
  by (induction ss) simp_all

lemma newlines_zero: "CHR 0x0A \<notin> set s \<Longrightarrow> newlines s = 0"
  by (auto simp: newlines_def filter_empty_conv)

lemma newlines_digits10: "newlines (digits10 n) = 0"
  using digits10_isdigit [of n] by (intro newlines_zero) (auto simp: isdigit_def)

lemma newlines_to_string_int [simp]: "newlines (to_string_int i) = 0"
  by (simp add: to_string_int_def newlines_digits10)

lemma newlines_values_text:
  "\<forall>s\<in>set (map fst vs @ map snd vs). CHR 0x0A \<notin> set s \<Longrightarrow> newlines (values_text vs) = 0"
  by (induction vs) (auto simp: values_text_def newlines_zero)

lemma newlines_fields_text:
  "\<forall>s\<in>set (case flds of None \<Rightarrow> [] | Some l \<Rightarrow> l). CHR 0x0A \<notin> set s \<Longrightarrow> newlines (fields_text flds) = 1"
  by (auto simp: fields_text_def newlines_concat newlines_zero o_def split: option.splits)

lemma do_call_basic:
  assumes "\<forall>s\<in>set (call_strings c). CHR 0x0A \<notin> set s"
  shows "\<exists>msg. do_call basic_ops c s = Inr (0, put_text s msg) \<and> newlines msg = 1"
proof -
  have "do_call basic_ops c s = Inr (0, put_text s (case c of
      Call_Read tab key fs \<Rightarrow> ''READ '' @ tab @ '' '' @ key @ fields_text fs
    | Call_Scan tab key n fs \<Rightarrow> ''SCAN '' @ tab @ '' '' @ key @ '' '' @ to_string_int n @ fields_text fs
    | Call_Update tab key vs \<Rightarrow> ''UPDATE '' @ tab @ '' '' @ key @ '' [ '' @ values_text vs @ '']'' @ endl
    | Call_Insert tab key vs \<Rightarrow> ''INSERT '' @ tab @ '' '' @ key @ '' [ '' @ values_text vs @ '']'' @ endl
    | Call_Delete tab key \<Rightarrow> ''DELETE '' @ tab @ '' '' @ key @ endl))" (is "_ = Inr (0, put_text s ?msg)")
    by (cases c) (simp_all add: basic_db_defs)
  moreover have "newlines ?msg = 1"
    using assms by (cases c) (simp_all add: newlines_zero newlines_values_text newlines_fields_text ball_Un)
  ultimately show ?thesis by blast
qed

text \<open>
  The log of BasicDB has one line per call: any sequence of calls returns, every status
  is zero, nothing already written changes, and when no argument contains a newline the
  number of lines grows by exactly the number of calls.
\<close>

theorem BasicDB_one_line_per_call:
  assumes "\<forall>c\<in>set cs. \<forall>t\<in>set (call_strings c). CHR 0x0A \<notin> set t"
  shows "\<exists>s'. do_calls basic_ops cs s = Inr (replicate (length cs) 0, s') \<and>
           prefix (basic_cout s) (basic_cout s') \<and>
           newlines (basic_cout s') = newlines (basic_cout s) + length cs"
  using assms
proof (induction cs arbitrary: s)
  case (Cons c cs)
  obtain msg where c: "do_call basic_ops c s = Inr (0, put_text s msg)" "newlines msg = 1"
    using do_call_basic [of c s] Cons.prems by auto
  obtain s' where s': "do_calls basic_ops cs (put_text s msg) = Inr (replicate (length cs) 0, s')"
    "prefix (basic_cout (put_text s msg)) (basic_cout s')"
    "newlines (basic_cout s') = newlines (basic_cout (put_text s msg)) + length cs"
    using Cons.IH [of "put_text s msg"] Cons.prems by auto
  have "prefix (basic_cout s) (basic_cout s')" using s'(2) by (auto simp: put_text_def prefix_def)
  then show ?case using c s' by (simp add: put_text_def)
qed simp

theorem BasicDB_one_line_per_call_witness:
  "\<exists>s'. do_calls basic_ops [Call_Insert ''t'' ''user1'' [(''field0'', ''x'')], Call_Read ''t'' ''user1'' None]
     \<lparr>basic_cout = []\<rparr> = Inr ([0, 0], s') \<and> newlines (basic_cout s') = 2"
  using BasicDB_one_line_per_call [of "[Call_Insert ''t'' ''user1'' [(''field0'', ''x'')], Call_Read ''t'' ''user1'' None]"
      "\<lparr>basic_cout = []\<rparr>"]
  by (auto simp: numeral_2_eq_2)

end
