(* ===== verification/Config.thy ===== *)
theory Config
  imports Cxx_Lib
begin

text \<open>
  ConfigRocksDB of utils/rocksdb\_config.h. The property tree and its INI parser are boost's, so
  they are parameters: a record with the reader of a file and the typed lookups by path. A
  lookup that finds no node raises \<open>Bad_path\<close> and one whose text does not convert
  raises \<open>Bad_data\<close>; init reads the keys in the order of the code and stops at the
  first exception.
\<close>

section \<open>The library\<close>

record 'pt ptree_lib =
  pt_read_ini :: "string \<Rightarrow> 'pt result"
  pt_get_int :: "'pt \<Rightarrow> string \<Rightarrow> int result"
  pt_get_bool :: "'pt \<Rightarrow> string \<Rightarrow> bool result"
  pt_get_size :: "'pt \<Rightarrow> string \<Rightarrow> u64 result"
  pt_get_double :: "'pt \<Rightarrow> string \<Rightarrow> double result"

section \<open>The class\<close>

text \<open>The tree itself is read only by init and is not kept. size\_t and uint64\_t are the same type.\<close>

record config_rocksdb =
  cfg_bloomBits :: int
  cfg_seekCompaction :: bool
  cfg_compression :: bool
  cfg_directIO :: bool
  cfg_noCompaction :: bool
  cfg_numThreads :: int
  cfg_gcThreads :: int
  cfg_maxSortedRuns :: int
  cfg_sizeRatio :: int
  cfg_blockCache :: u64
  cfg_gcSize :: u64
  cfg_memtable :: u64
  cfg_maxFileSize :: u64
  cfg_smallThresh :: u64
  cfg_midThresh :: u64
  cfg_preheat :: bool
  cfg_gcLevel :: int
  cfg_mergeLevel :: int
  cfg_runGC :: bool
  cfg_gcWB :: bool
  cfg_tiered :: bool
  cfg_levelMerge :: bool
  cfg_rangeMerge :: bool
  cfg_sep_before_flush :: bool
  cfg_GCRatio :: double
  cfg_blockWriteSize :: u64
  cfg_disableWAL :: bool
  cfg_memtableNum :: int

definition ConfigRocksDB_init :: "'pt ptree_lib \<Rightarrow> string \<Rightarrow> config_rocksdb result" where
  "ConfigRocksDB_init L dbConfig =
     bindR (pt_read_ini L dbConfig) (\<lambda>pt.
     bindR (pt_get_int L pt ''config.bloomBits'') (\<lambda>v_bloomBits.
     bindR (pt_get_bool L pt ''config.seekCompaction'') (\<lambda>v_seekCompaction.
     bindR (pt_get_bool L pt ''config.compression'') (\<lambda>v_compression.
     bindR (pt_get_bool L pt ''config.directIO'') (\<lambda>v_directIO.
     bindR (pt_get_size L pt ''config.blockCache'') (\<lambda>v_blockCache.
     bindR (pt_get_int L pt ''config.sizeRatio'') (\<lambda>v_sizeRatio.
     bindR (pt_get_size L pt ''config.gcSize'') (\<lambda>v_gcSize.
     bindR (pt_get_size L pt ''config.memtable'') (\<lambda>v_memtable.
     bindR (pt_get_size L pt ''config.maxFileSize'') (\<lambda>v_maxFileSize.
     bindR (pt_get_bool L pt ''config.noCompaction'') (\<lambda>v_noCompaction.
     bindR (pt_get_int L pt ''config.numThreads'') (\<lambda>v_numThreads.
     bindR (pt_get_size L pt ''config.smallThresh'') (\<lambda>v_smallThresh.
     bindR (pt_get_size L pt ''config.midThresh'') (\<lambda>v_midThresh.
     bindR (pt_get_bool L pt ''config.preheat'') (\<lambda>v_preheat.
     bindR (pt_get_int L pt ''config.gcLevel'') (\<lambda>v_gcLevel.
     bindR (pt_get_int L pt ''config.mergeLevel'') (\<lambda>v_mergeLevel.
     bindR (pt_get_bool L pt ''config.runGC'') (\<lambda>v_runGC.
     bindR (pt_get_bool L pt ''config.gcWB'') (\<lambda>v_gcWB.
     bindR (pt_get_bool L pt ''config.tiered'') (\<lambda>v_tiered.
     bindR (pt_get_bool L pt ''config.levelMerge'') (\<lambda>v_levelMerge.
     bindR (pt_get_bool L pt ''config.rangeMerge'') (\<lambda>v_rangeMerge.
     bindR (pt_get_bool L pt ''config.sepBeforeFlush'') (\<lambda>v_sep_before_flush.
     bindR (pt_get_int L pt ''config.gcThreads'') (\<lambda>v_gcThreads.
     bindR (pt_get_int L pt ''config.maxSortedRuns'') (\<lambda>v_maxSortedRuns.
     bindR (pt_get_double L pt ''config.gcRatio'') (\<lambda>v_GCRatio.
     bindR (pt_get_size L pt ''config.blockWriteSize'') (\<lambda>v_blockWriteSize.
     bindR (pt_get_bool L pt ''config.disableWAL'') (\<lambda>v_disableWAL.
     bindR (pt_get_int L pt ''config.memtableNum'') (\<lambda>v_memtableNum.
     Inr \<lparr>cfg_bloomBits = v_bloomBits, cfg_seekCompaction = v_seekCompaction, cfg_compression = v_compression,
       cfg_directIO = v_directIO, cfg_noCompaction = v_noCompaction, cfg_numThreads = v_numThreads,
       cfg_gcThreads = v_gcThreads, cfg_maxSortedRuns = v_maxSortedRuns, cfg_sizeRatio = v_sizeRatio,
       cfg_blockCache = v_blockCache, cfg_gcSize = v_gcSize, cfg_memtable = v_memtable,
       cfg_maxFileSize = v_maxFileSize, cfg_smallThresh = v_smallThresh, cfg_midThresh = v_midThresh,
       cfg_preheat = v_preheat, cfg_gcLevel = v_gcLevel, cfg_mergeLevel = v_mergeLevel,
       cfg_runGC = v_runGC, cfg_gcWB = v_gcWB, cfg_tiered = v_tiered,
       cfg_levelMerge = v_levelMerge, cfg_rangeMerge = v_rangeMerge, cfg_sep_before_flush = v_sep_before_flush,
       cfg_GCRatio = v_GCRatio, cfg_blockWriteSize = v_blockWriteSize, cfg_disableWAL = v_disableWAL,
       cfg_memtableNum = v_memtableNum\<rparr>)))))))))))))))))))))))))))))"

definition getBloomBits :: "config_rocksdb \<Rightarrow> int" where "getBloomBits c = cfg_bloomBits c"
definition getSeekCompaction :: "config_rocksdb \<Rightarrow> bool" where "getSeekCompaction c = cfg_seekCompaction c"
definition getCompression :: "config_rocksdb \<Rightarrow> bool" where "getCompression c = cfg_compression c"
definition getDirectIO :: "config_rocksdb \<Rightarrow> bool" where "getDirectIO c = cfg_directIO c"
definition getNoCompaction :: "config_rocksdb \<Rightarrow> bool" where "getNoCompaction c = cfg_noCompaction c"
definition getNumThreads :: "config_rocksdb \<Rightarrow> int" where "getNumThreads c = cfg_numThreads c"
definition getGCThreads :: "config_rocksdb \<Rightarrow> int" where "getGCThreads c = cfg_gcThreads c"
definition getMaxSortedRuns :: "config_rocksdb \<Rightarrow> int" where "getMaxSortedRuns c = cfg_maxSortedRuns c"
definition getSizeRatio :: "config_rocksdb \<Rightarrow> int" where "getSizeRatio c = cfg_sizeRatio c"
definition getBlockCache :: "config_rocksdb \<Rightarrow> u64" where "getBlockCache c = cfg_blockCache c"
definition getGcSize :: "config_rocksdb \<Rightarrow> u64" where "getGcSize c = cfg_gcSize c"
definition getMemtable :: "config_rocksdb \<Rightarrow> u64" where "getMemtable c = cfg_memtable c"
definition getMaxFileSize :: "config_rocksdb \<Rightarrow> u64" where "getMaxFileSize c = cfg_maxFileSize c"
definition getSmallThresh :: "config_rocksdb \<Rightarrow> u64" where "getSmallThresh c = cfg_smallThresh c"
definition getMidThresh :: "config_rocksdb \<Rightarrow> u64" where "getMidThresh c = cfg_midThresh c"
definition getPreheat :: "config_rocksdb \<Rightarrow> bool" where "getPreheat c = cfg_preheat c"
definition getGCLevel :: "config_rocksdb \<Rightarrow> int" where "getGCLevel c = cfg_gcLevel c"
definition getMergeLevel :: "config_rocksdb \<Rightarrow> int" where "getMergeLevel c = cfg_mergeLevel c"
definition getRunGC :: "config_rocksdb \<Rightarrow> bool" where "getRunGC c = cfg_runGC c"
definition getGCWB :: "config_rocksdb \<Rightarrow> bool" where "getGCWB c = cfg_gcWB c"
definition getTiered :: "config_rocksdb \<Rightarrow> bool" where "getTiered c = cfg_tiered c"
definition getLevelMerge :: "config_rocksdb \<Rightarrow> bool" where "getLevelMerge c = cfg_levelMerge c"
definition getRangeMerge :: "config_rocksdb \<Rightarrow> bool" where "getRangeMerge c = cfg_rangeMerge c"
definition getSepBeforeFlush :: "config_rocksdb \<Rightarrow> bool" where "getSepBeforeFlush c = cfg_sep_before_flush c"
definition getGCRatio :: "config_rocksdb \<Rightarrow> double" where "getGCRatio c = cfg_GCRatio c"
definition getBlockWriteSize :: "config_rocksdb \<Rightarrow> u64" where "getBlockWriteSize c = cfg_blockWriteSize c"
definition getDisableWAL :: "config_rocksdb \<Rightarrow> bool" where "getDisableWAL c = cfg_disableWAL c"
definition getMemtableNum :: "config_rocksdb \<Rightarrow> int" where "getMemtableNum c = cfg_memtableNum c"

lemmas config_getters = getBloomBits_def getSeekCompaction_def getCompression_def getDirectIO_def getNoCompaction_def
  getNumThreads_def getGCThreads_def getMaxSortedRuns_def getSizeRatio_def getBlockCache_def
  getGcSize_def getMemtable_def getMaxFileSize_def getSmallThresh_def getMidThresh_def
  getPreheat_def getGCLevel_def getMergeLevel_def getRunGC_def getGCWB_def
  getTiered_def getLevelMerge_def getRangeMerge_def getSepBeforeFlush_def getGCRatio_def
  getBlockWriteSize_def getDisableWAL_def getMemtableNum_def

section \<open>Which files are accepted\<close>

text \<open>The keys of the file, by the type init reads them with.\<close>

definition int_keys :: "string list" where
  "int_keys = map (\<lambda>k. ''config.'' @ k) [''bloomBits'', ''sizeRatio'', ''numThreads'', ''gcLevel'', ''mergeLevel'', ''gcThreads'', ''maxSortedRuns'', ''memtableNum'']"

definition bool_keys :: "string list" where
  "bool_keys = map (\<lambda>k. ''config.'' @ k) [''seekCompaction'', ''compression'', ''directIO'', ''noCompaction'', ''preheat'', ''runGC'', ''gcWB'', ''tiered'', ''levelMerge'', ''rangeMerge'', ''sepBeforeFlush'', ''disableWAL'']"

definition size_keys :: "string list" where
  "size_keys = map (\<lambda>k. ''config.'' @ k) [''blockCache'', ''gcSize'', ''memtable'', ''maxFileSize'', ''smallThresh'', ''midThresh'', ''blockWriteSize'']"

definition double_keys :: "string list" where
  "double_keys = map (\<lambda>k. ''config.'' @ k) [''gcRatio'']"

text \<open>What init stores is what the file has under the key of the same meaning; the ones the back ends use.\<close>

lemma config_values:
  assumes "ConfigRocksDB_init L f = Inr c"
  shows "\<exists>pt. pt_read_ini L f = Inr pt \<and>
    pt_get_size L pt ''config.memtable'' = Inr (getMemtable c) \<and> pt_get_int L pt ''config.memtableNum'' = Inr (getMemtableNum c) \<and>
    pt_get_size L pt ''config.maxFileSize'' = Inr (getMaxFileSize c) \<and> pt_get_size L pt ''config.blockCache'' = Inr (getBlockCache c) \<and>
    pt_get_int L pt ''config.numThreads'' = Inr (getNumThreads c) \<and> pt_get_bool L pt ''config.noCompaction'' = Inr (getNoCompaction c) \<and>
    pt_get_bool L pt ''config.tiered'' = Inr (getTiered c) \<and> pt_get_bool L pt ''config.compression'' = Inr (getCompression c) \<and>
    pt_get_bool L pt ''config.disableWAL'' = Inr (getDisableWAL c)"
  using assms unfolding ConfigRocksDB_init_def bindR_eq_Inr_iff
  by (elim exE conjE) (intro exI conjI, assumption, auto simp: config_getters)

section \<open>The files of the repository\<close>

text \<open>A property tree with the one section config as a map from keys to texts, and the conversions the shipped files need.\<close>

definition config_at :: "(string \<rightharpoonup> string) \<Rightarrow> string \<Rightarrow> string option" where
  "config_at pt k = (if take 7 k = ''config.'' then pt (drop 7 k) else None)"

definition map_ptree :: "(string \<rightharpoonup> (string \<rightharpoonup> string)) \<Rightarrow> (string \<rightharpoonup> string) ptree_lib" where
  "map_ptree files = \<lparr>
     pt_read_ini = (\<lambda>f. case files f of None \<Rightarrow> Inl (Bad_data f) | Some pt \<Rightarrow> Inr pt),
     pt_get_int = (\<lambda>pt k. case config_at pt k of None \<Rightarrow> Inl (Bad_path k) | Some s \<Rightarrow> stoi s),
     pt_get_bool = (\<lambda>pt k. case config_at pt k of None \<Rightarrow> Inl (Bad_path k) | Some s \<Rightarrow>
        if s = ''true'' then Inr True else if s = ''false'' then Inr False else Inl (Bad_data k)),
     pt_get_size = (\<lambda>pt k. case config_at pt k of None \<Rightarrow> Inl (Bad_path k) | Some s \<Rightarrow>
        if list_all isdigit s \<and> s \<noteq> [] then Inr (of_nat (num10 s)) else Inl (Bad_data k)),
     pt_get_double = (\<lambda>pt k. case config_at pt k of None \<Rightarrow> Inl (Bad_path k) | Some s \<Rightarrow> stod s)\<rparr>"

text \<open>The contents of db\_config/leveldb\_config.ini and db\_config/rocksdb\_config.ini.\<close>

definition leveldb_ini :: "string \<rightharpoonup> string" where
  "leveldb_ini = map_of
    [(''bloomBits'', ''10''), (''seekCompaction'', ''false''), (''compression'', ''false''),
     (''directIO'', ''false''), (''blockCache'', ''0''), (''sizeRatio'', ''10''),
     (''gcSize'', ''0''), (''memtable'', ''67108864''), (''maxFileSize'', ''67108864''),
     (''noCompaction'', ''false''), (''smallThresh'', ''128''), (''numThreads'', ''2''),
     (''midThresh'', ''8192''), (''gcRatio'', ''0.3''), (''preheat'', ''false''),
     (''mergeLevel'', ''1''), (''gcLevel'', ''2''), (''runGC'', ''true''),
     (''gcWB'', ''false''), (''tiered'', ''false''), (''levelMerge'', ''true''),
     (''rangeMerge'', ''true''), (''sepBeforeFlush'', ''true''), (''gcThreads'', ''4''),
     (''maxSortedRuns'', ''10''), (''blockWriteSize'', ''0''), (''disableWAL'', ''false''),
     (''memtableNum'', ''2'')]"

definition rocksdb_ini :: "string \<rightharpoonup> string" where
  "rocksdb_ini = map_of
    [(''bloomBits'', ''10''), (''seekCompaction'', ''false''), (''compression'', ''false''),
     (''directIO'', ''false''), (''blockCache'', ''8589934592''), (''sizeRatio'', ''10''),
     (''gcSize'', ''0''), (''memtable'', ''67108864''), (''noCompaction'', ''false''),
     (''smallThresh'', ''128''), (''numThreads'', ''2''), (''midThresh'', ''8192''),
     (''gcRatio'', ''0.3''), (''preheat'', ''false''), (''mergeLevel'', ''1''),
     (''gcLevel'', ''2''), (''runGC'', ''true''), (''gcWB'', ''false''),
     (''tiered'', ''false''), (''levelMerge'', ''true''), (''rangeMerge'', ''true''),
     (''sepBeforeFlush'', ''true''), (''gcThreads'', ''4''), (''maxSortedRuns'', ''10''),
     (''blockWriteSize'', ''0''), (''disableWAL'', ''false''), (''memtableNum'', ''2'')]"

definition shipped_ptree :: "(string \<rightharpoonup> string) ptree_lib" where
  "shipped_ptree = map_ptree [''leveldb_config.ini'' \<mapsto> leveldb_ini, ''rocksdb_config.ini'' \<mapsto> rocksdb_ini]"

lemma shipped_ints: "stoi ''10'' = Inr 10" "stoi ''2'' = Inr 2" "stoi ''1'' = Inr 1" "stoi ''4'' = Inr 4"
  by code_simp+

lemma shipped_ratio: "stod ''0.3'' = Inr (Fin (5404319552844595 / 18014398509481984))"
  by code_simp

lemma ball_keys: "(\<forall>k\<in>set (map (\<lambda>k. ''config.'' @ k) ks). P k) \<longleftrightarrow> (\<forall>k\<in>set ks. P (''config.'' @ k))"
  by auto

lemma config_at_key: "config_at pt (''config.'' @ k) = pt k"
  by (simp add: config_at_def)

lemma init_accepts:
  "(\<exists>c. ConfigRocksDB_init L f = Inr c) \<longleftrightarrow>
   (\<exists>pt. pt_read_ini L f = Inr pt \<and>
      (\<forall>k\<in>set int_keys. \<exists>v. pt_get_int L pt k = Inr v) \<and>
      (\<forall>k\<in>set bool_keys. \<exists>v. pt_get_bool L pt k = Inr v) \<and>
      (\<forall>k\<in>set size_keys. \<exists>v. pt_get_size L pt k = Inr v) \<and>
      (\<forall>k\<in>set double_keys. \<exists>v. pt_get_double L pt k = Inr v))"
  unfolding ConfigRocksDB_init_def int_keys_def bool_keys_def size_keys_def double_keys_def
  by (simp add: bindR_returns) blast

lemma shipped_read:
  "pt_read_ini shipped_ptree ''leveldb_config.ini'' = Inr leveldb_ini"
  "pt_read_ini shipped_ptree ''rocksdb_config.ini'' = Inr rocksdb_ini"
  by (simp_all add: shipped_ptree_def map_ptree_def)

lemma leveldb_ini_keys:
  "(\<forall>k\<in>set int_keys. \<exists>v. pt_get_int shipped_ptree leveldb_ini k = Inr v) \<and>
   (\<forall>k\<in>set bool_keys. \<exists>v. pt_get_bool shipped_ptree leveldb_ini k = Inr v) \<and>
   (\<forall>k\<in>set size_keys. \<exists>v. pt_get_size shipped_ptree leveldb_ini k = Inr v) \<and>
   (\<forall>k\<in>set double_keys. \<exists>v. pt_get_double shipped_ptree leveldb_ini k = Inr v)"
  unfolding int_keys_def bool_keys_def size_keys_def double_keys_def ball_keys
  unfolding shipped_ptree_def map_ptree_def ptree_lib.simps config_at_key
  by (simp add: leveldb_ini_def shipped_ints shipped_ratio isdigit_def) blast

lemma rocksdb_ini_keys: "\<not> (\<forall>k\<in>set size_keys. \<exists>v. pt_get_size shipped_ptree rocksdb_ini k = Inr v)"
proof -
  have "''config.maxFileSize'' \<in> set size_keys" by (simp add: size_keys_def)
  moreover have "config_at rocksdb_ini ''config.maxFileSize'' = None"
    by (simp add: config_at_def rocksdb_ini_def)
  ultimately show ?thesis by (force simp: shipped_ptree_def map_ptree_def)
qed

lemma shipped_files:
  "(\<exists>c. ConfigRocksDB_init shipped_ptree ''leveldb_config.ini'' = Inr c) \<and>
   \<not> (\<exists>c. ConfigRocksDB_init shipped_ptree ''rocksdb_config.ini'' = Inr c)"
  unfolding init_accepts shipped_read using leveldb_ini_keys rocksdb_ini_keys by simp

text \<open>
  C32. The configuration is accepted exactly when the file parses and each of its keys is present and
  convertible: all of them are mandatory, also those no back end uses.
\<close>

theorem ConfigRocksDB_init_accepts:
  "(\<exists>c. ConfigRocksDB_init L f = Inr c) \<longleftrightarrow>
   (\<exists>pt. pt_read_ini L f = Inr pt \<and>
      (\<forall>k\<in>set int_keys. \<exists>v. pt_get_int L pt k = Inr v) \<and>
      (\<forall>k\<in>set bool_keys. \<exists>v. pt_get_bool L pt k = Inr v) \<and>
      (\<forall>k\<in>set size_keys. \<exists>v. pt_get_size L pt k = Inr v) \<and>
      (\<forall>k\<in>set double_keys. \<exists>v. pt_get_double L pt k = Inr v))"
  by (rule init_accepts)

theorem ConfigRocksDB_init_accepts_witness:
  "(\<exists>c. ConfigRocksDB_init shipped_ptree ''leveldb_config.ini'' = Inr c) \<and>
   \<not> (\<exists>c. ConfigRocksDB_init shipped_ptree ''rocksdb_config.ini'' = Inr c)"
  unfolding ConfigRocksDB_init_accepts shipped_read using leveldb_ini_keys rocksdb_ini_keys by simp

end
