(* ===== verification/Kv_DBs.thy ===== *)
theory Kv_DBs
  imports Basic_DB Config "HOL-Library.List_Lexorder" "HOL-Library.Char_ord"
begin

text \<open>
  The drivers for the two key-value engines: class RocksDB of db/rocksdb\_db.h and
  db/rocksdb\_db.cc and class LevelDB of db/leveldb\_db.h and db/leveldb\_db.cc. The engines are
  libraries, so their operations are a parameter, a record; what is assumed of them (a map from
  keys to values with an ordered iterator) is the predicate \<open>kv_law\<close>, and only the lemmas that
  name it use it. Text written to standard output and error is part of the state; what is
  written just before a call of exit is part of that outcome.
\<close>

section \<open>The engines\<close>

text \<open>The three cases of a Status that the drivers distinguish.\<close>

datatype kv_status = St_ok | St_NotFound | St_error string

text \<open>
  Get returns a status and a value, Put takes the flag disableWAL of the write options, an
  iterator is sought, tested, read and advanced, and GetProperty takes the old text and returns
  the new one.
\<close>

record ('o, 'd, 'i) kv_lib =
  lib_Options :: 'o
  lib_Open :: "'o \<Rightarrow> string \<Rightarrow> kv_status \<times> 'd"
  lib_ToString :: "kv_status \<Rightarrow> string"
  lib_Get :: "'d \<Rightarrow> string \<Rightarrow> kv_status \<times> string"
  lib_Put :: "bool \<Rightarrow> 'd \<Rightarrow> string \<Rightarrow> string \<Rightarrow> kv_status \<times> 'd"
  lib_NewIterator :: "'d \<Rightarrow> 'i"
  lib_Seek :: "'i \<Rightarrow> string \<Rightarrow> 'i"
  lib_Valid :: "'i \<Rightarrow> bool"
  lib_key :: "'i \<Rightarrow> string"
  lib_value :: "'i \<Rightarrow> string"
  lib_Next :: "'i \<Rightarrow> 'i"
  lib_GetProperty :: "'d \<Rightarrow> string \<Rightarrow> string \<Rightarrow> string"
  lib_statistics :: "'d \<Rightarrow> string"

text \<open>The members of both classes; the pointer to an iterator is never used.\<close>

record 'd engine_db =
  eng_name :: string
  eng_db :: 'd
  noResult :: u32
  disableWAL :: bool
  eng_cout :: string
  eng_cerr :: string

definition say :: "'d engine_db \<Rightarrow> string \<Rightarrow> 'd engine_db" where
  "say s msg = s\<lparr>eng_cout := eng_cout s @ msg\<rparr>"

definition complain :: "'d engine_db \<Rightarrow> string \<Rightarrow> 'd engine_db" where
  "complain s msg = s\<lparr>eng_cerr := eng_cerr s @ msg\<rparr>"

lemma say_sel [simp]:
  "eng_db (say s m) = eng_db s" "noResult (say s m) = noResult s" "disableWAL (say s m) = disableWAL s"
  "eng_name (say s m) = eng_name s"
  by (simp_all add: say_def)

lemma complain_sel [simp]:
  "eng_db (complain s m) = eng_db s" "noResult (complain s m) = noResult s"
  "disableWAL (complain s m) = disableWAL s" "eng_name (complain s m) = eng_name s"
  by (simp_all add: complain_def)

section \<open>RocksDB\<close>

definition RocksDB_Read ::
  "('o, 'd, 'i) kv_lib \<Rightarrow> 'd engine_db \<Rightarrow> string \<Rightarrow> string \<Rightarrow> string list option \<Rightarrow> kvs \<Rightarrow>
   (int \<times> kvs \<times> 'd engine_db) result" where
  "RocksDB_Read L s table key flds res = (case fst (lib_Get L (eng_db s) key) of
       St_ok \<Rightarrow> Inr (kOK, res, s)
     | St_NotFound \<Rightarrow>
         let s = s\<lparr>noResult := noResult s + 1\<rparr>
         in Inr (kOK, res, say s (digits10 (unat (noResult s)) @ ''not found'' @ endl))
     | St_error _ \<Rightarrow> Inl (Exit 0 (''read error'' @ endl)))"

text \<open>The loop of Scan returns the number of entries it passed and how many were empty.\<close>

function rocks_scan_loop :: "('o, 'd, 'i) kv_lib \<Rightarrow> int \<Rightarrow> int \<Rightarrow> int \<Rightarrow> 'i \<Rightarrow> int \<times> int" where
  "rocks_scan_loop L len i cnt it =
     (if i < len \<and> lib_Valid L it
      then let val = lib_value L it; it = lib_Next L it
           in rocks_scan_loop L len (i + 1) (if val = [] then cnt + 1 else cnt) it
      else (i, cnt))"
  by pat_completeness auto
termination by (relation "measure (\<lambda>(L, len, i, cnt, it). nat (len - i))") auto

declare rocks_scan_loop.simps [simp del]

definition short_text :: "int \<Rightarrow> int \<Rightarrow> string" where
  "short_text i len = '' get '' @ to_string_int i @ '' for length '' @ to_string_int len @ ''.'' @ endl"

definition RocksDB_Scan ::
  "('o, 'd, 'i) kv_lib \<Rightarrow> 'd engine_db \<Rightarrow> string \<Rightarrow> string \<Rightarrow> int \<Rightarrow> string list option \<Rightarrow> kvs list \<Rightarrow>
   (int \<times> kvs list \<times> 'd engine_db) result" where
  "RocksDB_Scan L s table key len flds res =
     (let it = lib_Seek L (lib_NewIterator L (eng_db s)) key;
          (i, cnt) = rocks_scan_loop L len 0 0 it;
          s = (if i < len then complain (say s (short_text i len)) (short_text i len) else s);
          s = (if 0 < cnt then say s (to_string_int cnt @ ''empty values'' @ endl) else s)
      in Inr (kOK, res, s))"

fun rocks_put_loop :: "('o, 'd, 'i) kv_lib \<Rightarrow> bool \<Rightarrow> string \<Rightarrow> kvs \<Rightarrow> 'd \<Rightarrow> 'd result" where
  "rocks_put_loop L wal key [] d = Inr d"
| "rocks_put_loop L wal key (p # ps) d =
     (let (st, d') = lib_Put L wal d key (snd p)
      in if st \<noteq> St_ok then Inl (Exit 0 (''insert error'' @ lib_ToString L st @ [CHR 0x0A] @ endl)) else rocks_put_loop L wal key ps d')"

definition RocksDB_Insert ::
  "('o, 'd, 'i) kv_lib \<Rightarrow> 'd engine_db \<Rightarrow> string \<Rightarrow> string \<Rightarrow> kvs \<Rightarrow> (int \<times> 'd engine_db) result" where
  "RocksDB_Insert L s table key vs =
     bindR (rocks_put_loop L (disableWAL s) key vs (eng_db s)) (\<lambda>d. Inr (kOK, s\<lparr>eng_db := d\<rparr>))"

definition RocksDB_Update ::
  "('o, 'd, 'i) kv_lib \<Rightarrow> 'd engine_db \<Rightarrow> string \<Rightarrow> string \<Rightarrow> kvs \<Rightarrow> (int \<times> 'd engine_db) result" where
  "RocksDB_Update L s table key vs = RocksDB_Insert L s table key vs"

definition RocksDB_Delete ::
  "('o, 'd, 'i) kv_lib \<Rightarrow> 'd engine_db \<Rightarrow> string \<Rightarrow> string \<Rightarrow> (int \<times> 'd engine_db) result" where
  "RocksDB_Delete L s table key = RocksDB_Insert L s table key []"

definition RocksDB_printStats :: "('o, 'd, 'i) kv_lib \<Rightarrow> 'd engine_db \<Rightarrow> 'd engine_db" where
  "RocksDB_printStats L s =
     say s (lib_GetProperty L (eng_db s) ''rocksdb.stats'' [] @ endl @
       ''=========================== options.statistics =============================='' @ endl @
       lib_statistics L (eng_db s) @ endl)"

definition rocks_ops :: "('o, 'd, 'i) kv_lib \<Rightarrow> 'd engine_db db_ops" where
  "rocks_ops L = \<lparr>db_Init = Inr, db_Close = Inr, db_Read = RocksDB_Read L, db_Scan = RocksDB_Scan L,
     db_Update = RocksDB_Update L, db_Insert = RocksDB_Insert L, db_Delete = RocksDB_Delete L,
     db_printStats = RocksDB_printStats L, db_getName = eng_name\<rparr>"

section \<open>LevelDB\<close>

definition LevelDB_Read ::
  "('o, 'd, 'i) kv_lib \<Rightarrow> 'd engine_db \<Rightarrow> string \<Rightarrow> string \<Rightarrow> string list option \<Rightarrow> kvs \<Rightarrow>
   (int \<times> kvs \<times> 'd engine_db) result" where
  "LevelDB_Read L s table key flds res = (case fst (lib_Get L (eng_db s) key) of
       St_ok \<Rightarrow> Inr (kOK, res, s)
     | St_NotFound \<Rightarrow>
         let s = s\<lparr>noResult := noResult s + 1\<rparr>
         in Inr (kOK, res, say s (digits10 (unat (noResult s)) @ ''not found'' @ endl))
     | St_error _ \<Rightarrow> Inl (Exit 0 (''read error'' @ endl)))"

function level_scan_loop :: "('o, 'd, 'i) kv_lib \<Rightarrow> int \<Rightarrow> int \<Rightarrow> int \<Rightarrow> 'i \<Rightarrow> int \<times> int" where
  "level_scan_loop L len i cnt it =
     (if i < len \<and> lib_Valid L it
      then let val = lib_value L it; it = lib_Next L it
           in level_scan_loop L len (i + 1) (if val = [] then cnt + 1 else cnt) it
      else (i, cnt))"
  by pat_completeness auto
termination by (relation "measure (\<lambda>(L, len, i, cnt, it). nat (len - i))") auto

declare level_scan_loop.simps [simp del]

definition LevelDB_Scan ::
  "('o, 'd, 'i) kv_lib \<Rightarrow> 'd engine_db \<Rightarrow> string \<Rightarrow> string \<Rightarrow> int \<Rightarrow> string list option \<Rightarrow> kvs list \<Rightarrow>
   (int \<times> kvs list \<times> 'd engine_db) result" where
  "LevelDB_Scan L s table key len flds res =
     (let it = lib_Seek L (lib_NewIterator L (eng_db s)) key;
          (i, cnt) = level_scan_loop L len 0 0 it;
          s = (if i < len then complain (say s (short_text i len)) (short_text i len) else s);
          s = (if 0 < cnt then say s (to_string_int cnt @ ''empty values'' @ endl) else s)
      in Inr (kOK, res, s))"

text \<open>The write options keep their default: the log is never disabled.\<close>

fun level_put_loop :: "('o, 'd, 'i) kv_lib \<Rightarrow> string \<Rightarrow> kvs \<Rightarrow> 'd \<Rightarrow> 'd result" where
  "level_put_loop L key [] d = Inr d"
| "level_put_loop L key (p # ps) d =
     (let (st, d') = lib_Put L False d key (snd p)
      in if st \<noteq> St_ok then Inl (Exit 0 (''insert error'' @ lib_ToString L st @ [CHR 0x0A] @ endl)) else level_put_loop L key ps d')"

definition LevelDB_Insert ::
  "('o, 'd, 'i) kv_lib \<Rightarrow> 'd engine_db \<Rightarrow> string \<Rightarrow> string \<Rightarrow> kvs \<Rightarrow> (int \<times> 'd engine_db) result" where
  "LevelDB_Insert L s table key vs =
     bindR (level_put_loop L key vs (eng_db s)) (\<lambda>d. Inr (kOK, s\<lparr>eng_db := d\<rparr>))"

definition LevelDB_Update ::
  "('o, 'd, 'i) kv_lib \<Rightarrow> 'd engine_db \<Rightarrow> string \<Rightarrow> string \<Rightarrow> kvs \<Rightarrow> (int \<times> 'd engine_db) result" where
  "LevelDB_Update L s table key vs = LevelDB_Insert L s table key vs"

definition LevelDB_Delete ::
  "('o, 'd, 'i) kv_lib \<Rightarrow> 'd engine_db \<Rightarrow> string \<Rightarrow> string \<Rightarrow> (int \<times> 'd engine_db) result" where
  "LevelDB_Delete L s table key = LevelDB_Insert L s table key []"

definition LevelDB_printStats :: "('o, 'd, 'i) kv_lib \<Rightarrow> 'd engine_db \<Rightarrow> 'd engine_db" where
  "LevelDB_printStats L s =
     (let stats = lib_GetProperty L (eng_db s) ''leveldb.stats'' [];
          s = say s (''------------------------------------- leveldb.stats --------------------------------------'' @
            endl @ stats @ endl);
          stats = lib_GetProperty L (eng_db s) ''leveldb.sstables'' stats
      in say s (''------------------------------------- leveldb.sstables --------------------------------------'' @
            endl @ stats @ endl))"

definition level_ops :: "('o, 'd, 'i) kv_lib \<Rightarrow> 'd engine_db db_ops" where
  "level_ops L = \<lparr>db_Init = Inr, db_Close = Inr, db_Read = LevelDB_Read L, db_Scan = LevelDB_Scan L,
     db_Update = LevelDB_Update L, db_Insert = LevelDB_Insert L, db_Delete = LevelDB_Delete L,
     db_printStats = LevelDB_printStats L, db_getName = eng_name\<rparr>"

section \<open>What is assumed of an engine\<close>

text \<open>
  A handle in a good state stands for a map: Get finds the value of a key or reports that there is
  none, Put replaces one value, and an iterator that was sought runs through the entries from
  the sought key on in the order of the keys.
\<close>

definition kv_law ::
  "('o, 'd, 'i) kv_lib \<Rightarrow> ('d \<Rightarrow> bool) \<Rightarrow> ('d \<Rightarrow> string \<rightharpoonup> string) \<Rightarrow> ('i \<Rightarrow> kvs) \<Rightarrow> bool" where
  "kv_law L ok mp rest \<longleftrightarrow>
     (\<forall>d k. ok d \<longrightarrow> lib_Get L d k = (case mp d k of None \<Rightarrow> (St_NotFound, []) | Some v \<Rightarrow> (St_ok, v))) \<and>
     (\<forall>w d k v. ok d \<longrightarrow> (\<exists>d'. lib_Put L w d k v = (St_ok, d') \<and> ok d' \<and> mp d' = (mp d)(k \<mapsto> v))) \<and>
     (\<forall>it. lib_Valid L it \<longleftrightarrow> rest it \<noteq> []) \<and>
     (\<forall>it. rest it \<noteq> [] \<longrightarrow> (lib_key L it, lib_value L it) = hd (rest it) \<and> rest (lib_Next L it) = tl (rest it)) \<and>
     (\<forall>d k. ok d \<longrightarrow> (let es = rest (lib_Seek L (lib_NewIterator L d) k) in
        sorted_wrt (\<lambda>a b. fst a < fst b) es \<and> set es = {(k', v). mp d k' = Some v \<and> k \<le> k'}))"

lemma kv_law_Get: "kv_law L ok mp rest \<Longrightarrow> ok d \<Longrightarrow>
    fst (lib_Get L d k) = (if mp d k = None then St_NotFound else St_ok)"
  by (simp add: kv_law_def split: option.splits)

lemma kv_law_Put: "kv_law L ok mp rest \<Longrightarrow> ok d \<Longrightarrow>
    \<exists>d'. lib_Put L w d k v = (St_ok, d') \<and> ok d' \<and> mp d' = (mp d)(k \<mapsto> v)"
  by (simp add: kv_law_def)


text \<open>
  The specification of a call: only the last of the values written counts, the table, the field
  names and the length of a scan play no role, and a delete writes nothing.
\<close>

fun kv_spec :: "db_call \<Rightarrow> (string \<rightharpoonup> string) \<times> u32 \<Rightarrow> (string \<rightharpoonup> string) \<times> u32" where
  "kv_spec (Call_Read tab key fs) (m, n) = (m, if m key = None then n + 1 else n)"
| "kv_spec (Call_Scan tab key len fs) (m, n) = (m, n)"
| "kv_spec (Call_Update tab key vs) (m, n) = (if vs = [] then m else m(key \<mapsto> snd (last vs)), n)"
| "kv_spec (Call_Insert tab key vs) (m, n) = (if vs = [] then m else m(key \<mapsto> snd (last vs)), n)"
| "kv_spec (Call_Delete tab key) (m, n) = (m, n)"

lemmas rocks_defs = rocks_ops_def RocksDB_Read_def RocksDB_Insert_def RocksDB_Update_def RocksDB_Delete_def
lemmas level_defs = level_ops_def LevelDB_Read_def LevelDB_Insert_def LevelDB_Update_def LevelDB_Delete_def

lemma level_put_loop_eq: "level_put_loop L key vs d = rocks_put_loop L False key vs d"
  by (induction vs arbitrary: d) (simp_all split: prod.splits)

lemma level_scan_loop_eq: "level_scan_loop L len i cnt it = rocks_scan_loop L len i cnt it"
proof (induction L len i cnt it rule: rocks_scan_loop.induct)
  case (1 L len i cnt it)
  then show ?case by (subst level_scan_loop.simps, subst rocks_scan_loop.simps) (simp add: Let_def)
qed

lemma LevelDB_Scan_eq: "LevelDB_Scan L s tab key len flds res = RocksDB_Scan L s tab key len flds res"
  by (simp add: LevelDB_Scan_def RocksDB_Scan_def level_scan_loop_eq)

lemma put_loop_law:
  assumes law: "kv_law L ok mp rest" and "ok d"
  shows "\<exists>d'. rocks_put_loop L w key vs d = Inr d' \<and> ok d' \<and>
           mp d' = (if vs = [] then mp d else (mp d)(key \<mapsto> snd (last vs)))"
  using assms(2)
proof (induction vs arbitrary: d)
  case (Cons v vs)
  obtain d1 where d1: "lib_Put L w d key (snd v) = (St_ok, d1)" "ok d1" "mp d1 = (mp d)(key \<mapsto> snd v)"
    using kv_law_Put [OF law Cons.prems] by blast
  obtain d' where "rocks_put_loop L w key vs d1 = Inr d'" "ok d'"
    "mp d' = (if vs = [] then mp d1 else (mp d1)(key \<mapsto> snd (last vs)))" using Cons.IH [OF d1(2)] by blast
  then show ?case using d1 by auto
qed simp

lemma Scan_state:
  "\<exists>s'. RocksDB_Scan L s tab key len flds res = Inr (kOK, res, s') \<and> eng_db s' = eng_db s \<and>
     noResult s' = noResult s \<and> disableWAL s' = disableWAL s \<and> eng_name s' = eng_name s"
  by (simp add: RocksDB_Scan_def Let_def case_prod_unfold)

lemma engine_write:
  assumes law: "kv_law L ok mp rest" and ok: "ok (eng_db s)" and ops: "ops = rocks_ops L \<or> ops = level_ops L"
  shows "\<exists>s'. db_Insert ops s tab key vs = Inr (kOK, s') \<and> ok (eng_db s') \<and> noResult s' = noResult s \<and>
           eng_name s' = eng_name s \<and>
           mp (eng_db s') = (if vs = [] then mp (eng_db s) else (mp (eng_db s))(key \<mapsto> snd (last vs)))"
proof -
  obtain w where w: "db_Insert ops s tab key vs =
      bindR (rocks_put_loop L w key vs (eng_db s)) (\<lambda>d. Inr (kOK, s\<lparr>eng_db := d\<rparr>))"
    using ops by (auto simp: rocks_defs level_defs level_put_loop_eq)
  obtain d' where "rocks_put_loop L w key vs (eng_db s) = Inr d'" "ok d'"
    "mp d' = (if vs = [] then mp (eng_db s) else (mp (eng_db s))(key \<mapsto> snd (last vs)))"
    using put_loop_law [OF law ok] by blast
  then show ?thesis unfolding w by (intro exI [of _ "s\<lparr>eng_db := d'\<rparr>"]) simp
qed

lemma engine_update_delete:
  assumes "ops = rocks_ops L \<or> ops = level_ops L"
  shows "db_Update ops s tab key vs = db_Insert ops s tab key vs"
    and "db_Delete ops s tab key = db_Insert ops s tab key []"
  using assms by (auto simp: rocks_defs level_defs)

lemma engine_scan:
  assumes "ops = rocks_ops L \<or> ops = level_ops L"
  shows "\<exists>s'. db_Scan ops s tab key len fs res = Inr (kOK, res, s') \<and> eng_db s' = eng_db s \<and>
           noResult s' = noResult s \<and> eng_name s' = eng_name s"
  using assms Scan_state [of L s tab key len fs res] by (auto simp: rocks_ops_def level_ops_def LevelDB_Scan_eq)

lemma engine_read:
  assumes "kv_law L ok mp rest" "ok (eng_db s)" "ops = rocks_ops L \<or> ops = level_ops L"
  shows "\<exists>s'. db_Read ops s tab key fs res = Inr (kOK, res, s') \<and> eng_db s' = eng_db s \<and>
           eng_name s' = eng_name s \<and> noResult s' = (if mp (eng_db s) key = None then noResult s + 1 else noResult s)"
  using assms by (auto simp: rocks_defs level_defs kv_law_Get Let_def)

lemma engine_call:
  assumes law: "kv_law L ok mp rest" and ok: "ok (eng_db s)" and ops: "ops = rocks_ops L \<or> ops = level_ops L"
  shows "\<exists>s'. do_call ops c s = Inr (kOK, s') \<and> ok (eng_db s') \<and>
           (mp (eng_db s'), noResult s') = kv_spec c (mp (eng_db s), noResult s)"
proof (cases c)
  case (Call_Read tab key fs)
  obtain s' where "db_Read ops s tab key fs [] = Inr (kOK, [], s')" "eng_db s' = eng_db s"
    "noResult s' = (if mp (eng_db s) key = None then noResult s + 1 else noResult s)"
    using engine_read [OF assms] by blast
  then show ?thesis using Call_Read ok by simp
next
  case (Call_Scan tab key len fs)
  obtain s' where "db_Scan ops s tab key len fs [] = Inr (kOK, [], s')" "eng_db s' = eng_db s"
    "noResult s' = noResult s" using engine_scan [OF ops] by blast
  then show ?thesis using Call_Scan ok by simp
next
  case (Call_Update tab key vs)
  then show ?thesis using engine_write [OF assms, of tab key vs]
    by (elim exE conjE) (simp add: engine_update_delete [OF ops])
next
  case (Call_Insert tab key vs)
  then show ?thesis using engine_write [OF assms, of tab key vs] by (elim exE conjE) simp
next
  case (Call_Delete tab key)
  then show ?thesis using engine_write [OF assms, of tab key "[]"]
    by (elim exE conjE) (simp add: engine_update_delete [OF ops])
qed

lemma engine_contract:
  fixes L :: "('o, 'd, 'i) kv_lib"
  assumes law: "kv_law L ok mp rest" and ops: "ops = rocks_ops L \<or> ops = level_ops L"
  shows "db_contract ops (\<lambda>s. ok (eng_db s) \<and> eng_name s = nm)"
proof unfold_locales
  fix s :: "'d engine_db" and tab key fs res ress vs and n :: int
  assume "ok (eng_db s) \<and> eng_name s = nm"
  then have ok: "ok (eng_db s)" and nm: "eng_name s = nm" by simp_all
  show "\<exists>s'. db_Init ops s = Inr s' \<and> ok (eng_db s') \<and> eng_name s' = nm" "\<exists>s'. db_Close ops s = Inr s' \<and> ok (eng_db s') \<and> eng_name s' = nm"
    using ops ok nm by (auto simp: rocks_ops_def level_ops_def)
  show "\<exists>st res' s'. db_Read ops s tab key fs res = Inr (st, res', s') \<and> 0 \<le> st \<and> ok (eng_db s') \<and> eng_name s' = nm"
    using engine_read [OF law ok ops, of tab key fs res] ok nm by (auto simp: kOK_def)
  show "\<exists>st ress' s'. db_Scan ops s tab key n fs ress = Inr (st, ress', s') \<and> 0 \<le> st \<and> ok (eng_db s') \<and> eng_name s' = nm"
    using engine_scan [OF ops, of s tab key n fs ress] ok nm by (auto simp: kOK_def)
  show "\<exists>st s'. db_Insert ops s tab key vs = Inr (st, s') \<and> 0 \<le> st \<and> ok (eng_db s') \<and> eng_name s' = nm"
    using engine_write [OF law ok ops, of tab key vs] nm by (auto simp: kOK_def)
  then show "\<exists>st s'. db_Update ops s tab key vs = Inr (st, s') \<and> 0 \<le> st \<and> ok (eng_db s') \<and> eng_name s' = nm"
    by (simp add: engine_update_delete [OF ops])
qed

section \<open>An engine in memory\<close>

text \<open>A sorted association list satisfies the assumptions, so they can hold.\<close>

fun mem_put :: "string \<Rightarrow> string \<Rightarrow> kvs \<Rightarrow> kvs" where
  "mem_put k v [] = [(k, v)]"
| "mem_put k v (e # es) =
     (if k < fst e then (k, v) # e # es else if k = fst e then (k, v) # es else e # mem_put k v es)"

definition mem_lib :: "'o \<Rightarrow> ('o, kvs, kvs) kv_lib" where
  "mem_lib opts = \<lparr>lib_Options = opts, lib_Open = (\<lambda>_ _. (St_ok, [])),
     lib_ToString = (\<lambda>st. case st of St_ok \<Rightarrow> ''OK'' | St_NotFound \<Rightarrow> ''NotFound: '' | St_error msg \<Rightarrow> msg),
     lib_Get = (\<lambda>d k. case map_of d k of None \<Rightarrow> (St_NotFound, []) | Some v \<Rightarrow> (St_ok, v)),
     lib_Put = (\<lambda>_ d k v. (St_ok, mem_put k v d)), lib_NewIterator = id,
     lib_Seek = (\<lambda>it k. dropWhile (\<lambda>e. fst e < k) it), lib_Valid = (\<lambda>it. it \<noteq> []),
     lib_key = (\<lambda>it. fst (hd it)), lib_value = (\<lambda>it. snd (hd it)), lib_Next = tl,
     lib_GetProperty = (\<lambda>_ _ old. old), lib_statistics = (\<lambda>_. [])\<rparr>"

definition mem_ok :: "kvs \<Rightarrow> bool" where
  "mem_ok d \<longleftrightarrow> sorted_wrt (\<lambda>a b. fst a < fst b) d"

lemma mem_put_keys: "set (mem_put k v d) \<subseteq> insert (k, v) (set d)"
  by (induction d) auto

lemma mem_put_ok: "mem_ok d \<Longrightarrow> mem_ok (mem_put k v d)"
proof (induction d)
  case (Cons e d)
  have "mem_ok (mem_put k v d)" using Cons by (simp add: mem_ok_def)
  moreover have "\<forall>x\<in>set (mem_put k v d). fst e < fst x" if "fst e < k"
    using mem_put_keys [of k v d] Cons.prems that by (auto simp: mem_ok_def)
  moreover have "fst e < k" if "\<not> k < fst e" "k \<noteq> fst e" using that by simp
  ultimately show ?case using Cons.prems by (auto simp: mem_ok_def)
qed (simp add: mem_ok_def)

lemma mem_put_map: "mem_ok d \<Longrightarrow> map_of (mem_put k v d) = (map_of d)(k \<mapsto> v)"
  by (induction d) (auto simp: mem_ok_def)

lemma mem_ok_distinct: "mem_ok d \<Longrightarrow> distinct (map fst d)"
  by (induction d) (auto simp: mem_ok_def)

lemma mem_seek: "mem_ok d \<Longrightarrow> set (dropWhile (\<lambda>e. fst e < k) d) = {e \<in> set d. k \<le> fst e}"
proof (induction d)
  case (Cons e d)
  then show ?case by (cases "fst e < k") (auto simp: mem_ok_def not_less intro: order.strict_implies_order order.trans)
qed simp

lemma mem_lib_law: "kv_law (mem_lib opts) mem_ok map_of id"
proof -
  have "sorted_wrt (\<lambda>a b. fst a < fst b) (dropWhile P d)" if "mem_ok d" for P d
    using that by (induction d) (auto simp: mem_ok_def)
  moreover have "set (dropWhile (\<lambda>e. fst e < k) d) = {(k', v). map_of d k' = Some v \<and> k \<le> k'}" if "mem_ok d" for d k
    using mem_seek [OF that] mem_ok_distinct [OF that] by (auto simp: map_of_eq_Some_iff)
  ultimately show ?thesis
    by (simp add: kv_law_def mem_lib_def mem_put_ok mem_put_map)
qed

interpretation mem_rocks: db_contract "rocks_ops (mem_lib opts)" "\<lambda>s. mem_ok (eng_db s) \<and> eng_name s = nm"
  by (rule engine_contract [OF mem_lib_law [of opts]]) simp

interpretation mem_level: db_contract "level_ops (mem_lib opts)" "\<lambda>s. mem_ok (eng_db s) \<and> eng_name s = nm"
  by (rule engine_contract [OF mem_lib_law [of opts]]) simp

definition fresh_engine :: "string \<Rightarrow> kvs engine_db" where
  "fresh_engine name = \<lparr>eng_name = name, eng_db = [], noResult = 0, disableWAL = False, eng_cout = [], eng_cerr = []\<rparr>"

section \<open>Properties\<close>

text \<open>
  C6. On an engine that keeps its documented behaviour, any sequence of calls of the RocksDB or the
  LevelDB driver returns, every status is kOK, and the engine's map and the counter of missed
  reads are those of the specification: a write leaves the last of its values under the bare
  key, a read of an absent key succeeds and is only counted, a delete changes nothing.
\<close>

theorem engine_calls_refine:
  assumes law: "kv_law L ok mp rest" and "ok (eng_db s)" and ops: "ops = rocks_ops L \<or> ops = level_ops L"
  shows "\<exists>s'. do_calls ops cs s = Inr (replicate (length cs) kOK, s') \<and> ok (eng_db s') \<and>
           (mp (eng_db s'), noResult s') = fold kv_spec cs (mp (eng_db s), noResult s)"
  using assms(2)
proof (induction cs arbitrary: s)
  case (Cons c cs)
  obtain s1 where s1: "do_call ops c s = Inr (kOK, s1)" "ok (eng_db s1)"
    "(mp (eng_db s1), noResult s1) = kv_spec c (mp (eng_db s), noResult s)"
    using engine_call [OF law Cons.prems ops] by blast
  obtain s' where "do_calls ops cs s1 = Inr (replicate (length cs) kOK, s')" "ok (eng_db s')"
    "(mp (eng_db s'), noResult s') = fold kv_spec cs (mp (eng_db s1), noResult s1)"
    using Cons.IH [OF s1(2)] by blast
  then show ?case using s1 by simp
qed simp

theorem engine_calls_refine_witness:
  "\<exists>s'. do_calls (rocks_ops (mem_lib ()))
      [Call_Insert ''t'' ''user1'' [(''field0'', ''a''), (''field1'', ''b'')], Call_Delete ''t'' ''user1'',
       Call_Read ''t'' ''user2'' None] (fresh_engine ''rocksdb'') = Inr ([0, 0, 0], s') \<and>
     map_of (eng_db s') = [''user1'' \<mapsto> ''b''] \<and> noResult s' = 1"
  using engine_calls_refine [OF mem_lib_law, of "fresh_engine ''rocksdb''" "rocks_ops (mem_lib ())" "()"
      "[Call_Insert ''t'' ''user1'' [(''field0'', ''a''), (''field1'', ''b'')], Call_Delete ''t'' ''user1'',
        Call_Read ''t'' ''user2'' None]"]
  by (auto simp add: fresh_engine_def mem_ok_def kOK_def numeral_3_eq_3 simp del: do_calls.simps)

lemma same_call:
  assumes "\<not> disableWAL s"
  shows "do_call (level_ops L) c s = do_call (rocks_ops L) c s"
  using assms by (cases c) (simp_all add: rocks_defs level_defs level_put_loop_eq LevelDB_Scan_eq)

lemma call_keeps_WAL: "do_call (rocks_ops L) c s = Inr (st, s') \<Longrightarrow> disableWAL s' = disableWAL s"
proof (cases c)
  case (Call_Scan tab key len fs)
  then show "do_call (rocks_ops L) c s = Inr (st, s') \<Longrightarrow> disableWAL s' = disableWAL s"
    using Scan_state [of L s tab key len fs "[]"] by (auto simp: rocks_ops_def)
qed (auto simp: rocks_defs bindR_eq_Inr_iff Let_def split: kv_status.splits)

text \<open>
  C29. The two drivers are the same program up to the write-ahead log: over the same engine and
  with the log enabled, every sequence of calls gives the same outcome, statuses, final state
  and output, engine errors included. Nothing is assumed of the engine.
\<close>

theorem LevelDB_equals_RocksDB:
  assumes "\<not> disableWAL s"
  shows "do_calls (level_ops L) cs s = do_calls (rocks_ops L) cs s"
  using assms
proof (induction cs arbitrary: s)
  case (Cons c cs)
  show ?case
  proof (cases "do_call (rocks_ops L) c s")
    case (Inr x)
    obtain st s1 where x: "x = (st, s1)" by (cases x)
    have "\<not> disableWAL s1" using call_keeps_WAL [of L c s st s1] Inr x Cons.prems by simp
    then show ?thesis using Cons.IH [of s1] Inr x by (simp add: same_call [OF Cons.prems])
  qed (simp add: same_call [OF Cons.prems])
qed simp

theorem LevelDB_equals_RocksDB_witness:
  "do_calls (level_ops (mem_lib ())) [Call_Read ''t'' ''user1'' None] (fresh_engine ''leveldb'') =
   do_calls (rocks_ops (mem_lib ())) [Call_Read ''t'' ''user1'' None] (fresh_engine ''leveldb'')"
  by (rule LevelDB_equals_RocksDB) (simp add: fresh_engine_def)







text \<open>The texts with which the drivers end the program.\<close>

definition read_error_text :: string where
  "read_error_text = ''read error'' @ endl"

definition insert_error_text :: "('o, 'd, 'i) kv_lib \<Rightarrow> kv_status \<Rightarrow> string" where
  "insert_error_text L st = ''insert error'' @ lib_ToString L st @ [CHR 0x0A] @ endl"

text \<open>
  The engine refuses a call: a Get reports an error other than a missing key, or one of the
  values is refused by Put after the ones before it were taken.
\<close>

fun puts_taken :: "('o, 'd, 'i) kv_lib \<Rightarrow> bool \<Rightarrow> string \<Rightarrow> kvs \<Rightarrow> 'd \<Rightarrow> 'd option" where
  "puts_taken L w key [] d = Some d"
| "puts_taken L w key (v # vs) d = (case lib_Put L w d key (snd v) of
       (St_ok, d') \<Rightarrow> puts_taken L w key vs d'
     | _ \<Rightarrow> None)"

definition put_refused :: "('o, 'd, 'i) kv_lib \<Rightarrow> bool \<Rightarrow> string \<Rightarrow> kvs \<Rightarrow> 'd \<Rightarrow> exn \<Rightarrow> bool" where
  "put_refused L w key vs d e \<longleftrightarrow> (\<exists>us v ws d1 st d2. vs = us @ v # ws \<and> puts_taken L w key us d = Some d1 \<and>
     lib_Put L w d1 key (snd v) = (st, d2) \<and> st \<noteq> St_ok \<and> e = Exit 0 (insert_error_text L st))"

fun call_refused :: "('o, 'd, 'i) kv_lib \<Rightarrow> bool \<Rightarrow> db_call \<Rightarrow> 'd \<Rightarrow> exn \<Rightarrow> bool" where
  "call_refused L w (Call_Read tab key fs) d e \<longleftrightarrow>
     (\<exists>msg v. lib_Get L d key = (St_error msg, v)) \<and> e = Exit 0 read_error_text"
| "call_refused L w (Call_Update tab key vs) d e \<longleftrightarrow> put_refused L w key vs d e"
| "call_refused L w (Call_Insert tab key vs) d e \<longleftrightarrow> put_refused L w key vs d e"
| "call_refused L w (Call_Scan tab key n fs) d e \<longleftrightarrow> False"
| "call_refused L w (Call_Delete tab key) d e \<longleftrightarrow> False"

lemma ex_split_Cons:
  "(\<exists>us x ws. v # vs = us @ x # ws \<and> P us x) \<longleftrightarrow> P [] v \<or> (\<exists>us x ws. vs = us @ x # ws \<and> P (v # us) x)"
proof
  assume "P [] v \<or> (\<exists>us x ws. vs = us @ x # ws \<and> P (v # us) x)"
  then show "\<exists>us x ws. v # vs = us @ x # ws \<and> P us x" by (metis append_Cons append_Nil)
qed (auto simp: Cons_eq_append_conv)

lemma put_refused_Nil: "\<not> put_refused L w key [] d e"
  by (simp add: put_refused_def)

lemma put_refused_Cons:
  "put_refused L w key (v # vs) d e \<longleftrightarrow> (case lib_Put L w d key (snd v) of (st, d') \<Rightarrow>
     if st = St_ok then put_refused L w key vs d' e else e = Exit 0 (insert_error_text L st))"
proof -
  obtain st d' where put: "lib_Put L w d key (snd v) = (st, d')" by fastforce
  note split = ex_split_Cons [of v vs "\<lambda>us x. \<exists>d1 st d2. puts_taken L w key us d = Some d1 \<and>
     lib_Put L w d1 key (snd x) = (st, d2) \<and> st \<noteq> St_ok \<and> e = Exit 0 (insert_error_text L st)"]
  show ?thesis using split by (cases st) (auto simp: put_refused_def put)
qed

lemma put_loop_Inl: "rocks_put_loop L w key vs d = Inl e \<longleftrightarrow> put_refused L w key vs d e"
proof (induction vs arbitrary: d)
  case (Cons v vs)
  obtain st d' where put: "lib_Put L w d key (snd v) = (st, d')" by fastforce
  then show ?case using Cons.IH [of d'] by (auto simp: put_refused_Cons insert_error_text_def)
qed (simp add: put_refused_Nil)

lemma call_outcome:
  assumes "ops = rocks_ops L \<and> w = disableWAL s \<or> ops = level_ops L \<and> \<not> w"
  shows "do_call ops c s = Inl e \<longleftrightarrow> call_refused L w c (eng_db s) e"
    and "do_call ops c s = Inr (st, s') \<Longrightarrow> st = kOK \<and> disableWAL s' = disableWAL s"
proof -
  have scan: "\<exists>s'. db_Scan ops s tab key n fs res = Inr (kOK, res, s') \<and> disableWAL s' = disableWAL s" for tab key n fs res
    using assms Scan_state [of L s tab key n fs res] by (auto simp: rocks_ops_def level_ops_def LevelDB_Scan_eq)
  show "do_call ops c s = Inl e \<longleftrightarrow> call_refused L w c (eng_db s) e"
  proof (cases c)
    case (Call_Read tab key fs)
    then show ?thesis using assms
      by (cases "lib_Get L (eng_db s) key"; cases "fst (lib_Get L (eng_db s) key)")
        (auto simp: rocks_defs level_defs read_error_text_def bindR_eq_Inl_iff)
  next
    case (Call_Scan tab key n fs)
    then show ?thesis using scan [of tab key n fs "[]"] by auto
  next
    case (Call_Delete tab key)
    then show ?thesis using assms by (auto simp: rocks_defs level_defs)
  qed (use assms in \<open>auto simp: rocks_defs level_defs level_put_loop_eq bindR_eq_Inl_iff put_loop_Inl\<close>)
  show "do_call ops c s = Inr (st, s') \<Longrightarrow> st = kOK \<and> disableWAL s' = disableWAL s"
  proof (cases c)
    case (Call_Scan tab key n fs)
    then show "do_call ops c s = Inr (st, s') \<Longrightarrow> st = kOK \<and> disableWAL s' = disableWAL s"
      using scan [of tab key n fs "[]"] by auto
  qed (use assms in \<open>auto simp: rocks_defs level_defs bindR_eq_Inr_iff Let_def split: kv_status.splits\<close>)
qed

text \<open>
  C31. What the drivers do with errors of the engine. A sequence of calls ends the program exactly
  when the engine refuses one of the calls after the ones before it have returned: a read for
  which Get reports an error other than a missing key, with the message of a failed read, or a
  write for which Put refuses a value after taking the values before it, with the text of that
  status. The exit status is 0, that of success. Otherwise every call returns kOK, so that no
  error ever reaches the client. Nothing is assumed of the engine.
\<close>

theorem engine_error_exits:
  assumes "ops = rocks_ops L \<and> w = disableWAL s \<or> ops = level_ops L \<and> \<not> w"
  shows "(do_calls ops cs s = Inl e \<longleftrightarrow>
           (\<exists>pre c post s1. cs = pre @ c # post \<and> do_calls ops pre s = Inr (replicate (length pre) kOK, s1) \<and>
              call_refused L w c (eng_db s1) e)) \<and>
         (\<forall>sts s'. do_calls ops cs s = Inr (sts, s') \<longrightarrow> sts = replicate (length cs) kOK)"
  using assms
proof (induction cs arbitrary: s)
  case (Cons c cs)
  let ?fails = "\<lambda>cs s. \<exists>pre c post s1. cs = pre @ c # post \<and>
    do_calls ops pre s = Inr (replicate (length pre) kOK, s1) \<and> call_refused L w c (eng_db s1) e"
  show ?case
  proof (cases "do_call ops c s")
    case (Inl e')
    have "?fails (c # cs) s \<longleftrightarrow> call_refused L w c (eng_db s) e"
      using ex_split_Cons [of c cs "\<lambda>pre c. \<exists>s1. do_calls ops pre s = Inr (replicate (length pre) kOK, s1) \<and>
        call_refused L w c (eng_db s1) e"] Inl by simp
    then show ?thesis using call_outcome(1) [OF Cons.prems, of c] Inl by auto
  next
    case (Inr x)
    then obtain s1 where s1: "do_call ops c s = Inr (kOK, s1)" "disableWAL s1 = disableWAL s"
      using call_outcome(2) [OF Cons.prems, of c] by (cases x) auto
    have "\<not> call_refused L w c (eng_db s) e" using call_outcome(1) [OF Cons.prems, of c e] s1(1) by simp
    then have "?fails (c # cs) s \<longleftrightarrow> ?fails cs s1"
      using ex_split_Cons [of c cs "\<lambda>pre c. \<exists>s1. do_calls ops pre s = Inr (replicate (length pre) kOK, s1) \<and>
        call_refused L w c (eng_db s1) e"] s1(1) by (simp add: bindR_eq_Inr_iff)
    moreover have "do_calls ops (c # cs) s = Inl e \<longleftrightarrow> do_calls ops cs s1 = Inl e"
      using s1(1) by (simp add: bindR_eq_Inl_iff)
    ultimately show ?thesis using Cons.IH [of s1] Cons.prems s1 by (auto simp: bindR_eq_Inr_iff)
  qed
qed simp

definition broken_lib :: "(unit, unit, unit) kv_lib" where
  "broken_lib = \<lparr>lib_Options = (), lib_Open = (\<lambda>_ _. (St_ok, ())),
     lib_ToString = (\<lambda>st. case st of St_ok \<Rightarrow> ''OK'' | St_NotFound \<Rightarrow> ''NotFound: '' | St_error msg \<Rightarrow> msg), lib_Get = (\<lambda>_ _. (St_error ''IO'', [])),
     lib_Put = (\<lambda>_ d _ _. (St_error ''IO'', d)), lib_NewIterator = id, lib_Seek = (\<lambda>it _. it),
     lib_Valid = (\<lambda>_. False), lib_key = (\<lambda>_. []), lib_value = (\<lambda>_. []), lib_Next = id,
     lib_GetProperty = (\<lambda>_ _ old. old), lib_statistics = (\<lambda>_. [])\<rparr>"

definition broken_engine :: "unit engine_db" where
  "broken_engine = \<lparr>eng_name = ''rocksdb'', eng_db = (), noResult = 0, disableWAL = False, eng_cout = [], eng_cerr = []\<rparr>"

theorem engine_error_exits_witness:
  "do_calls (rocks_ops broken_lib) [Call_Delete ''t'' ''user1'', Call_Read ''t'' ''user1'' None, Call_Insert ''t'' ''user1'' []]
       broken_engine = Inl (Exit 0 (''read error'' @ [CHR 0x0A])) \<and>
   do_calls (level_ops broken_lib) [Call_Insert ''t'' ''user1'' [(''field0'', ''a'')]] broken_engine =
     Inl (Exit 0 (''insert errorIO'' @ [CHR 0x0A, CHR 0x0A]))"
proof
  have 1: "do_calls (rocks_ops broken_lib) [Call_Delete ''t'' ''user1''] broken_engine = Inr (replicate 1 kOK, broken_engine)"
    by (simp add: rocks_defs broken_engine_def)
  then show "do_calls (rocks_ops broken_lib) [Call_Delete ''t'' ''user1'', Call_Read ''t'' ''user1'' None, Call_Insert ''t'' ''user1'' []]
      broken_engine = Inl (Exit 0 (''read error'' @ [CHR 0x0A]))"
    using engine_error_exits [of "rocks_ops broken_lib" broken_lib False broken_engine
        "[Call_Delete ''t'' ''user1'', Call_Read ''t'' ''user1'' None, Call_Insert ''t'' ''user1'' []]"
        "Exit 0 (''read error'' @ [CHR 0x0A])"]
    by (simp add: broken_engine_def del: do_calls.simps)
      (rule exI [of _ "[Call_Delete ''t'' ''user1'']"], simp add: broken_lib_def read_error_text_def endl_def del: do_calls.simps)
  show "do_calls (level_ops broken_lib) [Call_Insert ''t'' ''user1'' [(''field0'', ''a'')]] broken_engine =
      Inl (Exit 0 (''insert errorIO'' @ [CHR 0x0A, CHR 0x0A]))"
    using engine_error_exits [of "level_ops broken_lib" broken_lib False broken_engine
        "[Call_Insert ''t'' ''user1'' [(''field0'', ''a'')]]" "Exit 0 (''insert errorIO'' @ [CHR 0x0A, CHR 0x0A])"]
    by (simp add: Cons_eq_append_conv put_refused_Cons broken_lib_def insert_error_text_def endl_def)
qed

end
