(* ===== verification/DB_Factory.thy ===== *)
theory DB_Factory
  imports Kv_DBs Properties
begin

text \<open>
  The constructors of RocksDB and LevelDB, which turn the configuration file into the options of
  the engine and open it, DBFactory::CreateDB of db/db\_factory.cc, and the virtual dispatch on
  the object it returns.
\<close>

section \<open>The constructors\<close>

text \<open>The options the constructors set or print; the other ones stay as the engine has them.\<close>

datatype lru_cache = LRU_cache u64
datatype compaction_style = Style_default | Style_universal
datatype compression_type = Compression_default | No_compression

record rocks_options =
  db_paths :: "(string \<times> u64) list"
  create_if_missing :: bool
  write_buffer_size :: u64
  target_file_size_base :: u64
  max_write_buffer_number :: int
  force_consistency_checks :: bool
  compaction :: compaction_style
  max_background_jobs :: int
  disable_auto_compactions :: bool
  rocks_compression :: compression_type
  table_cache :: lru_cache
  level0_file_num_compaction_trigger :: int
  max_bytes_for_level_base :: u64

definition rocks_paths :: "(string \<times> u64) list" where
  "rocks_paths = [(''/home/colin/hub/YCSB-C-RocksDB/build/testDir/vol1'', 1 * 1024 * 1024 * 1024),
     (''/home/colin/hub/YCSB-C-RocksDB/build/testDir/vol2'', 3 * 1024 * 1024 * 1024),
     (''/home/colin/hub/YCSB-C-RocksDB/build/testDir/vol3'', 300 * 1024 * 1024 * 1024)]"

definition set_rocks_options :: "config_rocksdb \<Rightarrow> rocks_options \<Rightarrow> rocks_options" where
  "set_rocks_options c opt =
     (let opt = opt\<lparr>db_paths := rocks_paths, create_if_missing := True, write_buffer_size := getMemtable c,
                target_file_size_base := push_bit 20 2, max_write_buffer_number := getMemtableNum c,
                force_consistency_checks := False\<rparr>;
          opt = (if getTiered c then opt\<lparr>compaction := Style_universal\<rparr> else opt);
          opt = opt\<lparr>max_background_jobs := getNumThreads c, disable_auto_compactions := getNoCompaction c\<rparr>;
          opt = (if \<not> getCompression c then opt\<lparr>rocks_compression := No_compression\<rparr> else opt)
      in opt\<lparr>table_cache := LRU_cache (getBlockCache c)\<rparr>)"

definition default_config_file :: string where
  "default_config_file = ''./RocksDBConfig/rocksdb_config.ini''"

definition bool_text :: "bool \<Rightarrow> string" where
  "bool_text b = (if b then ''1'' else ''0'')"

definition opened_text :: "config_rocksdb \<Rightarrow> string" where
  "opened_text c =
     endl @ ''bloom bits:'' @ to_string_int (getBloomBits c) @ ''bits'' @ endl @ ''directIO:'' @
     bool_text (getDirectIO c) @ endl @ ''seekCompaction:'' @ bool_text (getSeekCompaction c) @ endl"

definition RocksDB ::
  "'pt ptree_lib \<Rightarrow> (rocks_options, 'd, 'i) kv_lib \<Rightarrow> string \<Rightarrow> string \<Rightarrow> 'd engine_db result" where
  "RocksDB P L dbPath dbConfig =
     bindR (ConfigRocksDB_init P (if dbConfig = [] then default_config_file else dbConfig)) (\<lambda>config.
     let options = set_rocks_options config (lib_Options L);
         cerr = ''write buffer size: '' @ to_string_u64 (write_buffer_size options) @ endl @
           ''write buffer number: '' @ to_string_int (max_write_buffer_number options) @ endl @
           ''num compaction trigger: '' @ to_string_int (level0_file_num_compaction_trigger options) @ endl @
           ''targe file size base: '' @ to_string_u64 (target_file_size_base options) @ endl @
           ''level size base: '' @ to_string_u64 (max_bytes_for_level_base options) @ endl;
         (s, db) = lib_Open L options dbPath
     in if s \<noteq> St_ok then Inl (Exit 0 (''Can't open rocksdb '' @ dbPath @ endl))
        else Inr \<lparr>eng_name = ''rocksdb'', eng_db = db, noResult = 0, disableWAL = getDisableWAL config,
               eng_cout = opened_text config, eng_cerr = cerr\<rparr>)"

record level_options =
  level_compression :: compression_type
  max_open_files :: int
  level_create_if_missing :: bool
  level_write_buffer_size :: u64
  max_file_size :: u64
  level_block_cache :: "lru_cache option"

definition set_level_options :: "config_rocksdb \<Rightarrow> level_options \<Rightarrow> level_options" where
  "set_level_options c opt =
     (let opt = opt\<lparr>level_compression := No_compression, max_open_files := 65535,
                level_create_if_missing := True, level_write_buffer_size := getMemtable c,
                max_file_size := getMaxFileSize c\<rparr>;
          opt = (if \<not> getCompression c then opt\<lparr>level_compression := No_compression\<rparr> else opt)
      in if 0 < getBlockCache c then opt\<lparr>level_block_cache := Some (LRU_cache (getBlockCache c))\<rparr>
         else opt\<lparr>level_block_cache := None\<rparr>)"

definition LevelDB ::
  "'pt ptree_lib \<Rightarrow> (level_options, 'd, 'i) kv_lib \<Rightarrow> string \<Rightarrow> string \<Rightarrow> 'd engine_db result" where
  "LevelDB P L dbPath dbConfig =
     bindR (ConfigRocksDB_init P (if dbConfig = [] then default_config_file else dbConfig)) (\<lambda>config.
     let options = set_level_options config (lib_Options L);
         cerr = ''write buffer size: '' @ to_string_u64 (level_write_buffer_size options) @ endl @
           ''sstable file size: '' @ to_string_u64 (max_file_size options) @ endl;
         (s, db) = lib_Open L options dbPath
     in if s \<noteq> St_ok then Inl (Exit 0 (''Can't open rocksdb '' @ dbPath @ endl))
        else Inr \<lparr>eng_name = ''leveldb'', eng_db = db, noResult = 0, disableWAL = getDisableWAL config,
               eng_cout = opened_text config, eng_cerr = cerr\<rparr>)"

section \<open>CreateDB\<close>

datatype ('d, 'e) db_object =
    Basic_obj basic_db
  | Rocks_obj "'d engine_db"
  | Level_obj "'e engine_db"

text \<open>NULL, the result for an unknown name, is None.\<close>

definition CreateDB ::
  "'pt ptree_lib \<Rightarrow> (rocks_options, 'd, 'i) kv_lib \<Rightarrow> (level_options, 'e, 'j) kv_lib \<Rightarrow> properties \<Rightarrow>
   ('d, 'e) db_object option result" where
  "CreateDB P RL LL props =
     bindR (props_at props ''dbname'') (\<lambda>dbname.
     if dbname = ''basic'' then Inr (Some (Basic_obj \<lparr>basic_cout = []\<rparr>))
     else if dbname = ''rocksdb'' then
       bindR (props_at props ''dbPath'') (\<lambda>path.
       bindR (RocksDB P RL (c_str path) (GetProperty props ''dbConfig'' [])) (\<lambda>d. Inr (Some (Rocks_obj d))))
     else if dbname = ''leveldb'' then
       bindR (props_at props ''dbPath'') (\<lambda>path.
       bindR (LevelDB P LL (c_str path) (GetProperty props ''dbConfig'' [])) (\<lambda>d. Inr (Some (Level_obj d))))
     else Inr None)"

section \<open>Virtual dispatch\<close>

definition as_obj :: "('a \<Rightarrow> 'o) \<Rightarrow> 'a result \<Rightarrow> 'o result" where
  "as_obj c m = bindR m (\<lambda>s. Inr (c s))"

definition as_obj2 :: "('a \<Rightarrow> 'o) \<Rightarrow> ('x \<times> 'a) result \<Rightarrow> ('x \<times> 'o) result" where
  "as_obj2 c m = bindR m (\<lambda>(x, s). Inr (x, c s))"

definition as_obj3 :: "('a \<Rightarrow> 'o) \<Rightarrow> ('x \<times> 'y \<times> 'a) result \<Rightarrow> ('x \<times> 'y \<times> 'o) result" where
  "as_obj3 c m = bindR m (\<lambda>(x, y, s). Inr (x, y, c s))"

definition object_ops ::
  "(rocks_options, 'd, 'i) kv_lib \<Rightarrow> (level_options, 'e, 'j) kv_lib \<Rightarrow> ('d, 'e) db_object db_ops" where
  "object_ops RL LL = \<lparr>
     db_Init = (\<lambda>s. case s of Basic_obj b \<Rightarrow> as_obj Basic_obj (db_Init basic_ops b)
       | Rocks_obj b \<Rightarrow> as_obj Rocks_obj (db_Init (rocks_ops RL) b)
       | Level_obj b \<Rightarrow> as_obj Level_obj (db_Init (level_ops LL) b)),
     db_Close = (\<lambda>s. case s of Basic_obj b \<Rightarrow> as_obj Basic_obj (db_Close basic_ops b)
       | Rocks_obj b \<Rightarrow> as_obj Rocks_obj (db_Close (rocks_ops RL) b)
       | Level_obj b \<Rightarrow> as_obj Level_obj (db_Close (level_ops LL) b)),
     db_Read = (\<lambda>s tab key fs res. case s of Basic_obj b \<Rightarrow> as_obj3 Basic_obj (db_Read basic_ops b tab key fs res)
       | Rocks_obj b \<Rightarrow> as_obj3 Rocks_obj (db_Read (rocks_ops RL) b tab key fs res)
       | Level_obj b \<Rightarrow> as_obj3 Level_obj (db_Read (level_ops LL) b tab key fs res)),
     db_Scan = (\<lambda>s tab key n fs res. case s of Basic_obj b \<Rightarrow> as_obj3 Basic_obj (db_Scan basic_ops b tab key n fs res)
       | Rocks_obj b \<Rightarrow> as_obj3 Rocks_obj (db_Scan (rocks_ops RL) b tab key n fs res)
       | Level_obj b \<Rightarrow> as_obj3 Level_obj (db_Scan (level_ops LL) b tab key n fs res)),
     db_Update = (\<lambda>s tab key vs. case s of Basic_obj b \<Rightarrow> as_obj2 Basic_obj (db_Update basic_ops b tab key vs)
       | Rocks_obj b \<Rightarrow> as_obj2 Rocks_obj (db_Update (rocks_ops RL) b tab key vs)
       | Level_obj b \<Rightarrow> as_obj2 Level_obj (db_Update (level_ops LL) b tab key vs)),
     db_Insert = (\<lambda>s tab key vs. case s of Basic_obj b \<Rightarrow> as_obj2 Basic_obj (db_Insert basic_ops b tab key vs)
       | Rocks_obj b \<Rightarrow> as_obj2 Rocks_obj (db_Insert (rocks_ops RL) b tab key vs)
       | Level_obj b \<Rightarrow> as_obj2 Level_obj (db_Insert (level_ops LL) b tab key vs)),
     db_Delete = (\<lambda>s tab key. case s of Basic_obj b \<Rightarrow> as_obj2 Basic_obj (db_Delete basic_ops b tab key)
       | Rocks_obj b \<Rightarrow> as_obj2 Rocks_obj (db_Delete (rocks_ops RL) b tab key)
       | Level_obj b \<Rightarrow> as_obj2 Level_obj (db_Delete (level_ops LL) b tab key)),
     db_printStats = (\<lambda>s. case s of Basic_obj b \<Rightarrow> Basic_obj (db_printStats basic_ops b)
       | Rocks_obj b \<Rightarrow> Rocks_obj (db_printStats (rocks_ops RL) b)
       | Level_obj b \<Rightarrow> Level_obj (db_printStats (level_ops LL) b)),
     db_getName = (\<lambda>s. case s of Basic_obj b \<Rightarrow> db_getName basic_ops b
       | Rocks_obj b \<Rightarrow> db_getName (rocks_ops RL) b
       | Level_obj b \<Rightarrow> db_getName (level_ops LL) b)\<rparr>"

text \<open>The invariant of an object of the class with the given name.\<close>

fun obj_inv :: "('d \<Rightarrow> bool) \<Rightarrow> ('e \<Rightarrow> bool) \<Rightarrow> string \<Rightarrow> ('d, 'e) db_object \<Rightarrow> bool" where
  "obj_inv rok lok nm (Basic_obj b) \<longleftrightarrow> nm = ''basic''"
| "obj_inv rok lok nm (Rocks_obj b) \<longleftrightarrow> rok (eng_db b) \<and> eng_name b = nm"
| "obj_inv rok lok nm (Level_obj b) \<longleftrightarrow> lok (eng_db b) \<and> eng_name b = nm"

lemma obj_inv_name: "obj_inv rok lok nm s \<Longrightarrow> db_getName (object_ops RL LL) s = nm"
  by (cases s) (simp_all add: object_ops_def basic_ops_def rocks_ops_def level_ops_def)

lemma as_obj_ok:
  "\<exists>s'. m = Inr s' \<and> P s' \<Longrightarrow> (\<And>s'. P s' \<Longrightarrow> Q (c s')) \<Longrightarrow> \<exists>s'. as_obj c m = Inr s' \<and> Q s'"
  "\<exists>st s'. m2 = Inr (st, s') \<and> (0::int) \<le> st \<and> P s' \<Longrightarrow> (\<And>s'. P s' \<Longrightarrow> Q (c s')) \<Longrightarrow>
     \<exists>st s'. as_obj2 c m2 = Inr (st, s') \<and> 0 \<le> st \<and> Q s'"
  "\<exists>st r s'. m3 = Inr (st, r, s') \<and> (0::int) \<le> st \<and> P s' \<Longrightarrow> (\<And>s'. P s' \<Longrightarrow> Q (c s')) \<Longrightarrow>
     \<exists>st r s'. as_obj3 c m3 = Inr (st, r, s') \<and> 0 \<le> st \<and> Q s'"
  by (auto simp: as_obj_def as_obj2_def as_obj3_def)

lemma object_contract:
  fixes RL :: "(rocks_options, 'd, 'i) kv_lib" and LL :: "(level_options, 'e, 'j) kv_lib"
  assumes "kv_law RL rok rmp rrest" "kv_law LL lok lmp lrest"
  shows "db_contract (object_ops RL LL) (obj_inv rok lok nm)"
proof -
  have r: "db_contract (rocks_ops RL) (\<lambda>s. rok (eng_db s) \<and> eng_name s = nm)" by (rule engine_contract [OF assms(1)]) simp
  have l: "db_contract (level_ops LL) (\<lambda>s. lok (eng_db s) \<and> eng_name s = nm)" by (rule engine_contract [OF assms(2)]) simp
  show ?thesis
  proof unfold_locales
    fix s :: "('d, 'e) db_object" and tab key fs res ress vs and n :: int
    assume inv: "obj_inv rok lok nm s"
    show "\<exists>s'. db_Init (object_ops RL LL) s = Inr s' \<and> obj_inv rok lok nm s'"
      using inv by (cases s) (auto simp: object_ops_def intro!: as_obj_ok(1) [OF db_contract.init_ok [OF r]]
        as_obj_ok(1) [OF db_contract.init_ok [OF l]] as_obj_ok(1) [OF basic_contract.init_ok])
    show "\<exists>s'. db_Close (object_ops RL LL) s = Inr s' \<and> obj_inv rok lok nm s'"
      using inv by (cases s) (auto simp: object_ops_def intro!: as_obj_ok(1) [OF db_contract.close_ok [OF r]]
        as_obj_ok(1) [OF db_contract.close_ok [OF l]] as_obj_ok(1) [OF basic_contract.close_ok])
    show "\<exists>st res' s'. db_Read (object_ops RL LL) s tab key fs res = Inr (st, res', s') \<and> 0 \<le> st \<and> obj_inv rok lok nm s'"
      using inv by (cases s) (auto simp: object_ops_def intro!: as_obj_ok(3) [OF db_contract.read_ok [OF r]]
        as_obj_ok(3) [OF db_contract.read_ok [OF l]] as_obj_ok(3) [OF basic_contract.read_ok])
    show "\<exists>st ress' s'. db_Scan (object_ops RL LL) s tab key n fs ress = Inr (st, ress', s') \<and> 0 \<le> st \<and> obj_inv rok lok nm s'"
      using inv by (cases s) (auto simp: object_ops_def intro!: as_obj_ok(3) [OF db_contract.scan_ok [OF r]]
        as_obj_ok(3) [OF db_contract.scan_ok [OF l]] as_obj_ok(3) [OF basic_contract.scan_ok])
    show "\<exists>st s'. db_Update (object_ops RL LL) s tab key vs = Inr (st, s') \<and> 0 \<le> st \<and> obj_inv rok lok nm s'"
      using inv by (cases s) (auto simp: object_ops_def intro!: as_obj_ok(2) [OF db_contract.update_ok [OF r]]
        as_obj_ok(2) [OF db_contract.update_ok [OF l]] as_obj_ok(2) [OF basic_contract.update_ok])
    show "\<exists>st s'. db_Insert (object_ops RL LL) s tab key vs = Inr (st, s') \<and> 0 \<le> st \<and> obj_inv rok lok nm s'"
      using inv by (cases s) (auto simp: object_ops_def intro!: as_obj_ok(2) [OF db_contract.insert_ok [OF r]]
        as_obj_ok(2) [OF db_contract.insert_ok [OF l]] as_obj_ok(2) [OF basic_contract.insert_ok])
  qed
qed

section \<open>Properties\<close>






text \<open>The options of an engine before a constructor changes them.\<close>

definition initial_level_options :: level_options where
  "initial_level_options = \<lparr>level_compression = Compression_default, max_open_files = 1000,
     level_create_if_missing = False, level_write_buffer_size = 4194304, max_file_size = 2097152,
     level_block_cache = None\<rparr>"

definition initial_rocks_options :: rocks_options where
  "initial_rocks_options = \<lparr>db_paths = [], create_if_missing = False, write_buffer_size = 67108864,
     target_file_size_base = 67108864, max_write_buffer_number = 2, force_consistency_checks = True,
     compaction = Style_default, max_background_jobs = 2, disable_auto_compactions = False,
     rocks_compression = Compression_default, table_cache = LRU_cache 8388608,
     level0_file_num_compaction_trigger = 4, max_bytes_for_level_base = 268435456\<rparr>"




text \<open>
  C34. CreateDB returns an object of the class the property dbname names, the NULL pointer for
  every other name, and raises the exception of operator[] when the property is missing: the
  default announced by the usage message does not exist.
\<close>

theorem CreateDB_class:
  "(\<forall>obj. CreateDB P RL LL props = Inr (Some obj) \<longrightarrow> props ''dbname'' = Some (db_getName (object_ops RL LL) obj)) \<and>
   (CreateDB P RL LL props = Inr None \<longleftrightarrow>
      (\<exists>n. props ''dbname'' = Some n \<and> n \<notin> {''basic'', ''rocksdb'', ''leveldb''})) \<and>
   (props ''dbname'' = None \<longrightarrow> (\<exists>e. CreateDB P RL LL props = Inl e))"
proof -
  have name: "eng_name s = ''rocksdb''" if "RocksDB P RL path f = Inr s" for path f s
    using that by (auto simp: RocksDB_def Let_def case_prod_unfold bindR_eq_Inr_iff split: if_splits)
  have name': "eng_name s = ''leveldb''" if "LevelDB P LL path f = Inr s" for path f s
    using that by (auto simp: LevelDB_def Let_def case_prod_unfold bindR_eq_Inr_iff split: if_splits)
  show ?thesis
    by (cases "props ''dbname''")
      (auto simp: CreateDB_def props_at_def object_ops_def basic_ops_def rocks_ops_def level_ops_def
        bindR_eq_Inr_iff name name' split: if_splits)
qed

theorem CreateDB_class_witness:
  "(CreateDB shipped_ptree (mem_lib initial_rocks_options) (mem_lib initial_level_options)
      [''dbname'' \<mapsto> ''redis''] = Inr None) \<and>
   (\<exists>e. CreateDB shipped_ptree (mem_lib initial_rocks_options) (mem_lib initial_level_options) Map.empty = Inl e)"
  using CreateDB_class [of shipped_ptree "mem_lib initial_rocks_options" "mem_lib initial_level_options" "[''dbname'' \<mapsto> ''redis'']"]
    CreateDB_class [of shipped_ptree "mem_lib initial_rocks_options" "mem_lib initial_level_options" Map.empty]
  by simp

end
