(* ===== verification/Client.thy ===== *)
theory Client
  imports Workload_Init DB_Interface
begin

text \<open>
  The client of core/client.h: it draws an operation, a key and values from the workload and calls
  the database through the interface of the theory DB\_Interface. A client holds references to
  the workload and the database, so its operations take and return both, with the random
  sources the workload draws from. The lemmas are proved once for every database that keeps the
  contract \<open>db_contract\<close>.
\<close>

section \<open>The class\<close>

definition DoInsert ::
  "cxx_env \<Rightarrow> 's db_ops \<Rightarrow> workload \<Rightarrow> random \<Rightarrow> 's \<Rightarrow> (bool \<times> workload \<times> random \<times> 's) result" where
  "DoInsert env db w r s =
     bindR (NextSequenceKey env w r) (\<lambda>(key, w, r).
     bindR (BuildValues env w r) (\<lambda>(pairs, w, r).
     bindR (db_Insert db s (NextTable w) key pairs) (\<lambda>(status, s).
     Inr (status = kOK, w, r, s))))"

text \<open>The field list of a read that asks for one field, and the values of an update.\<close>

definition one_field :: "string \<Rightarrow> string list" where
  "one_field name = [''field'' @ name]"

definition TransactionRead ::
  "cxx_env \<Rightarrow> 's db_ops \<Rightarrow> workload \<Rightarrow> random \<Rightarrow> 's \<Rightarrow> (int \<times> workload \<times> random \<times> 's) result" where
  "TransactionRead env db w r s =
     (let table = NextTable w in
      bindR (NextTransactionKey env w r) (\<lambda>(key, w, r).
      if \<not> read_all_fields w then
        bindR (NextFieldName env w r) (\<lambda>(f, w, r).
        bindR (db_Read db s table key (Some (one_field f)) []) (\<lambda>(status, _, s). Inr (status, w, r, s)))
      else
        bindR (db_Read db s table key None []) (\<lambda>(status, _, s). Inr (status, w, r, s))))"

definition new_values :: "cxx_env \<Rightarrow> workload \<Rightarrow> random \<Rightarrow> (kvpair list \<times> workload \<times> random) result" where
  "new_values env w r = (if write_all_fields w then BuildValues env w r else BuildUpdate env w r)"

text \<open>Neither the status nor the result of the read is looked at.\<close>

definition TransactionReadModifyWrite ::
  "cxx_env \<Rightarrow> 's db_ops \<Rightarrow> workload \<Rightarrow> random \<Rightarrow> 's \<Rightarrow> (int \<times> workload \<times> random \<times> 's) result" where
  "TransactionReadModifyWrite env db w r s =
     (let table = NextTable w in
      bindR (NextTransactionKey env w r) (\<lambda>(key, w, r).
      bindR (if \<not> read_all_fields w then
               bindR (NextFieldName env w r) (\<lambda>(f, w, r).
               bindR (db_Read db s table key (Some (one_field f)) []) (\<lambda>(_, _, s). Inr (w, r, s)))
             else bindR (db_Read db s table key None []) (\<lambda>(_, _, s). Inr (w, r, s))) (\<lambda>(w, r, s).
      bindR (new_values env w r) (\<lambda>(vs, w, r).
      bindR (db_Update db s table key vs) (\<lambda>(status, s). Inr (status, w, r, s))))))"

text \<open>The size\_t scan length is stored in an int.\<close>

definition scan_int :: "u64 \<Rightarrow> int" where
  "scan_int n = sint (ucast n :: u32)"

definition TransactionScan ::
  "cxx_env \<Rightarrow> 's db_ops \<Rightarrow> workload \<Rightarrow> random \<Rightarrow> 's \<Rightarrow> (int \<times> workload \<times> random \<times> 's) result" where
  "TransactionScan env db w r s =
     (let table = NextTable w in
      bindR (NextTransactionKey env w r) (\<lambda>(key, w, r).
      bindR (NextScanLength env w r) (\<lambda>(len, w, r).
      if \<not> read_all_fields w then
        bindR (NextFieldName env w r) (\<lambda>(f, w, r).
        bindR (db_Scan db s table key (scan_int len) (Some (one_field f)) []) (\<lambda>(status, _, s). Inr (status, w, r, s)))
      else
        bindR (db_Scan db s table key (scan_int len) None []) (\<lambda>(status, _, s). Inr (status, w, r, s)))))"

definition TransactionUpdate ::
  "cxx_env \<Rightarrow> 's db_ops \<Rightarrow> workload \<Rightarrow> random \<Rightarrow> 's \<Rightarrow> (int \<times> workload \<times> random \<times> 's) result" where
  "TransactionUpdate env db w r s =
     (let table = NextTable w in
      bindR (NextTransactionKey env w r) (\<lambda>(key, w, r).
      bindR (new_values env w r) (\<lambda>(vs, w, r).
      bindR (db_Update db s table key vs) (\<lambda>(status, s). Inr (status, w, r, s)))))"

definition TransactionInsert ::
  "cxx_env \<Rightarrow> 's db_ops \<Rightarrow> workload \<Rightarrow> random \<Rightarrow> 's \<Rightarrow> (int \<times> workload \<times> random \<times> 's) result" where
  "TransactionInsert env db w r s =
     (let table = NextTable w in
      bindR (NextSequenceKey env w r) (\<lambda>(key, w, r).
      bindR (BuildValues env w r) (\<lambda>(vs, w, r).
      bindR (db_Insert db s table key vs) (\<lambda>(status, s). Inr (status, w, r, s)))))"

text \<open>All operations are handled, so the exception of the default case cannot be raised.\<close>

definition DoTransaction ::
  "cxx_env \<Rightarrow> 's db_ops \<Rightarrow> workload \<Rightarrow> random \<Rightarrow> 's \<Rightarrow> (bool \<times> workload \<times> random \<times> 's) result" where
  "DoTransaction env db w r s =
     bindR (NextOperation w r) (\<lambda>(op, w, r).
     bindR (case op of
              READ \<Rightarrow> TransactionRead env db w r s
            | UPDATE \<Rightarrow> TransactionUpdate env db w r s
            | INSERT \<Rightarrow> TransactionInsert env db w r s
            | SCAN \<Rightarrow> TransactionScan env db w r s
            | READMODIFYWRITE \<Rightarrow> TransactionReadModifyWrite env db w r s) (\<lambda>(status, w, r, s).
     bindR (assertR (0 \<le> status) ''status >= 0'') (\<lambda>_.
     Inr (status = kOK, w, r, s))))"

section \<open>What the draws leave unchanged\<close>

text \<open>
  A workload ready for transactions: in its invariant, with weights that never fall through, and
  with a key chooser that stays within the inserted keys.
\<close>

definition chooser_ok :: "workload \<Rightarrow> bool" where
  "chooser_ok w \<longleftrightarrow>
     gen_range (insert_key_sequence w) (the (key_chooser w)) \<subseteq> {..Counter_Last (insert_key_sequence w)}"

definition ready :: "cxx_env \<Rightarrow> workload \<Rightarrow> random \<Rightarrow> bool" where
  "ready env w r \<longleftrightarrow> workload_inv env w \<and> unit_random r \<and> discrete_inv (op_chooser w) \<and> chooser_ok w"

lemma frame_NextFieldName:
  "NextFieldName env w r = Inr (f, w', r') \<Longrightarrow> key_chooser w' = key_chooser w \<and> op_chooser w' = op_chooser w"
  by (auto simp: NextFieldName_def bindR_eq_Inr_iff)

lemma frame_NextScanLength:
  "NextScanLength env w r = Inr (n, w', r') \<Longrightarrow> key_chooser w' = key_chooser w \<and> op_chooser w' = op_chooser w"
  by (auto simp: NextScanLength_def bindR_eq_Inr_iff)

lemma frame_NextSequenceKey:
  "NextSequenceKey env w r = Inr (k, w', r') \<Longrightarrow> key_chooser w' = key_chooser w \<and> op_chooser w' = op_chooser w"
  by (auto simp: NextSequenceKey_def bindR_eq_Inr_iff)

lemma frame_field_value:
  "field_value env w r = Inr (v, w', r') \<Longrightarrow>
   key_chooser w' = key_chooser w \<and> op_chooser w' = op_chooser w \<and> key_generator w' = key_generator w"
  by (auto simp: field_value_def bindR_eq_Inr_iff case_prod_unfold Let_def)

lemma frame_build_values:
  "build_values env is w r = Inr (vs, w', r') \<Longrightarrow>
   key_chooser w' = key_chooser w \<and> op_chooser w' = op_chooser w \<and> key_generator w' = key_generator w"
proof (induction "is" arbitrary: w r vs)
  case (Cons i "is")
  then obtain v w1 r1 us where 1: "field_value env w r = Inr (v, w1, r1)" "build_values env is w1 r1 = Inr (us, w', r')"
    by (auto simp: bindR_eq_Inr_iff)
  show ?case using Cons.IH [OF 1(2)] frame_field_value [OF 1(1)] by simp
qed simp

lemma frame_BuildValues:
  "BuildValues env w r = Inr (vs, w', r') \<Longrightarrow>
   key_chooser w' = key_chooser w \<and> op_chooser w' = op_chooser w \<and> key_generator w' = key_generator w"
  unfolding BuildValues_def by (rule frame_build_values)

lemma frame_BuildUpdate:
  "BuildUpdate env w r = Inr (vs, w', r') \<Longrightarrow> key_chooser w' = key_chooser w \<and> op_chooser w' = op_chooser w"
  by (auto simp: BuildUpdate_def bindR_eq_Inr_iff dest!: frame_NextFieldName frame_field_value)

lemma frame_NextTransactionKey:
  "NextTransactionKey env w r = Inr (k, w', r') \<Longrightarrow> op_chooser w' = op_chooser w"
  by (auto simp: NextTransactionKey_def bindR_eq_Inr_iff split: option.splits)

lemma ready_frame:
  assumes "ready env w r" "workload_inv env w'" "wl_static w' = wl_static w" "unit_random r'"
    and "key_chooser w' = key_chooser w \<and> op_chooser w' = op_chooser w"
  shows "ready env w' r'"
  using assms wl_static_seq [OF assms(3)] by (simp add: ready_def chooser_ok_def)

lemma ready_inv: "ready env w r \<Longrightarrow> workload_inv env w" "ready env w r \<Longrightarrow> unit_random r"
  by (simp_all add: ready_def)

lemma ready_NextFieldName:
  assumes "ready env w r"
  shows "\<exists>f w' r'. NextFieldName env w r = Inr (f, w', r') \<and> ready env w' r' \<and> wl_static w' = wl_static w"
  using NextFieldName_step [OF ready_inv [OF assms]] ready_frame [OF assms] frame_NextFieldName by metis

lemma ready_NextScanLength:
  assumes "ready env w r"
  shows "\<exists>n w' r'. NextScanLength env w r = Inr (n, w', r') \<and> ready env w' r' \<and> wl_static w' = wl_static w"
  using NextScanLength_step [OF ready_inv [OF assms]] ready_frame [OF assms] frame_NextScanLength by metis

lemma ready_NextSequenceKey:
  assumes "ready env w r"
  shows "\<exists>k w' r'. NextSequenceKey env w r = Inr (k, w', r') \<and> ready env w' r' \<and> wl_static w' = wl_static w"
  using NextSequenceKey_step [OF ready_inv [OF assms]] ready_frame [OF assms] frame_NextSequenceKey by metis

lemma ready_BuildValues:
  assumes "ready env w r"
  shows "\<exists>vs w' r'. BuildValues env w r = Inr (vs, w', r') \<and> ready env w' r' \<and> wl_static w' = wl_static w"
  using BuildValues_step [OF ready_inv [OF assms]] ready_frame [OF assms] frame_BuildValues by metis

lemma ready_new_values:
  assumes "ready env w r"
  shows "\<exists>vs w' r'. new_values env w r = Inr (vs, w', r') \<and> ready env w' r' \<and> wl_static w' = wl_static w"
proof (cases "write_all_fields w")
  case True
  then show ?thesis using ready_BuildValues [OF assms] by (simp add: new_values_def)
next
  case False
  obtain f v w' r' where "BuildUpdate env w r = Inr ([(f, v)], w', r')" "workload_inv env w'"
    "wl_static w' = wl_static w" "unit_random r'" using BuildUpdate_step [OF ready_inv [OF assms]] by blast
  then show ?thesis using False ready_frame [OF assms] frame_BuildUpdate by (simp add: new_values_def)
qed

lemma ready_NextTransactionKey:
  assumes "ready env w r"
  shows "\<exists>k w' r'. NextTransactionKey env w r = Inr (k, w', r') \<and> ready env w' r' \<and> wl_static w' = wl_static w"
proof -
  have c: "gen_range (insert_key_sequence w) (the (key_chooser w)) \<subseteq> {..Counter_Last (insert_key_sequence w)}"
    using assms by (simp add: ready_def chooser_ok_def)
  obtain k w' r' where k: "NextTransactionKey env w r = Inr (BuildKeyName w k, w', r')" "workload_inv env w'"
    "wl_static w' = wl_static w" "unit_random r'"
    "gen_range (insert_key_sequence w') (the (key_chooser w')) = gen_range (insert_key_sequence w) (the (key_chooser w))"
    using NextTransactionKey_step [OF ready_inv [OF assms] c] by blast
  then have "ready env w' r'"
    using c assms frame_NextTransactionKey [OF k(1)] wl_static_seq [OF k(3)] by (simp add: ready_def chooser_ok_def)
  then show ?thesis using k by blast
qed

lemma ready_NextOperation:
  assumes "ready env w r"
  shows "\<exists>op w' r'. NextOperation w r = Inr (op, w', r') \<and> ready env w' r' \<and> wl_static w' = wl_static w"
proof -
  have d: "discrete_inv (op_chooser w)" "unit_random r" using assms by (simp_all add: ready_def)
  obtain op g r' where g: "Discrete_Next (op_chooser w) r = Inr (op, g, r')" "discrete_inv g" "unit_random r'"
    by (rule discrete_gen.nxt_obtain [OF d])
  then show ?thesis using assms
    by (simp add: NextOperation_def ready_def workload_inv_def chooser_ok_def wl_static_def)
qed

section \<open>Clients of a database that keeps the contract\<close>

context db_contract
begin

lemma TransactionRead_step:
  assumes "ready env w r" "inv s"
  shows "\<exists>st w' r' s'. TransactionRead env db w r s = Inr (st, w', r', s') \<and> 0 \<le> st \<and>
           ready env w' r' \<and> wl_static w' = wl_static w \<and> inv s'"
proof -
  obtain key w1 r1 where 1: "NextTransactionKey env w r = Inr (key, w1, r1)" "ready env w1 r1" "wl_static w1 = wl_static w"
    using ready_NextTransactionKey [OF assms(1)] by blast
  show ?thesis
  proof (cases "read_all_fields w1")
    case True
    then show ?thesis using 1 read_ok [OF assms(2), of "NextTable w" key None "[]"]
      by (auto simp: TransactionRead_def)
  next
    case False
    obtain f w2 r2 where 2: "NextFieldName env w1 r1 = Inr (f, w2, r2)" "ready env w2 r2" "wl_static w2 = wl_static w1"
      using ready_NextFieldName [OF 1(2)] by blast
    show ?thesis using False 1 2 read_ok [OF assms(2), of "NextTable w" key "Some (one_field f)" "[]"]
      by (auto simp: TransactionRead_def)
  qed
qed

lemma TransactionScan_step:
  assumes "ready env w r" "inv s"
  shows "\<exists>st w' r' s'. TransactionScan env db w r s = Inr (st, w', r', s') \<and> 0 \<le> st \<and>
           ready env w' r' \<and> wl_static w' = wl_static w \<and> inv s'"
proof -
  obtain key w0 r0 where 0: "NextTransactionKey env w r = Inr (key, w0, r0)" "ready env w0 r0" "wl_static w0 = wl_static w"
    using ready_NextTransactionKey [OF assms(1)] by blast
  obtain n w1 r1 where 1: "NextScanLength env w0 r0 = Inr (n, w1, r1)" "ready env w1 r1" "wl_static w1 = wl_static w0"
    using ready_NextScanLength [OF 0(2)] by blast
  show ?thesis
  proof (cases "read_all_fields w1")
    case True
    then show ?thesis using 0 1 scan_ok [OF assms(2), of "NextTable w" key "scan_int n" None "[]"]
      by (auto simp: TransactionScan_def)
  next
    case False
    obtain f w2 r2 where 2: "NextFieldName env w1 r1 = Inr (f, w2, r2)" "ready env w2 r2" "wl_static w2 = wl_static w1"
      using ready_NextFieldName [OF 1(2)] by blast
    show ?thesis using False 0 1 2 scan_ok [OF assms(2), of "NextTable w" key "scan_int n" "Some (one_field f)" "[]"]
      by (auto simp: TransactionScan_def)
  qed
qed

lemma TransactionUpdate_step:
  assumes "ready env w r" "inv s"
  shows "\<exists>st w' r' s'. TransactionUpdate env db w r s = Inr (st, w', r', s') \<and> 0 \<le> st \<and>
           ready env w' r' \<and> wl_static w' = wl_static w \<and> inv s'"
proof -
  obtain key w1 r1 where 1: "NextTransactionKey env w r = Inr (key, w1, r1)" "ready env w1 r1" "wl_static w1 = wl_static w"
    using ready_NextTransactionKey [OF assms(1)] by blast
  obtain vs w2 r2 where 2: "new_values env w1 r1 = Inr (vs, w2, r2)" "ready env w2 r2" "wl_static w2 = wl_static w1"
    using ready_new_values [OF 1(2)] by blast
  show ?thesis using 1 2 update_ok [OF assms(2), of "NextTable w" key vs] by (auto simp: TransactionUpdate_def)
qed

lemma TransactionInsert_step:
  assumes "ready env w r" "inv s"
  shows "\<exists>st w' r' s'. TransactionInsert env db w r s = Inr (st, w', r', s') \<and> 0 \<le> st \<and>
           ready env w' r' \<and> wl_static w' = wl_static w \<and> inv s'"
proof -
  obtain key w1 r1 where 1: "NextSequenceKey env w r = Inr (key, w1, r1)" "ready env w1 r1" "wl_static w1 = wl_static w"
    using ready_NextSequenceKey [OF assms(1)] by blast
  obtain vs w2 r2 where 2: "BuildValues env w1 r1 = Inr (vs, w2, r2)" "ready env w2 r2" "wl_static w2 = wl_static w1"
    using ready_BuildValues [OF 1(2)] by blast
  show ?thesis using 1 2 insert_ok [OF assms(2), of "NextTable w" key vs] by (auto simp: TransactionInsert_def)
qed

lemma TransactionReadModifyWrite_step:
  assumes "ready env w r" "inv s"
  shows "\<exists>st w' r' s'. TransactionReadModifyWrite env db w r s = Inr (st, w', r', s') \<and> 0 \<le> st \<and>
           ready env w' r' \<and> wl_static w' = wl_static w \<and> inv s'"
proof -
  obtain key w1 r1 where 1: "NextTransactionKey env w r = Inr (key, w1, r1)" "ready env w1 r1" "wl_static w1 = wl_static w"
    using ready_NextTransactionKey [OF assms(1)] by blast
  obtain w2 r2 s2 where 2: "(if \<not> read_all_fields w1 then
       bindR (NextFieldName env w1 r1) (\<lambda>(f, w, r).
       bindR (db_Read db s (NextTable w1) key (Some (one_field f)) []) (\<lambda>(_, _, s). Inr (w, r, s)))
     else bindR (db_Read db s (NextTable w1) key None []) (\<lambda>(_, _, s). Inr (w1, r1, s))) = Inr (w2, r2, s2)"
    "ready env w2 r2" "wl_static w2 = wl_static w1" "inv s2"
  proof (cases "read_all_fields w1")
    case True
    then show ?thesis using that 1 read_ok [OF assms(2), of "NextTable w1" key None "[]"] by auto
  next
    case False
    obtain f w2 r2 where "NextFieldName env w1 r1 = Inr (f, w2, r2)" "ready env w2 r2" "wl_static w2 = wl_static w1"
      using ready_NextFieldName [OF 1(2)] by blast
    then show ?thesis using that False read_ok [OF assms(2), of "NextTable w1" key "Some (one_field f)" "[]"] by auto
  qed
  obtain vs w3 r3 where 3: "new_values env w2 r2 = Inr (vs, w3, r3)" "ready env w3 r3" "wl_static w3 = wl_static w2"
    using ready_new_values [OF 2(2)] by blast
  have "NextTable w = NextTable w1" using 1(3) by (simp add: wl_static_def NextTable_def)
  then show ?thesis using 1 2 3 update_ok [OF 2(4), of "NextTable w" key vs]
    unfolding TransactionReadModifyWrite_def Let_def by auto
qed

lemma DoTransaction_step:
  assumes "ready env w r" "inv s"
  shows "\<exists>b w' r' s'. DoTransaction env db w r s = Inr (b, w', r', s') \<and>
           ready env w' r' \<and> wl_static w' = wl_static w \<and> inv s'"
proof -
  obtain op w1 r1 where 1: "NextOperation w r = Inr (op, w1, r1)" "ready env w1 r1" "wl_static w1 = wl_static w"
    using ready_NextOperation [OF assms(1)] by blast
  show ?thesis
    using TransactionRead_step [OF 1(2) assms(2)] TransactionScan_step [OF 1(2) assms(2)]
      TransactionUpdate_step [OF 1(2) assms(2)] TransactionInsert_step [OF 1(2) assms(2)]
      TransactionReadModifyWrite_step [OF 1(2) assms(2)]
    by (cases op) (auto simp: DoTransaction_def 1(1,3) assertR_def)
qed

lemma DoInsert_step:
  assumes "ready env w r" "inv s"
  shows "\<exists>b w' r' s'. DoInsert env db w r s = Inr (b, w', r', s') \<and>
           ready env w' r' \<and> wl_static w' = wl_static w \<and> inv s'"
proof -
  obtain key w1 r1 where 1: "NextSequenceKey env w r = Inr (key, w1, r1)" "ready env w1 r1" "wl_static w1 = wl_static w"
    using ready_NextSequenceKey [OF assms(1)] by blast
  obtain vs w2 r2 where 2: "BuildValues env w1 r1 = Inr (vs, w2, r2)" "ready env w2 r2" "wl_static w2 = wl_static w1"
    using ready_BuildValues [OF 1(2)] by blast
  show ?thesis using 1 2 insert_ok [OF assms(2), of "NextTable w2" key vs] by (auto simp: DoInsert_def)
qed

end

text \<open>A workload of updates only, which every draw of the operation chooser serves.\<close>

definition update_workload :: workload where
  "update_workload = sample_workload\<lparr>op_chooser := AddValue UPDATE (Fin 1) DiscreteGenerator, write_all_fields := True\<rparr>"

lemma update_workload_ready: "ready sample_env update_workload sample_random"
proof -
  have "Fin 0 + Fin 1 = Fin 1" by code_simp
  then have g: "dvalues (op_chooser update_workload) = [(UPDATE, Fin 1)]" "dsum (op_chooser update_workload) = Fin 1"
    by (simp_all add: update_workload_def AddValue_def DiscreteGenerator_def del: Fin_arith)
  have "discrete_loop (Fin max_unit_draw) (Fin 1) [(UPDATE, Fin 1)] = Some UPDATE" by code_simp
  then have "discrete_inv (op_chooser update_workload)"
    by (simp only: discrete_inv_def weights_ok_def g) (simp add: pos_fin_def)
  moreover have "workload_inv sample_env update_workload"
    using sample_workload_inv by (simp add: update_workload_def workload_inv_def)
  moreover have "chooser_ok update_workload"
    by (auto simp: chooser_ok_def update_workload_def sample_workload_simps Counter_Last_def)
  ultimately show ?thesis using unit_random_sample by (simp add: ready_def)
qed

end
