(* ===== verification/Command_Line.thy ===== *)
theory Command_Line
  imports Properties
begin

text \<open>
  ParseCommandLine of ycsbc.cc. The arguments are the list argv, whose length is argc; the file
  system is a function from names to streams. A call of exit carries the text printed before it.
  An exception of Properties::Load is not a std::string, so the handler of the code does not
  catch it and it propagates.
\<close>

section \<open>The function\<close>

definition UsageMessage :: "string \<Rightarrow> string" where
  "UsageMessage command =
     ''Usage: '' @ command @ '' [options]'' @ endl @
     ''Options:'' @ endl @
     ''  pattern: load/run/both'' @ endl @
     ''  load: load the database from file'' @ endl @
     ''  run: peforms transactions in the previous database'' @ endl @
     ''  both: load and run'' @ endl @
     ''  'load','run','both' must choose one'' @ endl @
     ''  -threads n: execute using n threads (default: 1)'' @ endl @
     ''  -d n: print DB stats in n seconds (default: 0,mean do not print stats info)'' @ endl @
     ''  -db dbname: specify the name of the DB to use (default: basic)'' @ endl @
     ''  -P propertyfile: load properties from the given file. Multiple files can'' @ endl @
     ''                   be specified, and will be processed in the order specified'' @ endl"

text \<open>strncmp over the length of the prefix; the program no longer calls it.\<close>

definition StrStartWith :: "string \<Rightarrow> string \<Rightarrow> bool" where
  "StrStartWith str pre = (take (length pre) str = pre)"

definition unknown_option :: "string \<Rightarrow> string" where
  "unknown_option a = ''Unknown option '' @ [CHR 0x27] @ a @ [CHR 0x27] @ endl"

text \<open>An option that takes a value: without one the program prints its usage and exits.\<close>

fun parse_args :: "(string \<Rightarrow> ifstream) \<Rightarrow> string \<Rightarrow> string list \<Rightarrow> string \<Rightarrow> properties \<Rightarrow> (string \<times> properties) result" where
  "parse_args files cmd [] filename props = Inr (filename, props)"
| "parse_args files cmd (a # args) filename props =
     (if a = ''-threads'' then
        (case args of [] \<Rightarrow> Inl (Exit 0 (UsageMessage cmd)) | v # args' \<Rightarrow> parse_args files cmd args' filename (SetProperty props ''threadcount'' v))
      else if a = ''load'' then parse_args files cmd args filename (SetProperty props ''pattern'' ''load'')
      else if a = ''run'' then parse_args files cmd args filename (SetProperty props ''pattern'' ''run'')
      else if a = ''both'' then parse_args files cmd args filename (SetProperty props ''pattern'' ''both'')
      else if a = ''-db'' then
        (case args of [] \<Rightarrow> Inl (Exit 0 (UsageMessage cmd)) | v # args' \<Rightarrow> parse_args files cmd args' filename (SetProperty props ''dbname'' v))
      else if a = ''-dbPath'' then
        (case args of [] \<Rightarrow> Inl (Exit 0 (UsageMessage cmd)) | v # args' \<Rightarrow> parse_args files cmd args' filename (SetProperty props ''dbPath'' v))
      else if a = ''-dbConfig'' then
        (case args of [] \<Rightarrow> Inl (Exit 0 (UsageMessage cmd)) | v # args' \<Rightarrow> parse_args files cmd args' filename (SetProperty props ''dbConfig'' v))
      else if a = ''-d'' then
        (case args of [] \<Rightarrow> Inl (Exit 0 (UsageMessage cmd)) | v # args' \<Rightarrow> parse_args files cmd args' filename (SetProperty props ''duration'' v))
      else if a = ''-host'' then
        (case args of [] \<Rightarrow> Inl (Exit 0 (UsageMessage cmd)) | v # args' \<Rightarrow> parse_args files cmd args' filename (SetProperty props ''host'' v))
      else if a = ''-port'' then
        (case args of [] \<Rightarrow> Inl (Exit 0 (UsageMessage cmd)) | v # args' \<Rightarrow> parse_args files cmd args' filename (SetProperty props ''port'' v))
      else if a = ''-slaves'' then
        (case args of [] \<Rightarrow> Inl (Exit 0 (UsageMessage cmd)) | v # args' \<Rightarrow> parse_args files cmd args' filename (SetProperty props ''slaves'' v))
      else if a = ''-P'' then
        (case args of [] \<Rightarrow> Inl (Exit 0 (UsageMessage cmd)) | v # args' \<Rightarrow>
           bindR (Load (files v) props) (\<lambda>props. parse_args files cmd args' v props))
      else Inl (Exit 0 (unknown_option a)))"

declare parse_args.simps [simp del]

text \<open>argv[0] is the null pointer when argc is 0.\<close>

definition ParseCommandLine :: "(string \<Rightarrow> ifstream) \<Rightarrow> string list \<Rightarrow> properties \<Rightarrow> (string \<times> properties) result" where
  "ParseCommandLine files argv props = (case argv of
       [] \<Rightarrow> Inl (Undefined_behaviour ''null pointer'')
     | cmd # args \<Rightarrow>
         bindR (parse_args files cmd args [] props) (\<lambda>(filename, props).
         if args = [] then Inl (Exit 0 (UsageMessage cmd))
         else if GetProperty props ''pattern'' [] = [] then Inl (Exit 0 (''Unknown pattern'' @ endl @ UsageMessage cmd))
         else Inr (filename, props)))"

section \<open>Command lines\<close>

text \<open>
  A well formed command line is a list of options: a pattern word, a flag with its value, or a
  property file. Its meaning is to apply the options from left to right.
\<close>

datatype cmd_opt = Opt_pattern string | Opt_flag string string | Opt_file string

definition flags :: "(string \<times> string) list" where
  "flags = [(''-threads'', ''threadcount''), (''-db'', ''dbname''), (''-dbPath'', ''dbPath''),
     (''-dbConfig'', ''dbConfig''), (''-d'', ''duration''), (''-host'', ''host''), (''-port'', ''port''),
     (''-slaves'', ''slaves'')]"

fun opt_ok :: "cmd_opt \<Rightarrow> bool" where
  "opt_ok (Opt_pattern p) \<longleftrightarrow> p \<in> {''load'', ''run'', ''both''}"
| "opt_ok (Opt_flag f v) \<longleftrightarrow> f \<in> fst ` set flags"
| "opt_ok (Opt_file f) \<longleftrightarrow> True"

fun show_opt :: "cmd_opt \<Rightarrow> string list" where
  "show_opt (Opt_pattern p) = [p]"
| "show_opt (Opt_flag f v) = [f, v]"
| "show_opt (Opt_file f) = [''-P'', f]"

fun apply_opts :: "(string \<Rightarrow> ifstream) \<Rightarrow> cmd_opt list \<Rightarrow> string \<Rightarrow> properties \<Rightarrow> (string \<times> properties) result" where
  "apply_opts files [] filename props = Inr (filename, props)"
| "apply_opts files (Opt_pattern p # os) filename props =
     apply_opts files os filename (props(''pattern'' \<mapsto> p))"
| "apply_opts files (Opt_flag f v # os) filename props =
     apply_opts files os filename (props(the (map_of flags f) \<mapsto> v))"
| "apply_opts files (Opt_file f # os) filename props =
     bindR (Load (files f) props) (\<lambda>props. apply_opts files os f props)"

text \<open>What the loop does on each option.\<close>

lemma parse_flag:
  "parse_args files cmd (''-threads'' # v # args) fn p = parse_args files cmd args fn (SetProperty p ''threadcount'' v)"
  "parse_args files cmd (''-db'' # v # args) fn p = parse_args files cmd args fn (SetProperty p ''dbname'' v)"
  "parse_args files cmd (''-dbPath'' # v # args) fn p = parse_args files cmd args fn (SetProperty p ''dbPath'' v)"
  "parse_args files cmd (''-dbConfig'' # v # args) fn p = parse_args files cmd args fn (SetProperty p ''dbConfig'' v)"
  "parse_args files cmd (''-d'' # v # args) fn p = parse_args files cmd args fn (SetProperty p ''duration'' v)"
  "parse_args files cmd (''-host'' # v # args) fn p = parse_args files cmd args fn (SetProperty p ''host'' v)"
  "parse_args files cmd (''-port'' # v # args) fn p = parse_args files cmd args fn (SetProperty p ''port'' v)"
  "parse_args files cmd (''-slaves'' # v # args) fn p = parse_args files cmd args fn (SetProperty p ''slaves'' v)"
  by (subst parse_args.simps, simp)+

lemma parse_pattern:
  "parse_args files cmd (''load'' # args) fn p = parse_args files cmd args fn (SetProperty p ''pattern'' ''load'')"
  "parse_args files cmd (''run'' # args) fn p = parse_args files cmd args fn (SetProperty p ''pattern'' ''run'')"
  "parse_args files cmd (''both'' # args) fn p = parse_args files cmd args fn (SetProperty p ''pattern'' ''both'')"
  by (subst parse_args.simps, simp)+

lemma parse_file:
  "parse_args files cmd (''-P'' # v # args) fn p = bindR (Load (files v) p) (\<lambda>p. parse_args files cmd args v p)"
  by (subst parse_args.simps, simp)

lemma parse_one:
  assumes "opt_ok opt"
  shows "parse_args files cmd (show_opt opt @ args) filename props =
    bindR (apply_opts files [opt] filename props) (\<lambda>(filename, props). parse_args files cmd args filename props)"
proof (cases opt)
  case (Opt_pattern p)
  then consider "p = ''load''" | "p = ''run''" | "p = ''both''" using assms by auto
  then show ?thesis by cases (simp_all add: Opt_pattern parse_pattern SetProperty_def)
next
  case (Opt_flag f v)
  then have "f \<in> fst ` set flags" using assms by simp
  then show ?thesis unfolding Opt_flag flags_def
    by (simp, elim disjE) (simp_all add: parse_flag SetProperty_def flags_def)
next
  case (Opt_file f)
  then show ?thesis by (cases "Load (files f) props") (simp_all add: parse_file)
qed

lemma apply_opts_Cons:
  "apply_opts files (opt # opts) filename props =
   bindR (apply_opts files [opt] filename props) (\<lambda>(filename, props). apply_opts files opts filename props)"
  by (cases opt) (auto simp: bindR_def split: sum.splits)

lemma parse_shown:
  "list_all opt_ok opts \<Longrightarrow>
   parse_args files cmd (concat (map show_opt opts) @ rest) filename props =
   bindR (apply_opts files opts filename props) (\<lambda>(filename, props). parse_args files cmd rest filename props)"
proof (induction opts arbitrary: filename props)
  case (Cons opt opts)
  then have ok: "opt_ok opt" and all: "list_all opt_ok opts" by simp_all
  show ?case
    unfolding list.map concat.simps append_assoc parse_one [OF ok] apply_opts_Cons [of files opt opts]
    using Cons.IH [OF all] by (simp add: bindR_def split: sum.splits prod.splits)
qed simp

text \<open>Every other head of the argument list ends the program.\<close>

lemma parse_stuck:
  assumes "a \<notin> {''load'', ''run'', ''both''}" "a \<noteq> ''-P''" "a \<notin> fst ` set flags"
  shows "parse_args files cmd (a # args) fn p = Inl (Exit 0 (unknown_option a))"
  using assms by (subst parse_args.simps) (simp add: flags_def)

lemma parse_no_value:
  assumes "a = ''-P'' \<or> a \<in> fst ` set flags"
  shows "parse_args files cmd [a] fn p = Inl (Exit 0 (UsageMessage cmd))"
  using assms unfolding flags_def by (subst parse_args.simps) (simp, elim disjE; simp)

text \<open>Why the loop ends the program at the head of an argument list.\<close>

definition known_options :: "string list" where
  "known_options = ''-P'' # [''load'', ''run'', ''both''] @ map fst flags"

definition stuck :: "string list \<Rightarrow> bool" where
  "stuck rest \<longleftrightarrow> (case rest of
       [] \<Rightarrow> False
     | a # args \<Rightarrow> a \<notin> set known_options \<or> args = [] \<and> (a = ''-P'' \<or> a \<in> fst ` set flags))"

definition stuck_text :: "string \<Rightarrow> string list \<Rightarrow> string" where
  "stuck_text cmd rest = (if hd rest \<in> set known_options then UsageMessage cmd else unknown_option (hd rest))"

lemma parse_stops:
  assumes "stuck rest"
  shows "parse_args files cmd rest fn p = Inl (Exit 0 (stuck_text cmd rest))"
proof (cases rest)
  case (Cons a args)
  show ?thesis
  proof (cases "a \<in> set known_options")
    case True
    then have "args = []" "a = ''-P'' \<or> a \<in> fst ` set flags" using assms Cons by (auto simp: stuck_def)
    then show ?thesis using True parse_no_value [of a] Cons by (simp add: stuck_text_def)
  next
    case False
    then show ?thesis using parse_stuck [of a] Cons by (auto simp: stuck_text_def known_options_def)
  qed
qed (use assms in \<open>simp add: stuck_def\<close>)

text \<open>An argument list is a well formed prefix followed by nothing or by an argument that ends the program.\<close>

lemma split_args:
  "\<exists>opts rest. list_all opt_ok opts \<and> args = concat (map show_opt opts) @ rest \<and> (rest = [] \<or> stuck rest)"
proof (induction args rule: length_induct)
  case (1 args)
  have split: "\<exists>opts rest. list_all opt_ok opts \<and> args = concat (map show_opt opts) @ rest \<and> (rest = [] \<or> stuck rest)"
    if opt: "opt_ok opt" "args = show_opt opt @ args'" for opt args'
  proof -
    have "show_opt opt \<noteq> []" by (cases opt) simp_all
    then obtain opts rest where "list_all opt_ok opts" "args' = concat (map show_opt opts) @ rest" "rest = [] \<or> stuck rest"
      using 1 [rule_format, of args'] opt(2) by auto
    then show ?thesis using opt by (intro exI [of _ "opt # opts"] exI [of _ rest]) simp
  qed
  show ?case
  proof (cases "args = [] \<or> stuck args")
    case True
    then show ?thesis by (intro exI [of _ "[]"] exI [of _ args]) simp
  next
    case False
    then obtain a args1 where args: "args = a # args1" by (cases args) auto
    have known: "a \<in> set known_options" "args1 = [] \<longrightarrow> a \<noteq> ''-P'' \<and> a \<notin> fst ` set flags"
      using False by (auto simp: args stuck_def)
    show ?thesis
    proof (cases "a \<in> {''load'', ''run'', ''both''}")
      case True
      then show ?thesis using split [of "Opt_pattern a" args1] args by simp
    next
      case False
      then have "a = ''-P'' \<or> a \<in> fst ` set flags" using known(1) by (auto simp: known_options_def)
      then obtain v args2 where "args1 = v # args2" using known(2) by (cases args1) auto
      then show ?thesis using \<open>a = ''-P'' \<or> a \<in> fst ` set flags\<close> args
        split [of "Opt_file v" args2] split [of "Opt_flag a v" args2] by auto
    qed
  qed
qed

text \<open>Applying options fails only at a property file that cannot be opened.\<close>

lemma apply_opts_fails:
  "apply_opts files opts fn p = Inl e \<Longrightarrow>
   e = Utils_exception ''File not open!'' \<and> (\<exists>f. Opt_file f \<in> set opts \<and> files f = Not_open)"
proof (induction opts arbitrary: fn p)
  case (Cons opt opts)
  show ?case
  proof (cases "\<exists>fn p. apply_opts files opts fn p = Inl e")
    case True
    then show ?thesis using Cons.IH by (meson list.set_intros(2))
  next
    case False
    then show ?thesis using Cons.prems
      by (cases opt) (auto simp: bindR_eq_Inl_iff Load_def split: ifstream.splits)
  qed
qed simp

text \<open>
  C36. What ParseCommandLine accepts and computes: it returns exactly on a command name followed by
  at least one well formed option, with some option or property file setting the pattern, and
  the result is that of applying the options from left to right, so that a later option or file
  overrides an earlier one. Every other argument list ends the program with the usage message
  (after Unknown pattern when no option sets one), or names the first argument that is no option,
  or raises the exception of a property file that cannot be opened.
\<close>

theorem ParseCommandLine_accepts:
  "(ParseCommandLine files argv props = Inr (fn, p) \<longleftrightarrow>
     (\<exists>cmd opts. argv = cmd # concat (map show_opt opts) \<and> opts \<noteq> [] \<and> list_all opt_ok opts \<and>
        apply_opts files opts [] props = Inr (fn, p) \<and> GetProperty p ''pattern'' [] \<noteq> [])) \<and>
   (ParseCommandLine files (cmd # args) props = Inl e \<longrightarrow>
     e = Exit 0 (UsageMessage cmd) \<or> e = Exit 0 (''Unknown pattern'' @ endl @ UsageMessage cmd) \<or>
     (\<exists>a\<in>set args - set known_options. e = Exit 0 (unknown_option a)) \<or>
     (\<exists>f\<in>set args. files f = Not_open \<and> e = Utils_exception ''File not open!''))"
proof (intro conjI impI iffI)
  assume ret: "ParseCommandLine files argv props = Inr (fn, p)"
  then obtain cmd args where argv: "argv = cmd # args" "args \<noteq> []"
    by (cases argv) (auto simp: ParseCommandLine_def bindR_eq_Inr_iff split: if_splits)
  obtain opts rest where opts: "list_all opt_ok opts" "args = concat (map show_opt opts) @ rest"
    "rest = [] \<or> stuck rest" using split_args by blast
  have run: "bindR (apply_opts files opts [] props) (\<lambda>(fn, p). parse_args files cmd rest fn p) = Inr (fn, p)"
    and pat: "GetProperty p ''pattern'' [] \<noteq> []"
    using ret argv opts(1,2) by (auto simp: ParseCommandLine_def parse_shown bindR_eq_Inr_iff split: if_splits)
  have "rest = []" using run opts(3) by (auto simp: bindR_eq_Inr_iff parse_stops)
  then show "\<exists>cmd opts. argv = cmd # concat (map show_opt opts) \<and> opts \<noteq> [] \<and> list_all opt_ok opts \<and>
      apply_opts files opts [] props = Inr (fn, p) \<and> GetProperty p ''pattern'' [] \<noteq> []"
    using run pat argv opts(1,2) by (auto simp: bindR_eq_Inr_iff parse_args.simps)
next
  assume "\<exists>cmd opts. argv = cmd # concat (map show_opt opts) \<and> opts \<noteq> [] \<and> list_all opt_ok opts \<and>
      apply_opts files opts [] props = Inr (fn, p) \<and> GetProperty p ''pattern'' [] \<noteq> []"
  then obtain cmd opts where opts: "argv = cmd # concat (map show_opt opts)" "opts \<noteq> []" "list_all opt_ok opts"
    "apply_opts files opts [] props = Inr (fn, p)" "GetProperty p ''pattern'' [] \<noteq> []" by blast
  have "show_opt opt \<noteq> []" for opt by (cases opt) simp_all
  then have "concat (map show_opt opts) \<noteq> []" using opts(2) by (cases opts) auto
  then show "ParseCommandLine files argv props = Inr (fn, p)"
    using opts parse_shown [OF opts(3), of files cmd "[]" "[]" props]
    by (simp add: ParseCommandLine_def parse_args.simps)
next
  assume fail: "ParseCommandLine files (cmd # args) props = Inl e"
  obtain opts rest where opts: "list_all opt_ok opts" "args = concat (map show_opt opts) @ rest"
    "rest = [] \<or> stuck rest" using split_args by blast
  have run: "parse_args files cmd args [] props =
      bindR (apply_opts files opts [] props) (\<lambda>(fn, p). parse_args files cmd rest fn p)"
    unfolding opts(2) by (rule parse_shown [OF opts(1)])
  have stop: "stuck rest \<Longrightarrow> hd rest \<in> set args" using opts(2) by (cases rest) (auto simp: stuck_def)
  have named: "Opt_file f \<in> set opts \<Longrightarrow> f \<in> set args" for f unfolding opts(2) by force
  show "e = Exit 0 (UsageMessage cmd) \<or> e = Exit 0 (''Unknown pattern'' @ endl @ UsageMessage cmd) \<or>
     (\<exists>a\<in>set args - set known_options. e = Exit 0 (unknown_option a)) \<or>
     (\<exists>f\<in>set args. files f = Not_open \<and> e = Utils_exception ''File not open!'')"
  proof (cases "apply_opts files opts [] props")
    case (Inl e')
    then show ?thesis using fail run apply_opts_fails [OF Inl] named by (auto simp: ParseCommandLine_def)
  next
    case (Inr x)
    show ?thesis
    proof (cases "rest = []")
      case True
      then show ?thesis using fail run Inr
        by (auto simp: ParseCommandLine_def parse_args.simps(1) split: if_splits prod.splits)
    next
      case False
      then show ?thesis using fail run Inr opts(3) stop
        by (auto simp: ParseCommandLine_def parse_stops stuck_text_def split: if_splits prod.splits)
    qed
  qed
qed

theorem ParseCommandLine_accepts_witness:
  "\<exists>e. ParseCommandLine (\<lambda>_. Not_open) [''ycsbc'', ''-threads'', ''4'', ''-P'', ''w''] Map.empty = Inl e \<and>
     e \<noteq> Exit 0 (unknown_option ''-threads'')"
proof -
  have "ParseCommandLine (\<lambda>_. Not_open) [''ycsbc'', ''-threads'', ''4'', ''-P'', ''w''] Map.empty =
      Inl (Utils_exception ''File not open!'')"
    by (simp add: ParseCommandLine_def parse_flag parse_file Load_def)
  then show ?thesis
    using ParseCommandLine_accepts [of "\<lambda>_. Not_open" "[]" Map.empty "[]" Map.empty "''ycsbc''"
        "[''-threads'', ''4'', ''-P'', ''w'']" "Utils_exception ''File not open!''"] by simp
qed

end
