(* ===== verification/Histogram_Text.thy ===== *)
theory Histogram_Text
  imports Histogram_Stats Cxx_Lib
begin

text \<open>
  What the histogram prints (StandardDeviation and ToString of utils/histogram.cc). sqrt is the
  correctly rounded square root, computed from an integer square root; the conversion f of
  snprintf prints the exact value of a double rounded to the requested number of decimals, and a
  call of snprintf keeps what fits into the buffer of 200 bytes. The text of a NaN, which may have
  a sign, is left to the library: it is a parameter.
\<close>

section \<open>The square root\<close>

fun isqrt :: "nat \<Rightarrow> nat" where
  "isqrt n = (if n = 0 then 0 else let r = 2 * isqrt (n div 4) in if (r + 1) * (r + 1) \<le> n then r + 1 else r)"

declare isqrt.simps [simp del]

lemma isqrt_bounds: "isqrt n * isqrt n \<le> n \<and> n < (isqrt n + 1) * (isqrt n + 1)"
proof (induction n rule: isqrt.induct)
  case (1 n)
  show ?case
  proof (cases "n = 0")
    case False
    define q where "q = isqrt (n div 4)"
    have IH: "q * q \<le> n div 4" "n div 4 < (q + 1) * (q + 1)" using "1.IH" [OF False] by (simp_all add: q_def)
    have "4 * (q * q) \<le> n" using IH(1) by linarith
    moreover have "n < 4 * ((q + 1) * (q + 1))" using IH(2) by linarith
    moreover have "isqrt n = (if (2 * q + 1) * (2 * q + 1) \<le> n then 2 * q + 1 else 2 * q)"
      using False by (subst isqrt.simps) (simp add: q_def Let_def)
    ultimately show ?thesis by (simp add: algebra_simps)
  qed (subst (1 2 3 4) isqrt.simps, simp)
qed

text \<open>The integer nearest to the square root of a rational, ties to even.\<close>

definition near_sqrt :: "rat \<Rightarrow> nat" where
  "near_sqrt s = (let f = isqrt (nat \<lfloor>s\<rfloor>); h = (of_nat f + 1/2) * (of_nat f + 1/2) in
     if s < h then f else if h < s then f + 1 else if even f then f else f + 1)"

definition sqrt_exp :: "rat \<Rightarrow> int" where
  "sqrt_exp x = ilog2 x div 2 - 52"

definition sqrt_pos :: "rat \<Rightarrow> rat" where
  "sqrt_pos x = of_nat (near_sqrt (x / (2 powi sqrt_exp x * 2 powi sqrt_exp x))) * 2 powi sqrt_exp x"

fun sqrt_d :: "double \<Rightarrow> double" where
  "sqrt_d (Fin x) = (if x < 0 then NaN else if x = 0 then Fin 0 else Fin (sqrt_pos x))"
| "sqrt_d PInf = PInf"
| "sqrt_d MInf = NaN"
| "sqrt_d NaN = NaN"

lemma near_sqrt_half:
  assumes "0 \<le> s"
  shows "near_sqrt s = 0 \<or> (of_nat (near_sqrt s) - 1/2) * (of_nat (near_sqrt s) - 1/2) \<le> s"
    and "s \<le> (of_nat (near_sqrt s) + 1/2) * (of_nat (near_sqrt s) + 1/2)"
proof -
  define f where "f = isqrt (nat \<lfloor>s\<rfloor>)"
  let ?F = "of_nat f :: rat"
  have b: "f * f \<le> nat \<lfloor>s\<rfloor>" "nat \<lfloor>s\<rfloor> < (f + 1) * (f + 1)"
    using isqrt_bounds [of "nat \<lfloor>s\<rfloor>"] by (simp_all add: f_def)
  have fl: "of_nat (nat \<lfloor>s\<rfloor>) \<le> s" "s < of_nat (nat \<lfloor>s\<rfloor>) + 1" using assms by linarith+
  have "?F * ?F = of_nat (f * f)" by simp
  also have "\<dots> \<le> of_nat (nat \<lfloor>s\<rfloor>)" using b(1) by (simp only: of_nat_le_iff)
  finally have lo: "?F * ?F \<le> s" using fl(1) by linarith
  have "of_nat (nat \<lfloor>s\<rfloor> + 1) \<le> (of_nat ((f + 1) * (f + 1)) :: rat)" using b(2) by (simp only: of_nat_le_iff)
  then have hi: "s < (?F + 1) * (?F + 1)" using fl(2) by (simp add: algebra_simps)
  have F: "0 \<le> ?F" by simp
  have cases: "near_sqrt s = f \<and> s \<le> (?F + 1/2) * (?F + 1/2) \<or> near_sqrt s = f + 1 \<and> (?F + 1/2) * (?F + 1/2) \<le> s"
    by (auto simp: near_sqrt_def f_def Let_def)
  have e: "(?F - 1/2) * (?F - 1/2) = ?F * ?F - ?F + 1/4" "(?F + 1 + 1/2) * (?F + 1 + 1/2) = (?F + 1) * (?F + 1) + ?F + 5/4"
    by (simp_all add: algebra_simps)
  have f1: "1 \<le> ?F" if "f \<noteq> 0" using that by simp
  show "near_sqrt s = 0 \<or> (of_nat (near_sqrt s) - 1/2) * (of_nat (near_sqrt s) - 1/2) \<le> s"
    using cases
  proof
    assume c: "near_sqrt s = f \<and> s \<le> (?F + 1/2) * (?F + 1/2)"
    show ?thesis
    proof (cases "f = 0")
      case False
      then have "(?F - 1/2) * (?F - 1/2) \<le> s" using e(1) f1 lo by linarith
      then show ?thesis using c by simp
    qed (use c in simp)
  next
    assume c: "near_sqrt s = f + 1 \<and> (?F + 1/2) * (?F + 1/2) \<le> s"
    have "of_nat (near_sqrt s) - 1/2 = ?F + 1/2" using c by simp
    then show ?thesis using c by (simp only:) simp
  qed
  show "s \<le> (of_nat (near_sqrt s) + 1/2) * (of_nat (near_sqrt s) + 1/2)"
    using cases
  proof
    assume c: "near_sqrt s = f + 1 \<and> (?F + 1/2) * (?F + 1/2) \<le> s"
    have "s \<le> (?F + 1 + 1/2) * (?F + 1 + 1/2)" unfolding e(2) using hi F by linarith
    then show ?thesis using c by (simp add: add.commute)
  qed simp
qed

text \<open>The result is the double nearest to the root: its error is at most half a unit in its last place.\<close>

lemma sqrt_pos_nearest:
  assumes "fin_d (Fin x)" "0 < x"
  defines "u \<equiv> 2 powi sqrt_exp x" and "m \<equiv> near_sqrt (x / (2 powi sqrt_exp x * 2 powi sqrt_exp x))"
  shows "sqrt_pos x = of_nat m * u" "2 ^ 52 \<le> m" "m \<le> 2 ^ 53"
    and "(sqrt_pos x - u / 2) * (sqrt_pos x - u / 2) \<le> x" "x \<le> (sqrt_pos x + u / 2) * (sqrt_pos x + u / 2)"
proof -
  let ?s = "x / (u * u)"
  have u: "0 < u" by (simp add: u_def)
  show r: "sqrt_pos x = of_nat m * u" by (simp add: sqrt_pos_def m_def u_def)
  have uu: "u * u = 2 powi (2 * (ilog2 x div 2) - 104)"
    by (simp add: u_def sqrt_exp_def power_int_add [symmetric] algebra_simps)
  have "2 * (ilog2 x div 2) \<le> ilog2 x" "ilog2 x + 1 \<le> 2 * (ilog2 x div 2) + 2" by linarith+
  then have "2 powi (2 * (ilog2 x div 2)) \<le> (2::rat) powi ilog2 x" "(2::rat) powi (ilog2 x + 1) \<le> 2 powi (2 * (ilog2 x div 2) + 2)"
    by (simp_all only: two_powi_mono)
  then have "2 powi (2 * (ilog2 x div 2)) \<le> x" "x < 2 powi (2 * (ilog2 x div 2) + 2)"
    using ilog2_bounds [OF assms(2)] by linarith+
  moreover have "2 powi (2 * (ilog2 x div 2)) = 2 ^ 104 * (u * u)" "2 powi (2 * (ilog2 x div 2) + 2) = 2 ^ 106 * (u * u)"
    by (simp_all add: uu power_int_diff power_int_add)
  ultimately have s: "2 ^ 104 \<le> ?s" "?s < 2 ^ 106" using u by (simp_all add: pos_le_divide_eq pos_divide_less_eq)
  have m: "m = near_sqrt ?s" by (simp add: m_def u_def)
  have s0: "0 \<le> ?s" using assms(2) u by simp
  have hi: "?s \<le> (of_nat m + 1/2) * (of_nat m + 1/2)" using near_sqrt_half(2) [OF s0] m by simp
  have "(2 ^ 52) ^ 2 \<le> (of_nat m + 1/2 :: rat) ^ 2" using s(1) hi by (simp add: power2_eq_square)
  then have "(2 ^ 52 :: rat) \<le> of_nat m + 1/2" by (rule power2_le_imp_le) simp
  then have "(of_nat (2 ^ 52) :: rat) < of_nat (m + 1)" by simp
  then have "2 ^ 52 < m + 1" by (simp only: of_nat_less_iff)
  then show m52: "2 ^ 52 \<le> m" by simp
  have lo: "(of_nat m - 1/2) * (of_nat m - 1/2) \<le> ?s" using near_sqrt_half(1) [OF s0] m m52 by simp
  have "(of_nat m - 1/2 :: rat) ^ 2 < (2 ^ 53) ^ 2" using s(2) lo by (simp add: power2_eq_square)
  then have "(of_nat m - 1/2 :: rat) < 2 ^ 53" by (rule power2_less_imp_less) simp
  then have "(of_nat m :: rat) < of_nat (2 ^ 53 + 1)" by simp
  then have "m < 2 ^ 53 + 1" by (simp only: of_nat_less_iff)
  then show "m \<le> 2 ^ 53" by simp
  have e: "(of_nat m * u - u / 2) * (of_nat m * u - u / 2) = (of_nat m - 1/2) * (of_nat m - 1/2) * (u * u)"
    "(of_nat m * u + u / 2) * (of_nat m * u + u / 2) = (of_nat m + 1/2) * (of_nat m + 1/2) * (u * u)"
    by (simp_all add: algebra_simps)
  show "(sqrt_pos x - u / 2) * (sqrt_pos x - u / 2) \<le> x" "x \<le> (sqrt_pos x + u / 2) * (sqrt_pos x + u / 2)"
    unfolding r e using lo hi u by (simp_all add: pos_le_divide_eq pos_divide_le_eq)
qed

lemma sqrt_exp_bounds:
  assumes "fin_d (Fin x)" "0 < x"
  shows "- 1074 \<le> sqrt_exp x" "sqrt_exp x \<le> 459"
proof -
  have x: "x = rnd_pos x" "x < 2 powi 1024" using assms by (simp_all add: is_double_def rnd_def)
  obtain m where m: "rnd_pos x = of_int m * 2 powi ulp_exp x" "0 \<le> m" "m \<le> 2 ^ 53"
    by (rule rnd_pos_form [OF assms(2)])
  have "m \<noteq> 0" using m(1) x(1) assms(2) by auto
  then have "1 * 2 powi ulp_exp x \<le> (of_int m :: rat) * 2 powi ulp_exp x" using m(2) by (intro mult_right_mono) simp_all
  then have "2 powi ulp_exp x \<le> x" using m(1) x(1) by (metis mult_1)
  moreover have "(2::rat) powi (- 1074) \<le> 2 powi ulp_exp x" by (rule two_powi_mono [OF ulp_exp_ge])
  ultimately have "(2::rat) powi (- 1074) < 2 powi (ilog2 x + 1)" using ilog2_bounds(2) [OF assms(2)] by linarith
  then have "- 1074 < ilog2 x + 1" by (simp only: two_powi_less_iff)
  then show "- 1074 \<le> sqrt_exp x" by (simp add: sqrt_exp_def)
  have "(2::rat) powi ilog2 x < 2 powi 1024" using ilog2_bounds(1) [OF assms(2)] x(2) by linarith
  then have "ilog2 x < 1024" by (simp only: two_powi_less_iff)
  then show "sqrt_exp x \<le> 459" by (simp add: sqrt_exp_def)
qed

lemma sqrt_d_fin:
  assumes "fin_d (Fin x)" "0 < x"
  shows "sqrt_d (Fin x) = Fin (sqrt_pos x)" "fin_d (Fin (sqrt_pos x))"
proof -
  show "sqrt_d (Fin x) = Fin (sqrt_pos x)" using assms(2) by simp
  define m where "m = near_sqrt (x / (2 powi sqrt_exp x * 2 powi sqrt_exp x))"
  have m: "sqrt_pos x = of_nat m * 2 powi sqrt_exp x" "m \<le> 2 ^ 53"
    using sqrt_pos_nearest(1,3) [OF assms] by (simp_all add: m_def)
  have "is_double (of_int (int m) * 2 powi sqrt_exp x)"
    using m(2) sqrt_exp_bounds(1) [OF assms] by (intro is_double_rep) simp_all
  moreover have "(of_nat m :: rat) * 2 powi sqrt_exp x < 2 powi 1024"
  proof -
    have "(of_nat m :: rat) \<le> of_nat (2 ^ 53)" using m(2) by (simp only: of_nat_le_iff)
    then have "(of_nat m :: rat) \<le> 2 powi 53" by simp
    then have "(of_nat m :: rat) * 2 powi sqrt_exp x \<le> 2 powi 53 * 2 powi 459"
      using two_powi_mono [OF sqrt_exp_bounds(2) [OF assms]] by (intro mult_mono) simp_all
    also have "(2::rat) powi 53 * 2 powi 459 = 2 powi (53 + 459)" by (rule two_powi_add [symmetric])
    also have "(2::rat) powi (53 + 459) < 2 powi 1024" by (subst two_powi_less_iff) simp
    finally show ?thesis .
  qed
  ultimately show "fin_d (Fin (sqrt_pos x))" unfolding m(1) by simp
qed

section \<open>snprintf\<close>

text \<open>The conversions \%.pf and \%w.pf, and the call, whose buffer holds 199 characters and the NUL.\<close>

definition fixed_nat :: "nat \<Rightarrow> nat \<Rightarrow> string" where
  "fixed_nat p m = (let ds = digits10 m; zs = replicate (p + 1 - length ds) (CHR ''0'') @ ds; k = length zs - p
     in if p = 0 then zs else take k zs @ CHR ''.'' # drop k zs)"

fun fmt_f :: "string \<Rightarrow> nat \<Rightarrow> double \<Rightarrow> string" where
  "fmt_f nan p (Fin q) = (if q < 0 then ''-'' else []) @ fixed_nat p (nat (round_even (\<bar>q\<bar> * 10 ^ p)))"
| "fmt_f nan p PInf = ''inf''"
| "fmt_f nan p MInf = ''-inf''"
| "fmt_f nan p NaN = nan"

definition fmt_wf :: "string \<Rightarrow> nat \<Rightarrow> nat \<Rightarrow> double \<Rightarrow> string" where
  "fmt_wf nan w p d = (let s = fmt_f nan p d in replicate (w - length s) (CHR '' '') @ s)"

definition snprintf200 :: "string \<Rightarrow> string" where
  "snprintf200 s = take 199 s"

section \<open>StandardDeviation and ToString\<close>

definition StandardDeviation :: "histogram \<Rightarrow> double" where
  "StandardDeviation h =
     (if hnum h = 0 then 0
      else let variance = (hsum_squares h * hnum h - hsum h * hsum h) / (hnum h * hnum h) in sqrt_d variance)"

definition bucket_row :: "string \<Rightarrow> double \<Rightarrow> double \<Rightarrow> nat \<Rightarrow> double \<Rightarrow> string" where
  "bucket_row nan scale cum b c =
     ''[ '' @ fmt_wf nan 7 0 (if b = 0 then Fin 0 else kBucketLimit ! (b - 1)) @ '', '' @
     fmt_wf nan 7 0 (kBucketLimit ! b) @ '' ) '' @ fmt_wf nan 7 0 c @ '' '' @
     fmt_wf nan 7 3 (scale * c) @ ''% '' @ fmt_wf nan 7 3 (scale * cum) @ ''% ''"

text \<open>A negative number of marks would become a huge count, which append refuses.\<close>

fun bucket_rows :: "string \<Rightarrow> double \<Rightarrow> double \<Rightarrow> nat \<Rightarrow> double \<Rightarrow> double list \<Rightarrow> string result" where
  "bucket_rows nan num scale b cum [] = Inr []"
| "bucket_rows nan num scale b cum (c # cs) =
     (if c \<le> Fin 0 then bucket_rows nan num scale (b + 1) cum cs
      else let cum = cum + c in
        bindR (int_of_d (Fin 20 * (c / num) + Fin (1/2))) (\<lambda>marks.
        if marks < 0 then Inl (Length_error ''basic_string::_M_replace_aux'')
        else bindR (bucket_rows nan num scale (b + 1) cum cs) (\<lambda>r.
          Inr (snprintf200 (bucket_row nan scale cum b c) @ replicate (nat marks) (CHR ''#'') @ [CHR 0x0A] @ r))))"

definition report_head :: "string \<Rightarrow> histogram \<Rightarrow> string" where
  "report_head nan h =
     snprintf200 (''Count: '' @ fmt_f nan 0 (hnum h) @ ''  Average: '' @ fmt_f nan 4 (Average h) @
       ''  StdDev: '' @ fmt_f nan 2 (StandardDeviation h) @ [CHR 0x0A]) @
     snprintf200 (''Min: '' @ fmt_f nan 4 (if hnum h = 0 then 0 else hmin h) @ ''  Median: '' @ fmt_f nan 4 (Median h) @
       ''  Max: '' @ fmt_f nan 4 (hmax h) @ ''  P95: '' @ fmt_f nan 4 (Percentile h (Fin 95)) @
       ''  P99: '' @ fmt_f nan 4 (Percentile h (Fin 99)) @
       ''  P99.9: '' @ fmt_f nan 4 (Percentile h (of_rat_d (999 / 10))) @ [CHR 0x0A]) @
     replicate 54 (CHR ''-'') @ [CHR 0x0A]"

definition ToString :: "string \<Rightarrow> histogram \<Rightarrow> string result" where
  "ToString nan h =
     (let scale = Fin 100 / hnum h in
      bindR (bucket_rows nan (hnum h) scale 0 (Fin 0) (buckets h)) (\<lambda>r. Inr (report_head nan h @ r)))"

section \<open>The width of what is printed\<close>

lemma length_fixed_nat: "p + 1 \<le> k \<Longrightarrow> m < 10 ^ k \<Longrightarrow> length (fixed_nat p m) \<le> k + 1"
proof -
  assume k: "p + 1 \<le> k" "m < 10 ^ k"
  define zs where "zs = replicate (p + 1 - length (digits10 m)) (CHR ''0'') @ digits10 m"
  have "length (digits10 m) \<le> k" using length_digits10_le [of k m] k by simp
  then have "length zs \<le> k" using k(1) by (simp add: zs_def)
  moreover have "fixed_nat p m = (if p = 0 then zs else take (length zs - p) zs @ CHR ''.'' # drop (length zs - p) zs)"
    by (simp only: fixed_nat_def Let_def zs_def)
  moreover have "length (take j zs @ CHR ''.'' # drop j zs) = length zs + 1" for j by simp
  ultimately show ?thesis by (cases "p = 0") auto
qed

lemma fmt_f_nat: "fmt_f nan 0 (Fin (of_nat n)) = digits10 n"
proof -
  have "round_even (of_nat n) = int n" using round_even_of_int [of "int n"] by simp
  moreover have "replicate (1 - length (digits10 n)) (CHR ''0'') = []" by (cases "digits10 n") simp_all
  ultimately show ?thesis by (simp add: fixed_nat_def Let_def)
qed

lemma length_fmt_wf_nat: "0 < k \<Longrightarrow> n < 10 ^ k \<Longrightarrow> length (fmt_wf nan 7 0 (Fin (of_nat n))) \<le> max 7 k"
  using length_digits10_le [of k n] by (simp add: fmt_wf_def Let_def fmt_f_nat del: fmt_f.simps)

lemma length_fmt_percent:
  assumes "0 \<le> q" "q \<le> 200"
  shows "length (fmt_wf nan 7 3 (Fin q)) \<le> 7"
proof -
  have "0 \<le> round_even (q * 10 ^ 3)" using assms by (intro round_even_ge) simp
  moreover have "round_even (q * 10 ^ 3) \<le> 200000" using assms by (intro round_even_le) simp
  ultimately have "length (fixed_nat 3 (nat (round_even (q * 10 ^ 3)))) \<le> 6 + 1" by (intro length_fixed_nat) simp_all
  then show ?thesis using assms by (simp add: fmt_wf_def Let_def)
qed

lemma percent_bounds:
  assumes "c \<le> n" "0 < n" "n \<le> 2 ^ 53"
  shows "\<exists>q. Fin 100 / Fin (of_nat n) * Fin (of_nat c) = Fin q \<and> 0 \<le> q \<and> q \<le> 200"
proof -
  let ?y = "100 / of_nat n :: rat"
  have n: "1 \<le> (of_nat n :: rat)" "(of_nat n :: rat) \<le> 2 ^ 53" "(of_nat c :: rat) \<le> of_nat n"
    using assms of_nat_mono [OF assms(3), where ?'a = rat] by simp_all
  have y: "0 \<le> ?y" "?y \<le> 200" using n(1) by (simp_all add: divide_le_eq)
  have "2 powi (- 1022) \<le> (2::rat) powi (- 53)" by (rule two_powi_mono) simp
  also have "(2::rat) powi (- 53) = 1 / 2 ^ 53" by (simp add: power_int_minus)
  also have "(1::rat) / 2 ^ 53 \<le> 1 / of_nat n" using n by (intro divide_left_mono) simp_all
  also have "\<dots> \<le> ?y" using n by (simp add: divide_right_mono)
  finally have "\<bar>rnd ?y - ?y\<bar> \<le> ?y / 2 ^ 53" by (rule rnd_err)
  moreover have "?y / 2 ^ 53 \<le> ?y" using y(1) by (simp add: divide_le_eq)
  ultimately have le: "rnd ?y \<le> 2 * ?y" by linarith
  have fin: "fin_d (Fin 0)" "fin_d (Fin 200)" using fin_d_int [of 0] fin_d_int [of 200] by simp_all
  have r: "of_rat_d ?y = Fin (rnd ?y)" "0 \<le> rnd ?y" using of_rat_d_bounded [OF y fin] by simp_all
  have "rnd ?y * of_nat c \<le> 2 * ?y * of_nat n" using le n(3) r(2) y(1) by (intro mult_mono) simp_all
  also have "\<dots> = 200" using n(1) by simp
  finally have "of_rat_d (rnd ?y * of_nat c) = Fin (rnd (rnd ?y * of_nat c))"
    "0 \<le> rnd (rnd ?y * of_nat c)" "rnd (rnd ?y * of_nat c) \<le> 200"
    using of_rat_d_bounded [OF _ _ fin] r(2) by simp_all
  then show ?thesis using r(1) n(1) by simp
qed

lemma marks_bounds:
  assumes "c \<le> n" "0 < n" "n \<le> 2 ^ 53"
  shows "\<exists>m. int_of_d (Fin 20 * (Fin (of_nat c) / Fin (of_nat n)) + Fin (1/2)) = Inr m \<and> 0 \<le> m \<and> m \<le> 20"
proof -
  have n: "1 \<le> (of_nat n :: rat)" "(of_nat c :: rat) \<le> of_nat n" using assms(1,2) by simp_all
  have fin: "fin_d (Fin 0)" "fin_d (Fin 1)" "fin_d (Fin 20)" "fin_d (Fin (41/2))"
    using fin_d_int [of 0] fin_d_int [of 1] fin_d_int [of 20] fin_d_dyadic [of 41 1] by simp_all
  have "0 \<le> of_nat c / (of_nat n :: rat)" "of_nat c / (of_nat n :: rat) \<le> 1" using n by (simp_all add: divide_le_eq)
  note 1 = of_rat_d_bounded [OF this fin(1,2)]
  let ?a = "rnd (of_nat c / of_nat n)"
  have "0 \<le> 20 * ?a" "20 * ?a \<le> 20" using 1(2,3) by simp_all
  note 2 = of_rat_d_bounded [OF this fin(1,3)]
  have "0 \<le> rnd (20 * ?a) + 1/2" "rnd (20 * ?a) + 1/2 \<le> 41/2" using 2(2,3) by simp_all
  note 3 = of_rat_d_bounded [OF this fin(1,4)]
  let ?v = "rnd (rnd (20 * ?a) + 1/2)"
  have "0 \<le> \<lfloor>?v\<rfloor>" "\<lfloor>?v\<rfloor> \<le> 20" using 3(2,3) by linarith+
  then show ?thesis using 1(1) 2(1) 3(1,2) n(1) by (simp add: trunc_rat_def Let_def)
qed

section \<open>The rows\<close>

text \<open>The samples in the buckets up to b, and the text of a row as it is seen.\<close>

definition up_to :: "rat list \<Rightarrow> nat \<Rightarrow> nat" where
  "up_to xs b = sum_list (map (in_bucket xs) [0..<b])"

definition shown_row :: "string \<Rightarrow> rat list \<Rightarrow> nat \<Rightarrow> string" where
  "shown_row nan xs b =
     (if b < 153 then bucket_row nan (Fin 100 / Fin (of_nat (length xs))) (Fin (of_nat (up_to xs (b + 1)))) b
        (Fin (of_nat (in_bucket xs b)))
      else ''[ 9000000000, '' @ take 185 (digits10 (nat (round_even top_limit))))"

lemma up_to_Suc: "up_to xs (b + 1) = up_to xs b + in_bucket xs b"
  by (simp add: up_to_def)

lemma up_to_le:
  assumes "b \<le> 154"
  shows "up_to xs b \<le> length xs"
proof -
  have "[0..<154] = [0..<b] @ [b..<154]" using assms upt_add_eq_append [of 0 b "154 - b"] by simp
  then show ?thesis using sum_in_bucket [of xs] by (simp add: up_to_def)
qed

lemma row_fits:
  assumes "b < 153" "0 < length xs" "length xs \<le> 2 ^ 53"
  shows "snprintf200 (bucket_row nan (Fin 100 / Fin (of_nat (length xs))) (Fin (of_nat (up_to xs (b + 1)))) b
           (Fin (of_nat (in_bucket xs b)))) = shown_row nan xs b"
proof -
  let ?n = "length xs" let ?c = "in_bucket xs b" let ?s = "up_to xs (b + 1)"
  have b: "b < 154" using assms(1) by simp
  obtain l where l: "left_of b = of_int l" "0 \<le> l" "l \<le> 9000000000" by (rule left_of_int [OF b])
  obtain r where r: "right_of b = of_int r" "0 \<le> r" "r \<le> 9000000000" by (rule right_of_int [OF assms(1)])
  have lim: "left_of b = of_nat (nat l)" "right_of b = of_nat (nat r)" "nat l < 10 ^ 10" "nat r < 10 ^ 10"
    using l r by simp_all
  have c: "?c \<le> ?n" "?s \<le> ?n" using in_bucket_le up_to_le [of "b + 1"] assms(1) by simp_all
  obtain p q where p: "Fin 100 / Fin (of_nat ?n) * Fin (of_nat ?c) = Fin p" "0 \<le> p" "p \<le> 200"
    and q: "Fin 100 / Fin (of_nat ?n) * Fin (of_nat ?s) = Fin q" "0 \<le> q" "q \<le> 200"
    using percent_bounds [OF c(1) assms(2,3)] percent_bounds [OF c(2) assms(2,3)] by blast
  have "?c < 10 ^ 16" using c(1) assms(3) by simp
  then have len: "length (fmt_wf nan 7 0 (Fin (of_nat ?c))) \<le> max 7 16" "length (fmt_wf nan 7 0 (Fin (left_of b))) \<le> max 7 10"
    "length (fmt_wf nan 7 0 (Fin (right_of b))) \<le> max 7 10"
    unfolding lim(1,2) using lim(3,4) by (simp_all only: length_fmt_wf_nat zero_less_numeral)
  have "length (bucket_row nan (Fin 100 / Fin (of_nat ?n)) (Fin (of_nat ?s)) b (Fin (of_nat ?c))) \<le> 199"
    unfolding bucket_row_def limit_points [OF b] p(1) q(1) length_append
    using len length_fmt_percent [OF p(2,3), of nan] length_fmt_percent [OF q(2,3), of nan] by simp
  then show ?thesis using assms(1) by (simp add: snprintf200_def shown_row_def)
qed

text \<open>The limit of the last bucket has at least 200 digits, so its row ends inside it.\<close>

lemma top_limit_digits: "200 \<le> length (digits10 (nat (round_even top_limit)))"
proof -
  have "is_double (of_int 1 * 2 powi 664)" by (rule is_double_rep) simp_all
  moreover have "(of_int 1 * 2 powi 664 :: rat) \<le> 10 ^ 200" by simp
  ultimately have "of_int 1 * 2 powi 664 \<le> top_limit" unfolding top_limit_def by (intro rnd_ge_double)
  moreover have "of_int (10 ^ 199) \<le> (of_int 1 * 2 powi 664 :: rat)" by simp
  ultimately have "10 ^ 199 \<le> round_even top_limit" by (intro round_even_ge) linarith
  then have "\<not> nat (round_even top_limit) < 10 ^ 199" by (simp add: nat_less_iff)
  then show ?thesis using length_digits10_le [of 199 "nat (round_even top_limit)"] by simp
qed

lemma last_row_cut: "snprintf200 (bucket_row nan sc cum 153 c) = shown_row nan xs 153"
proof -
  have "left_of 153 = of_nat 9000000000" by (simp add: left_of_def bucket_limit_ints_def)
  moreover have "digits10 9000000000 = ''9000000000''"
    by (simp add: digits10.simps [of "numeral n" for n] digit_char_def char_of_def bit_0)
  ultimately have l: "fmt_wf nan 7 0 (Fin (left_of 153)) = ''9000000000''"
    by (simp add: fmt_wf_def fmt_f_nat Let_def del: fmt_f.simps of_nat_numeral)
  have "0 \<le> top_limit" using top_limit_bounds(1) by (rule order_trans [rotated]) simp
  then have "fmt_f nan 0 (Fin top_limit) = digits10 (nat (round_even top_limit))"
    using top_limit_digits by (simp add: fixed_nat_def Let_def)
  then have r: "fmt_wf nan 7 0 (Fin top_limit) = digits10 (nat (round_even top_limit))"
    using top_limit_digits by (simp add: fmt_wf_def Let_def)
  have b: "(153::nat) < 154" "right_of 153 = top_limit" by (simp_all add: right_of_def)
  show ?thesis
    unfolding snprintf200_def bucket_row_def limit_points [OF b(1)] b(2) l r shown_row_def
    using top_limit_digits by simp
qed

lemma shown_rows:
  assumes "length xs \<le> 2 ^ 53" "b \<le> 154"
  shows "\<exists>marks. (\<forall>i. marks i \<le> 20) \<and>
    bucket_rows nan (Fin (of_nat (length xs))) (Fin 100 / Fin (of_nat (length xs))) b (Fin (of_nat (up_to xs b)))
      (map (\<lambda>i. Fin (of_nat (in_bucket xs i))) [b..<154]) =
    Inr (concat (map (\<lambda>i. shown_row nan xs i @ replicate (marks i) (CHR ''#'') @ [CHR 0x0A])
      (filter (\<lambda>i. 0 < in_bucket xs i) [b..<154])))"
  using assms(2)
proof (induction "154 - b" arbitrary: b)
  case 0
  then show ?case by (intro exI [of _ "\<lambda>_. 0"]) simp
next
  case (Suc k)
  let ?n = "length xs" let ?c = "in_bucket xs b" let ?sc = "Fin 100 / Fin (of_nat (length xs))"
  have b: "b < 154" "k = 154 - (b + 1)" "b + 1 \<le> 154" using Suc(2) by simp_all
  have upt: "[b..<154] = b # [b + 1..<154]" using b(1) by (simp add: upt_conv_Cons)
  obtain marks where IH: "\<forall>i. marks i \<le> 20"
    "bucket_rows nan (Fin (of_nat ?n)) ?sc (b + 1) (Fin (of_nat (up_to xs (b + 1))))
      (map (\<lambda>i. Fin (of_nat (in_bucket xs i))) [b + 1..<154]) =
    Inr (concat (map (\<lambda>i. shown_row nan xs i @ replicate (marks i) (CHR ''#'') @ [CHR 0x0A])
      (filter (\<lambda>i. 0 < in_bucket xs i) [b + 1..<154])))"
    using Suc(1) [OF b(2,3)] by blast
  show ?case
  proof (cases "?c = 0")
    case True
    then have "up_to xs (b + 1) = up_to xs b" unfolding up_to_Suc by simp
    then show ?thesis using IH True unfolding upt by (intro exI [of _ marks]) simp
  next
    case False
    then have n: "0 < ?n" using in_bucket_le [of xs b] by linarith
    obtain m where m: "int_of_d (Fin 20 * (Fin (of_nat ?c) / Fin (of_nat ?n)) + Fin (1/2)) = Inr m" "0 \<le> m" "m \<le> 20"
      using marks_bounds [OF in_bucket_le n assms(1)] by blast
    have cum: "Fin (of_nat (up_to xs b)) + Fin (of_nat ?c) = Fin (of_nat (up_to xs (b + 1)))"
      using up_to_le [OF b(3), of xs] assms(1) unfolding up_to_Suc by (intro add_nat_d) simp
    have row: "snprintf200 (bucket_row nan ?sc (Fin (of_nat (up_to xs (b + 1)))) b (Fin (of_nat ?c))) = shown_row nan xs b"
    proof (cases "b < 153")
      case False
      then have "b = 153" using b(1) by simp
      then show ?thesis using last_row_cut by metis
    qed (rule row_fits [OF _ n assms(1)])
    have tail: "concat (map (\<lambda>i. shown_row nan xs i @ replicate ((marks(b := nat m)) i) (CHR ''#'') @ [CHR 0x0A])
        (filter (\<lambda>i. 0 < in_bucket xs i) [b + 1..<154])) =
      concat (map (\<lambda>i. shown_row nan xs i @ replicate (marks i) (CHR ''#'') @ [CHR 0x0A])
        (filter (\<lambda>i. 0 < in_bucket xs i) [b + 1..<154]))"
      by (intro arg_cong [where f = concat] map_cong) auto
    have pos: "\<not> Fin (of_nat ?c) \<le> Fin 0" using False by simp
    have "bucket_rows nan (Fin (of_nat ?n)) ?sc b (Fin (of_nat (up_to xs b)))
        (map (\<lambda>i. Fin (of_nat (in_bucket xs i))) [b..<154]) =
      Inr (shown_row nan xs b @ replicate (nat m) (CHR ''#'') @ [CHR 0x0A] @
        concat (map (\<lambda>i. shown_row nan xs i @ replicate (marks i) (CHR ''#'') @ [CHR 0x0A])
          (filter (\<lambda>i. 0 < in_bucket xs i) [b + 1..<154])))"
      unfolding upt list.map bucket_rows.simps if_not_P [OF pos] Let_def cum m(1) bindR_Inr row IH(2)
      using m(2) by simp
    then show ?thesis using IH(1) m False unfolding upt tail [symmetric]
      by (intro exI [of _ "marks(b := nat m)"]) simp
  qed
qed

lemma ToString_repr:
  assumes "hist_repr h xs"
  shows "\<exists>marks. (\<forall>b. marks b \<le> 20) \<and> ToString nan h = Inr (report_head nan h @
           concat (map (\<lambda>b. shown_row nan xs b @ replicate (marks b) (CHR ''#'') @ [CHR 0x0A])
             (filter (\<lambda>b. 0 < in_bucket xs b) [0..<154])))"
proof -
  have h: "length xs \<le> 2 ^ 53" "hnum h = Fin (of_nat (length xs))"
    "buckets h = map (\<lambda>b. Fin (of_nat (in_bucket xs b))) [0..<154]" using assms by (simp_all add: hist_repr_def)
  have "up_to xs 0 = 0" by (simp add: up_to_def)
  then show ?thesis using shown_rows [OF h(1), of 0 nan] unfolding ToString_def Let_def h(2,3) by auto
qed

section \<open>Properties\<close>

text \<open>
  C37. ToString returns for every histogram that represents samples, and prints one row per bucket
  that holds a sample, in order, with at most 20 marks: the limits of the bucket, its count, its
  share and the share of all samples up to it, in full, except that the row of the last bucket
  (latencies from 9000 seconds) is cut by the buffer inside the digits of its upper limit, so its
  count and its shares are never shown.
\<close>

theorem ToString_rows:
  assumes "hist_repr h xs"
  shows "\<exists>marks. (\<forall>b. marks b \<le> 20) \<and> ToString nan h = Inr (report_head nan h @
           concat (map (\<lambda>b. shown_row nan xs b @ replicate (marks b) (CHR ''#'') @ [CHR 0x0A])
             (filter (\<lambda>b. 0 < in_bucket xs b) [0..<154])))"
  using ToString_repr [OF assms] .

theorem ToString_rows_witness:
  "\<exists>h marks. AddFast_all (Clear sample_histogram) (map (\<lambda>n. of_rat_d (of_int n / 1000)) [1500, 10 ^ 14]) = Inr h \<and>
     (\<forall>b. marks b \<le> 20) \<and> ToString ''nan'' h = Inr (report_head ''nan'' h @
       concat (map (\<lambda>b. shown_row ''nan'' [us_value (10 ^ 14), us_value 1500] b @ replicate (marks b) (CHR ''#'') @ [CHR 0x0A])
         (filter (\<lambda>b. 0 < in_bucket [us_value (10 ^ 14), us_value 1500] b) [0..<154])))"
proof -
  have "length ([] :: rat list) + length [1500, 10 ^ 14 :: int] \<le> 2 ^ 53" "\<forall>n\<in>set [1500, 10 ^ 14 :: int]. \<bar>n\<bar> \<le> 2 ^ 53"
    by simp_all
  from AddFast_all_repr [OF hist_repr_Clear this, of sample_histogram]
  obtain h where h: "AddFast_all (Clear sample_histogram) (map (\<lambda>n. of_rat_d (of_int n / 1000)) [1500, 10 ^ 14]) = Inr h"
    and r: "hist_repr h [us_value (10 ^ 14), us_value 1500]" by auto
  show ?thesis using h ToString_rows [OF r, of "''nan''"] by blast
qed

text \<open>Rounding at a known exponent, to follow a computation step by step.\<close>

lemma of_rat_at:
  assumes "2 ^ 52 \<le> x * 2 ^ k" "x * 2 ^ k < 2 ^ 53" "k \<le> 1074"
  shows "of_rat_d x = Fin (of_int (round_even (x * 2 ^ k)) / 2 ^ k)"
    and "of_rat_d (- x) = Fin (- (of_int (round_even (x * 2 ^ k)) / 2 ^ k))"
    and "rnd x = of_int (round_even (x * 2 ^ k)) / 2 ^ k"
proof -
  have e: "(2::rat) powi (- int k) = 1 / 2 ^ k" by (simp add: power_int_minus field_simps)
  have "2 powi (52 - int k) = (2::rat) ^ 52 / 2 ^ k" "2 powi (52 - int k + 1) = (2::rat) ^ 53 / 2 ^ k"
    by (simp_all add: power_int_diff power_int_add)
  then have "2 powi (52 - int k) \<le> x" "x < 2 powi (52 - int k + 1)"
    using assms(1,2) by (simp_all add: divide_le_eq less_divide_eq)
  then have "ilog2 x = 52 - int k" by (rule ilog2_unique)
  then have u: "ulp_exp x = - int k" using assms(3) by (simp add: ulp_exp_def)
  have x: "0 < x" using assms(1) by (rule_tac zero_less_mult_pos2 [of x "2 ^ k"]) simp_all
  let ?m = "round_even (x * 2 ^ k)"
  show r: "rnd x = of_int ?m / 2 ^ k" using x by (simp add: rnd_def rnd_pos_def u e)
  have "?m \<le> 2 ^ 53" using assms(2) by (intro round_even_le) simp
  moreover have "0 \<le> ?m" using x by (intro round_even_ge) simp
  ultimately have "fin_d (Fin (of_int ?m / 2 ^ k))" using assms(3) by (intro fin_d_dyadic) simp_all
  then have b: "\<bar>rnd x\<bar> < 2 ^ 1024" unfolding r by simp
  then show "of_rat_d x = Fin (of_int ?m / 2 ^ k)" unfolding r [symmetric]
    by (simp add: of_rat_d_def Let_def abs_if split: if_splits)
  show "of_rat_d (- x) = Fin (- (of_int ?m / 2 ^ k))" using b unfolding r [symmetric]
    by (simp add: of_rat_d_def Let_def rnd_minus abs_if split: if_splits)
qed

lemma three_equal_samples:
  "StandardDeviation (Add (Add (Add (Clear h) v) v) v) =
     (let n = Fin 0 + Fin 1 + Fin 1 + Fin 1; s = Fin 0 + v + v + v; q = Fin 0 + v * v + v * v + v * v
      in if n = 0 then 0 else sqrt_d ((q * n - s * s) / (n * n)))"
  by (simp add: StandardDeviation_def Add_def record_at_def Clear_def Let_def del: Fin_arith)

lemma floor_numeral_quotient: "\<lfloor>numeral a / numeral b :: rat\<rfloor> = numeral a div numeral b"
  using floor_divide_of_int_eq [where ?'a = rat, of "numeral a" "numeral b"] by simp

lemma deviation_1002:
  "StandardDeviation (Add (Add (Add (Clear h) (Fin (us_value 1002))) (Fin (us_value 1002))) (Fin (us_value 1002))) = NaN"
proof -
  let ?v = "4512606826625237 / 4503599627370496 :: rat"
  note even = round_even_def Let_def floor_numeral_quotient
  have v: "us_value 1002 = ?v"
    using of_rat_at(3) [of "1002 / 1000" 52] by (simp add: us_value_def even)
  have n: "Fin 0 + Fin 1 + Fin 1 + Fin 1 = Fin 3"
    using of_rat_d_int [of 1] of_rat_d_int [of 2] of_rat_d_int [of 3] by simp
  have s1: "Fin 0 + Fin ?v = Fin ?v" using of_rat_at(1) [of ?v 52] by (simp add: even)
  have s2: "Fin ?v + Fin ?v = Fin (4512606826625237 / 2251799813685248)"
    using of_rat_at(1) [of "?v + ?v" 51] by (simp add: even)
  have s3: "Fin (4512606826625237 / 2251799813685248) + Fin ?v = Fin (105764222499029 / 35184372088832)"
    using of_rat_at(1) [of "4512606826625237 / 2251799813685248 + ?v" 51] by (simp add: even)
  have q0: "Fin ?v * Fin ?v = Fin (4521632040278487 / 4503599627370496)"
    using of_rat_at(1) [of "?v * ?v" 52] by (simp add: even)
  have q1: "Fin 0 + Fin (4521632040278487 / 4503599627370496) = Fin (4521632040278487 / 4503599627370496)"
    using of_rat_at(1) [of "4521632040278487 / 4503599627370496" 52] by (simp add: even)
  have q2: "Fin (4521632040278487 / 4503599627370496) + Fin (4521632040278487 / 4503599627370496) =
      Fin (4521632040278487 / 2251799813685248)"
    using of_rat_at(1) [of "4521632040278487 / 2251799813685248" 51] by (simp add: even)
  have q3: "Fin (4521632040278487 / 2251799813685248) + Fin (4521632040278487 / 4503599627370496) =
      Fin (3391224030208865 / 1125899906842624)"
    using of_rat_at(1) [of "4521632040278487 / 2251799813685248 + 4521632040278487 / 4503599627370496" 51]
    by (simp add: even)
  have qn: "Fin (3391224030208865 / 1125899906842624) * Fin 3 = Fin (2543418022656649 / 281474976710656)"
    using of_rat_at(1) [of "3391224030208865 / 1125899906842624 * 3" 49] by (simp add: even)
  have ss: "Fin (105764222499029 / 35184372088832) * Fin (105764222499029 / 35184372088832) =
      Fin (5086836045313299 / 562949953421312)"
    using of_rat_at(1) [of "105764222499029 / 35184372088832 * (105764222499029 / 35184372088832)" 49]
    by (simp add: even)
  have d: "Fin (2543418022656649 / 281474976710656) - Fin (5086836045313299 / 562949953421312) =
      Fin (- 1 / 562949953421312)"
    using of_rat_at(2) [of "1 / 562949953421312" 101] by (simp add: even)
  have nn: "Fin 3 * Fin 3 = Fin 9" using of_rat_d_int [of 9] by simp
  obtain y where y: "Fin (- 1 / 562949953421312) / Fin 9 = Fin y" "y < 0"
    using of_rat_at(2) [of "1 / 562949953421312 / 9" 105] by (simp add: even)
  show ?thesis
    unfolding three_equal_samples v Let_def q0 n s1 s2 s3 q1 q2 q3 qn ss d nn y(1)
    using y(2) by simp
qed

section \<open>Percentiles that are no numbers\<close>

lemma in_first_bucket: "in_bucket xs 0 = 0 \<longleftrightarrow> (\<forall>x\<in>set xs. 1 \<le> x)"
proof -
  have first: "bucket_limit_ints ! 0 = 1" by (simp add: bucket_limit_ints_def)
  have "add_loop (Fin x) 0 = 0 \<longleftrightarrow> x < 1" for x
  proof (cases "add_loop (Fin x) 0")
    case 0
    then show ?thesis using add_loop_bounds(3) [of x] first by simp
  next
    case (Suc b)
    then show ?thesis using add_loop_bounds(2) [of 0 x] first by simp
  qed
  then show ?thesis by (auto simp: in_bucket_def filter_empty_conv not_less)
qed

text \<open>
  Percentile 0 interpolates in the first bucket, whether it holds a sample or not: the position is
  zero divided by the number of samples below one microsecond.
\<close>

lemma Percentile_zero:
  assumes h: "hist_repr h xs"
  shows "Percentile h (Fin 0) = (if in_bucket xs 0 = 0 then NaN else clamp_d h (Fin 0))"
proof -
  let ?c = "Fin (of_nat (in_bucket xs 0)) :: double"
  have le: "in_bucket xs 0 \<le> 2 ^ 53"
    unfolding in_bucket_def using h by (intro order.trans [OF length_filter_le]) (simp add: hist_repr_def)
  have c: "fin_d ?c" using fin_d_int [of "int (in_bucket xs 0)"] le by simp
  have z: "Fin 0 / Fin 100 = Fin 0" "Fin 0 + ?c = ?c" "?c - ?c = Fin 0" "?c - Fin 0 = ?c" "Fin 0 - Fin 0 = Fin 0"
    "Fin (of_nat (length xs)) * Fin 0 = Fin 0" "Fin 0 + (Fin 1 - Fin 0) * Fin 0 = Fin 0"
    using c by (simp_all add: fp_simps)
  have q: "Fin 0 / ?c = (if in_bucket xs 0 = 0 then NaN else Fin 0)" by (simp add: fp_simps)
  have "[0..<154] = 0 # [1..<154]" by (simp add: upt_conv_Cons)
  then have "Percentile h (Fin 0) = clamp_d h (interp_d 0 (Fin 0) ?c ?c)"
    using h z by (simp add: Percentile_def hist_repr_def percentile_loop_Cons)
  also have "interp_d 0 (Fin 0) ?c ?c = (if in_bucket xs 0 = 0 then NaN else Fin 0)"
    using z q by (simp add: interp_d_def limit_points Let_def left_of_def right_of_def bucket_limit_ints_def)
  finally show ?thesis by (simp add: clamp_d_def)
qed

lemma Percentile_zero_NaN:
  assumes h: "hist_repr h xs" and "xs \<noteq> []"
  shows "Percentile h (Fin 0) = NaN \<longleftrightarrow> (\<forall>x\<in>set xs. 1 \<le> x)"
  using Percentile_zero [OF h] clamp_d_bounds(1) [OF assms, of 0] in_first_bucket [of xs] by simp

lemma three_of_1002:
  "\<exists>h'. AddFast_all (Clear h) (map (\<lambda>n. End_us n (Start 0 t)) [1002, 1002, 1002]) = Inr h' \<and>
        StandardDeviation h' = NaN"
proof -
  let ?v = "Fin (us_value 1002)"
  have b: "\<bar>1002 :: int\<bar> \<le> 2 ^ 53" "length ([] :: rat list) < 2 ^ 53" "length [us_value 1002] < 2 ^ 53"
    "length [us_value 1002, us_value 1002] < 2 ^ 53" by simp_all
  note 1 = hist_repr_AddFast [OF hist_repr_Clear [of h] b(2,1)]
  note 2 = hist_repr_AddFast [OF 1(2) b(3,1)]
  note 3 = hist_repr_AddFast [OF 2(2) b(4,1)]
  have "AddFast_all (Clear h) (map (\<lambda>n. End_us n (Start 0 t)) [1002, 1002, 1002]) = Inr (Add (Add (Add (Clear h) ?v) ?v) ?v)"
    using 1(1) 2(1) 3(1) End_us_Start [of 1002 0 t] by simp
  moreover have "StandardDeviation (Add (Add (Add (Clear h) ?v) ?v) ?v) = NaN" by (rule deviation_1002)
  ultimately show "\<exists>h'. AddFast_all (Clear h) (map (\<lambda>n. End_us n (Start 0 t)) [1002, 1002, 1002]) = Inr h' \<and>
      StandardDeviation h' = NaN" by blast
qed

text \<open>
  C38. When a statistic is no number. A percentile of a histogram, for the percentage zero or one
  between 1 and 100, is a NaN exactly when the histogram has no sample or the percentage is zero and
  no latency is below one microsecond: in both cases the code divides zero by zero. And a standard
  deviation can be a NaN: three latencies of 1002 nanoseconds, recorded as the client does, make
  the difference of the two rounded products negative, and its square root is taken.
\<close>

theorem statistics_NaN:
  assumes "hist_repr h xs" "p = 0 \<or> 1 \<le> p" "p \<le> 100"
  shows "(Percentile h (Fin p) = NaN \<longleftrightarrow> xs = [] \<or> p = 0 \<and> (\<forall>x\<in>set xs. 1 \<le> x)) \<and>
         (\<exists>h'. AddFast_all (Clear h) (map (\<lambda>n. End_us n (Start 0 t)) [1002, 1002, 1002]) = Inr h' \<and>
            StandardDeviation h' = NaN)"
proof (intro conjI three_of_1002)
  consider "xs = []" | "xs \<noteq> []" "p = 0" | "xs \<noteq> []" "1 \<le> p" using assms(2) by blast
  then show "Percentile h (Fin p) = NaN \<longleftrightarrow> xs = [] \<or> p = 0 \<and> (\<forall>x\<in>set xs. 1 \<le> x)"
  proof cases
    case 1
    then show ?thesis using Percentile_empty [of h p] assms by auto
  next
    case 2
    then show ?thesis using Percentile_zero_NaN [OF assms(1)] by simp
  next
    case 3
    then show ?thesis using Percentile_between [OF assms(1) 3 assms(3)] by auto
  qed
qed

theorem statistics_NaN_witness:
  "Percentile (Clear sample_histogram) (Fin 50) = NaN \<and>
   Percentile (Add (Clear sample_histogram) (Fin 7)) (Fin 0) = NaN \<and>
   Percentile (Add (Clear sample_histogram) (Fin 7)) (Fin 50) \<noteq> NaN"
proof -
  have h: "hist_repr (Add (Clear sample_histogram) (Fin 7)) [7]"
    using hist_repr_Add [OF hist_repr_Clear] by simp
  show ?thesis
    using statistics_NaN [OF hist_repr_Clear, of 50] statistics_NaN [OF h, of 0] statistics_NaN [OF h, of 50] by simp
qed

end
