(* ===== verification/Stream_Text.thy ===== *)
theory Stream_Text
  imports Histogram_Text
begin

text \<open>
  What operator \<open><<\<close> of a stream in its initial state prints of a double: the conversion g of printf
  with six significant digits, which chooses between fixed and scientific notation by the decimal
  exponent after rounding and drops trailing zeros. main prints the throughput with it. std::stod
  reads such a text back up to the digits printed.
\<close>

section \<open>The decimal exponent\<close>

text \<open>The largest power of ten that is at most a positive number.\<close>

definition exp10 :: "rat \<Rightarrow> int" where
  "exp10 x = (if 1 \<le> x then int (length (digits10 (nat \<lfloor>x\<rfloor>))) - 1
              else - int (length (digits10 (nat (\<lceil>1 / x\<rceil> - 1)))))"

text \<open>The first digits of a positive number, rounded to nearest even, and its exponent after that.\<close>

definition sci_digits :: "nat \<Rightarrow> rat \<Rightarrow> nat \<times> int" where
  "sci_digits p x =
     (let e = exp10 x; m = nat (round_even (x * 10 powi (int p - 1 - e)))
      in if m = 10 ^ p then (10 ^ (p - 1), e + 1) else (m, e))"

section \<open>The conversion g\<close>

definition strip_zeros :: "string \<Rightarrow> string" where
  "strip_zeros s = (if CHR ''.'' \<in> set s then
       (let r = dropWhile (\<lambda>c. c = CHR ''0'') (rev s) in rev (if hd r = CHR ''.'' then tl r else r))
     else s)"

definition exp_text :: "int \<Rightarrow> string" where
  "exp_text e = ''e'' @ (if e < 0 then ''-'' else ''+'') @ (if \<bar>e\<bar> < 10 then ''0'' else []) @ digits10 (nat \<bar>e\<bar>)"

fun fmt_g :: "string \<Rightarrow> double \<Rightarrow> string" where
  "fmt_g nan (Fin q) = (if q = 0 then ''0'' else
     (if q < 0 then ''-'' else []) @
     (let (m, e) = sci_digits 6 \<bar>q\<bar> in
      if -4 \<le> e \<and> e < 6 then strip_zeros (fixed_nat (nat (5 - e)) m)
      else strip_zeros (fixed_nat 5 m) @ exp_text e))"
| "fmt_g nan PInf = ''inf''"
| "fmt_g nan MInf = ''-inf''"
| "fmt_g nan NaN = nan"

section \<open>Accuracy\<close>

lemma length_digits10_bounds:
  assumes "0 < n"
  shows "10 ^ (length (digits10 n) - 1) \<le> n" "n < 10 ^ length (digits10 n)"
proof -
  define l where "l = length (digits10 n)"
  have l: "0 < l" by (simp add: l_def)
  show "n < 10 ^ length (digits10 n)" using length_digits10_le [OF l, of n] by (simp add: l_def)
  show "10 ^ (length (digits10 n) - 1) \<le> n"
  proof (cases "l = 1")
    case True
    then show ?thesis using assms by (simp add: l_def)
  next
    case False
    then have "0 < l - 1" using l by simp
    then have "l \<le> l - 1 \<longleftrightarrow> n < 10 ^ (l - 1)" using length_digits10_le [of "l - 1" n] by (simp add: l_def)
    then have "10 ^ (l - 1) \<le> n" using l by linarith
    then show ?thesis by (simp add: l_def)
  qed
qed

lemma exp10_bounds:
  assumes "0 < x"
  shows "10 powi exp10 x \<le> x" "x < 10 powi (exp10 x + 1)"
proof -
  have "10 powi exp10 x \<le> x \<and> x < 10 powi (exp10 x + 1)"
  proof (cases "1 \<le> x")
    case True
    define n where "n = nat \<lfloor>x\<rfloor>"
    define l where "l = length (digits10 n)"
    have n: "0 < n" "of_nat n \<le> x" "x < of_nat (n + 1)" using True unfolding n_def by linarith+
    note b = length_digits10_bounds [OF n(1), folded l_def]
    have l: "0 < l" by (simp add: l_def)
    have "10 ^ (l - 1) \<le> (of_nat n :: rat)" using b(1) by (metis of_nat_le_iff of_nat_numeral of_nat_power)
    moreover have "(of_nat (n + 1) :: rat) \<le> 10 ^ l"
      using b(2) by (metis Suc_eq_plus1 Suc_leI of_nat_le_iff of_nat_numeral of_nat_power)
    moreover have "(10::rat) powi exp10 x = 10 ^ (l - 1)" "(10::rat) powi (exp10 x + 1) = 10 ^ l"
      using True l by (simp_all add: exp10_def n_def l_def power_int_def nat_diff_distrib)
    ultimately show ?thesis using n(2,3) by linarith
  next
    case False
    define n where "n = nat (\<lceil>1 / x\<rceil> - 1)"
    define l where "l = length (digits10 n)"
    have y: "1 < 1 / x" using False assms by simp
    have n: "0 < n" "of_nat n < 1 / x" "1 / x \<le> of_nat (n + 1)" using y unfolding n_def by linarith+
    note b = length_digits10_bounds [OF n(1), folded l_def]
    have l: "0 < l" by (simp add: l_def)
    have "10 ^ (l - 1) \<le> (of_nat n :: rat)" using b(1) by (metis of_nat_le_iff of_nat_numeral of_nat_power)
    then have 1: "10 ^ (l - 1) < 1 / x" using n(2) by linarith
    have "(of_nat (n + 1) :: rat) \<le> 10 ^ l"
      using b(2) by (metis Suc_eq_plus1 Suc_leI of_nat_le_iff of_nat_numeral of_nat_power)
    then have 2: "1 / x \<le> 10 ^ l" using n(3) by linarith
    have e: "exp10 x = - int l" using False by (simp add: exp10_def n_def l_def)
    have p: "(10::rat) powi (- int k) = 1 / 10 ^ k" for k by (simp add: power_int_minus inverse_eq_divide)
    have "- int l + 1 = - int (l - 1)" using l by simp
    then have "(10::rat) powi (- int l + 1) = 1 / 10 ^ (l - 1)" by (simp only: p)
    moreover have "(10::rat) powi (- int l) = 1 / 10 ^ l" by (rule p)
    moreover have "1 / 10 ^ l \<le> x" "x < 1 / 10 ^ (l - 1)" using 1 2 assms by (simp_all add: field_simps)
    ultimately show ?thesis unfolding e by simp
  qed
  then show "10 powi exp10 x \<le> x" "x < 10 powi (exp10 x + 1)" by simp_all
qed

text \<open>The digits printed are within half a unit of the sixth digit, so the relative error is at most 5 in a million.\<close>

lemma sci_digits_ok:
  assumes "0 < x" "sci_digits 6 x = (m, e)"
  shows "10 ^ 5 \<le> m" "m < 10 ^ 6" "\<bar>of_nat m * 10 powi (e - 5) - x\<bar> \<le> x / 200000"
proof -
  define e0 where "e0 = exp10 x"
  define y where "y = x * 10 powi (5 - e0)"
  define k where "k = round_even y"
  have b: "10 powi e0 \<le> x" "x < 10 powi (e0 + 1)" using exp10_bounds [OF assms(1)] by (simp_all add: e0_def)
  have p: "(10::rat) powi e0 * 10 powi (5 - e0) = 10 ^ 5" "(10::rat) powi (e0 + 1) * 10 powi (5 - e0) = 10 ^ 6"
    "(10::rat) powi (5 - e0) * 10 powi (e0 - 5) = 1" "(10::rat) powi (e0 - 5) = 10 powi e0 / 10 ^ 5"
    by (simp_all add: power_int_add power_int_diff)
  have z: "(0::rat) < 10 powi (5 - e0)" by simp
  have y: "10 ^ 5 \<le> y" "y < 10 ^ 6"
    using mult_right_mono [OF b(1), of "10 powi (5 - e0)"] mult_strict_right_mono [OF b(2) z] z p(1,2)
    by (simp_all add: y_def)
  have k: "10 ^ 5 \<le> k" "k \<le> 10 ^ 6" using y unfolding k_def by (auto intro: round_even_ge round_even_le)
  have x: "x = y * 10 powi (e0 - 5)" using p(3) by (simp add: y_def mult.assoc)
  have "\<bar>of_int k * 10 powi (e0 - 5) - x\<bar> = \<bar>of_int k - y\<bar> * 10 powi (e0 - 5)"
    unfolding x by (simp add: left_diff_distrib [symmetric] abs_mult)
  also have "\<dots> \<le> 1/2 * 10 powi (e0 - 5)" unfolding k_def by (intro mult_right_mono round_even_err) simp
  also have "\<dots> \<le> x / 200000" using b(1) unfolding p(4) by simp
  finally have err: "\<bar>of_int k * 10 powi (e0 - 5) - x\<bar> \<le> x / 200000" .
  have s: "sci_digits 6 x = (if nat k = 10 ^ 6 then (10 ^ 5, e0 + 1) else (nat k, e0))"
    by (simp add: sci_digits_def Let_def e0_def k_def y_def)
  show "10 ^ 5 \<le> m" "m < 10 ^ 6" "\<bar>of_nat m * 10 powi (e - 5) - x\<bar> \<le> x / 200000"
  proof -
    consider "k = 10 ^ 6" "m = 10 ^ 5" "e = e0 + 1" | "k < 10 ^ 6" "m = nat k" "e = e0"
      using s assms(2) k by (auto split: if_splits)
    then have "10 ^ 5 \<le> m \<and> m < 10 ^ 6 \<and> (of_nat m * 10 powi (e - 5) :: rat) = of_int k * 10 powi (e0 - 5)"
      using k by cases (simp_all add: power_int_diff power_int_add nat_less_iff le_nat_iff)
    then show "10 ^ 5 \<le> m" "m < 10 ^ 6" "\<bar>of_nat m * 10 powi (e - 5) - x\<bar> \<le> x / 200000" using err by simp_all
  qed
qed

section \<open>The characters printed\<close>

text \<open>Numbers contain neither the tabs nor the line ends that separate what a program prints.\<close>

definition plain :: "string \<Rightarrow> bool" where
  "plain s \<longleftrightarrow> CHR 0x09 \<notin> set s \<and> CHR 0x0A \<notin> set s"

lemma plain_simps [simp]:
  "plain []" "plain (c # s) \<longleftrightarrow> c \<noteq> CHR 0x09 \<and> c \<noteq> CHR 0x0A \<and> plain s" "plain (s @ t) \<longleftrightarrow> plain s \<and> plain t"
  by (auto simp: plain_def)

lemma plain_subset: "plain s \<Longrightarrow> set t \<subseteq> set s \<Longrightarrow> plain t"
  by (auto simp: plain_def)

lemma plain_digits10 [simp]: "plain (digits10 n)"
  using digits10_isdigit [of n] by (auto simp: plain_def isdigit_def)

lemma plain_to_string_int [simp]: "plain (to_string_int i)"
  by (simp add: to_string_int_def)

lemma plain_fixed_nat [simp]: "plain (fixed_nat p m)"
proof -
  define zs where "zs = replicate (p + 1 - length (digits10 m)) (CHR ''0'') @ digits10 m"
  have zs: "plain zs" using plain_digits10 [of m] by (auto simp: zs_def plain_def)
  have parts: "plain (take k zs)" "plain (drop k zs)" for k
    using plain_subset [OF zs] set_take_subset [of k zs] set_drop_subset [of k zs] by blast+
  then have "plain (take k zs @ CHR ''.'' # drop k zs)" for k by (auto simp: plain_def)
  moreover have "fixed_nat p m = (if p = 0 then zs else take (length zs - p) zs @ CHR ''.'' # drop (length zs - p) zs)"
    by (simp only: fixed_nat_def Let_def zs_def)
  ultimately show ?thesis using zs by simp
qed

lemma plain_strip_zeros: "plain s \<Longrightarrow> plain (strip_zeros s)"
proof (rule plain_subset)
  define r where "r = dropWhile (\<lambda>c. c = CHR ''0'') (rev s)"
  have "set r \<subseteq> set s" unfolding r_def using set_dropWhileD [of _ _ "rev s"] by auto
  moreover have "set (tl r) \<subseteq> set r" by (cases r) auto
  moreover have "strip_zeros s = (if CHR ''.'' \<in> set s then rev (if hd r = CHR ''.'' then tl r else r) else s)"
    by (simp add: strip_zeros_def r_def Let_def)
  ultimately show "set (strip_zeros s) \<subseteq> set s" by auto
qed

lemma plain_fmt_g: "plain nan \<Longrightarrow> plain (fmt_g nan d)"
proof (cases d)
  case (Fin q)
  have "plain (exp_text e)" for e by (simp add: exp_text_def)
  then show ?thesis using plain_strip_zeros [OF plain_fixed_nat] by (simp add: Fin Let_def split: prod.split)
qed auto

section \<open>Reading a printed number back\<close>

lemma num_base_10: "num_base 10 digit_val = num10"
  by (rule ext) (simp add: num_base_def num10_def)

lemma num10_append_zeros: "num10 (s @ replicate k (CHR ''0'')) = num10 s * 10 ^ k"
proof (induction k)
  case (Suc k)
  have "replicate (Suc k) (CHR ''0'') = replicate k (CHR ''0'') @ [CHR ''0'']" by (simp add: replicate_append_same)
  then have "num10 (s @ replicate (Suc k) (CHR ''0'')) = 10 * num10 (s @ replicate k (CHR ''0''))"
    using num10_append_one [of "s @ replicate k (CHR ''0'')" "CHR ''0''"] by (simp add: digit_val_def)
  then show ?case using Suc by simp
qed simp

lemma trailing_zeros:
  obtains j where "fp = rev (dropWhile (\<lambda>c. c = CHR ''0'') (rev fp)) @ replicate j (CHR ''0'')"
proof -
  let ?z = "\<lambda>c. c = CHR ''0''"
  have "takeWhile ?z (rev fp) = replicate (length (takeWhile ?z (rev fp))) (CHR ''0'')"
    by (rule replicate_eqI [symmetric, THEN sym]) (auto dest: set_takeWhileD)
  moreover have "fp = rev (takeWhile ?z (rev fp) @ dropWhile ?z (rev fp))" by simp
  ultimately show ?thesis using that [of "length (takeWhile ?z (rev fp))"]
    by (metis rev_append rev_replicate)
qed

lemma read_mantissa_parts:
  assumes "\<forall>c\<in>set ip. isdigit c" "\<not> isdigit c" "c \<noteq> CHR ''.''"
  shows "read_mantissa 10 isdigit digit_val (ip @ c # rest) = (ip, of_nat (num10 ip), c # rest)"
    and "\<forall>c\<in>set fp. isdigit c \<Longrightarrow> read_mantissa 10 isdigit digit_val (ip @ CHR ''.'' # fp @ c # rest) =
           (ip @ fp, of_nat (num10 (ip @ fp)) / 10 ^ length fp, c # rest)"
proof -
  have dot: "\<not> isdigit (CHR ''.'')" by (simp add: isdigit_def)
  show "read_mantissa 10 isdigit digit_val (ip @ c # rest) = (ip, of_nat (num10 ip), c # rest)"
    using assms by (simp add: read_mantissa_def Let_def num_base_10 takeWhile_append2)
  assume "\<forall>c\<in>set fp. isdigit c"
  then show "read_mantissa 10 isdigit digit_val (ip @ CHR ''.'' # fp @ c # rest) =
      (ip @ fp, of_nat (num10 (ip @ fp)) / 10 ^ length fp, c # rest)"
    using assms dot by (simp add: read_mantissa_def Let_def num_base_10 takeWhile_append2 dropWhile_append2)
qed

text \<open>Dropping the trailing zeros of a fixed text changes neither its value nor its form.\<close>

lemma fixed_reads_back:
  assumes "\<not> isdigit c" "c \<noteq> CHR ''.''"
  shows "\<exists>d t ds. strip_zeros (fixed_nat p m) = d # t \<and> isdigit d \<and> (\<forall>x\<in>set t. isdigit x \<or> x = CHR ''.'') \<and>
           ds \<noteq> [] \<and> read_mantissa 10 isdigit digit_val (strip_zeros (fixed_nat p m) @ c # rest) =
             (ds, of_nat m / 10 ^ p, c # rest)"
proof -
  define zs where "zs = replicate (p + 1 - length (digits10 m)) (CHR ''0'') @ digits10 m"
  define ip where "ip = take (length zs - p) zs"
  define fp where "fp = drop (length zs - p) zs"
  define fp' where "fp' = rev (dropWhile (\<lambda>c. c = CHR ''0'') (rev fp))"
  have zero: "isdigit (CHR ''0'')" and dot: "\<not> isdigit (CHR ''.'')" by (simp_all add: isdigit_def)
  have dz: "\<forall>x\<in>set zs. isdigit x" using digits10_isdigit [of m] zero by (auto simp: zs_def)
  have len: "p + 1 \<le> length zs" by (simp add: zs_def)
  have val: "num10 zs = m" by (simp add: zs_def num10_zeros)
  have cut: "zs = ip @ fp" "length fp = p" using len by (simp_all add: ip_def fp_def)
  have ip: "ip \<noteq> []" using len by (auto simp: ip_def)
  have dip: "\<forall>x\<in>set ip. isdigit x" and dfp: "\<forall>x\<in>set fp. isdigit x" using dz unfolding cut(1) by auto
  obtain j where j: "fp = fp' @ replicate j (CHR ''0'')" unfolding fp'_def by (rule trailing_zeros [of fp])
  have dfp': "\<forall>x\<in>set fp'. isdigit x" using dfp j by (metis Un_iff set_append)
  have f: "fixed_nat p m = (if p = 0 then zs else ip @ CHR ''.'' # fp)"
    by (simp only: fixed_nat_def Let_def zs_def ip_def fp_def)
  show ?thesis
  proof (cases "p = 0")
    case True
    have "CHR ''.'' \<notin> set zs" using dz dot by blast
    then have "strip_zeros (fixed_nat p m) = zs" using f True by (simp add: strip_zeros_def)
    moreover obtain d t where "zs = d # t" using ip cut(1) by (metis append_is_Nil_conv list.exhaust)
    ultimately show ?thesis using dz read_mantissa_parts(1) [OF dz assms, of rest] val True by auto
  next
    case False
    have "dropWhile (\<lambda>c. c = CHR ''0'') (rev (fixed_nat p m)) = rev fp' @ CHR ''.'' # rev ip"
      using f False by (simp add: fp'_def dropWhile_append3)
    moreover have "CHR ''.'' \<in> set (fixed_nat p m)" using f False by simp
    moreover have "rev fp' \<noteq> [] \<Longrightarrow> hd (rev fp') \<noteq> CHR ''.''" using dfp' dot by (metis hd_in_set set_rev)
    ultimately have s: "strip_zeros (fixed_nat p m) = (if fp' = [] then ip else ip @ CHR ''.'' # fp')"
      by (auto simp: strip_zeros_def Let_def hd_append)
    have v: "(of_nat (num10 (ip @ fp')) / 10 ^ length fp' :: rat) = of_nat m / 10 ^ p"
    proof -
      have "m = num10 (ip @ fp') * 10 ^ j" using val cut(1) j num10_append_zeros [of "ip @ fp'" j] by simp
      moreover have "p = length fp' + j" using cut(2) j by (metis length_append length_replicate)
      ultimately show ?thesis by (simp add: power_add)
    qed
    obtain d t where dt: "ip = d # t" using ip by (cases ip) auto
    have r: "read_mantissa 10 isdigit digit_val (strip_zeros (fixed_nat p m) @ c # rest) = (ip @ fp', of_nat m / 10 ^ p, c # rest)"
      using read_mantissa_parts(1) [OF dip assms, of rest] read_mantissa_parts(2) [OF dip assms dfp', of rest] v
      by (auto simp: s)
    show ?thesis using s dt dip dfp' r
      by (intro exI [of _ d] exI [of _ "if fp' = [] then t else t @ CHR ''.'' # fp'"] exI [of _ "ip @ fp'"]) auto
  qed
qed

lemma exp_reads_back: "read_exponent (CHR ''e'') (exp_text e @ CHR '' '' # rest) = e"
proof -
  let ?n = "nat \<bar>e\<bar>"
  define ds where "ds = (if \<bar>e\<bar> < 10 then ''0'' else []) @ digits10 ?n"
  have zero: "isdigit (CHR ''0'')" and space: "\<not> isdigit (CHR '' '')" by (simp_all add: isdigit_def)
  have "\<forall>x\<in>set ds. isdigit x" using zero digits10_isdigit [of ?n] by (auto simp: ds_def)
  then have t: "takeWhile isdigit (ds @ CHR '' '' # rest) = ds" using space by (simp add: takeWhile_append2)
  have "num10 ds = ?n" using num10_zeros [of 1 "digits10 ?n"] by (simp add: ds_def)
  moreover have "exp_text e @ CHR '' '' # rest = CHR ''e'' # (if e < 0 then CHR ''-'' else CHR ''+'') # ds @ CHR '' '' # rest"
    by (simp add: exp_text_def ds_def)
  ultimately show ?thesis by (simp add: read_exponent_def read_sign_def tolower_def t)
qed

text \<open>The characters of a printed number after its first digit.\<close>

definition number_char :: "char \<Rightarrow> bool" where
  "number_char c \<longleftrightarrow> isdigit c \<or> c \<in> {CHR ''.'', CHR ''e'', CHR ''+'', CHR ''-''}"

lemma exp_text_chars: "\<forall>x\<in>set (exp_text e). number_char x"
proof -
  have "isdigit (CHR ''0'')" by (simp add: isdigit_def)
  then show ?thesis using digits10_isdigit [of "nat \<bar>e\<bar>"] by (auto simp: exp_text_def number_char_def)
qed

lemma decimal_reads_back:
  assumes "0 < q" "sci_digits 6 q = (m, e)"
  shows "\<exists>d t. fmt_g nan (Fin q) = d # t \<and> isdigit d \<and> (\<forall>x\<in>set t. number_char x) \<and>
           read_decimal (fmt_g nan (Fin q) @ CHR '' '' # rest) = Some (of_nat m * 10 powi (e - 5))"
proof (cases "-4 \<le> e \<and> e < 6")
  case True
  have c: "\<not> isdigit (CHR '' '')" "CHR '' '' \<noteq> CHR ''.''" by (simp_all add: isdigit_def)
  let ?p = "nat (5 - e)"
  have f: "fmt_g nan (Fin q) = strip_zeros (fixed_nat ?p m)" using assms True by simp
  have p: "e - 5 = - int ?p" using True by simp
  have v: "(of_nat m / 10 ^ ?p :: rat) = of_nat m * 10 powi (e - 5)"
    unfolding p power_int_minus power_int_of_nat divide_inverse ..
  have x: "read_exponent (CHR ''e'') (CHR '' '' # rest) = 0" by (simp add: read_exponent_def tolower_def)
  obtain d t ds where b: "strip_zeros (fixed_nat ?p m) = d # t" "isdigit d" "\<forall>x\<in>set t. isdigit x \<or> x = CHR ''.''"
    "ds \<noteq> []" "read_mantissa 10 isdigit digit_val (strip_zeros (fixed_nat ?p m) @ CHR '' '' # rest) = (ds, of_nat m / 10 ^ ?p, CHR '' '' # rest)"
    using fixed_reads_back [OF c, of ?p m rest] by (elim exE conjE) (rule that)
  have r: "read_decimal (strip_zeros (fixed_nat ?p m) @ CHR '' '' # rest) = Some (of_nat m * 10 powi (e - 5))"
    unfolding read_decimal_def b(5) Let_def prod.case x power_int_0_right mult_1_right v using b(4) by (rule if_not_P)
  have t: "\<forall>x\<in>set t. number_char x" using b(3) by (auto simp: number_char_def)
  show ?thesis unfolding f by (intro exI [of _ d] exI [of _ t] conjI b(1,2) t r)
next
  case False
  have c: "\<not> isdigit (CHR ''e'')" "CHR ''e'' \<noteq> CHR ''.''" by (simp_all add: isdigit_def)
  have f: "fmt_g nan (Fin q) = strip_zeros (fixed_nat 5 m) @ exp_text e" using assms False by auto
  obtain t' where t': "exp_text e = CHR ''e'' # t'" by (simp add: exp_text_def)
  have "(of_nat m / 10 ^ 5 * 10 powi e :: rat) = of_nat m * 10 powi (e - 5)" by (simp add: power_int_diff)
  moreover have "read_exponent (CHR ''e'') (CHR ''e'' # t' @ CHR '' '' # rest) = e"
    using exp_reads_back [of e rest] t' by simp
  moreover obtain d t ds where b: "strip_zeros (fixed_nat 5 m) = d # t" "isdigit d" "\<forall>x\<in>set t. isdigit x \<or> x = CHR ''.''"
    "ds \<noteq> []" "read_mantissa 10 isdigit digit_val (strip_zeros (fixed_nat 5 m) @ CHR ''e'' # t' @ CHR '' '' # rest) =
       (ds, of_nat m / 10 ^ 5, CHR ''e'' # t' @ CHR '' '' # rest)"
    using fixed_reads_back [OF c, of 5 m "t' @ CHR '' '' # rest"] by (elim exE conjE) (rule that)
  ultimately have r: "read_decimal ((strip_zeros (fixed_nat 5 m) @ exp_text e) @ CHR '' '' # rest) = Some (of_nat m * 10 powi (e - 5))"
    by (simp only: read_decimal_def append_assoc append_Cons t' b(4,5) Let_def prod.case if_False)
  have t: "\<forall>x\<in>set (t @ exp_text e). number_char x" using b(3) exp_text_chars [of e] by (auto simp: number_char_def)
  have s: "strip_zeros (fixed_nat 5 m) @ exp_text e = d # (t @ exp_text e)" using b(1) by simp
  show ?thesis unfolding f by (intro exI [of _ d] exI [of _ "t @ exp_text e"] conjI s b(2) t r)
qed

lemma tolower_digit: "isdigit c \<Longrightarrow> tolower c = c"
  by (simp add: tolower_def isdigit_def)

lemma number_char_not_x: "number_char c \<Longrightarrow> tolower c \<noteq> CHR ''x''"
  by (auto simp: number_char_def tolower_digit) (auto simp: tolower_def isdigit_def)

lemma stod_number:
  assumes "isdigit d" "\<forall>x\<in>set t. number_char x" "read_decimal (d # t @ CHR '' '' # rest) = Some x"
  shows "stod (d # t @ CHR '' '' # rest) = range_checked x"
    and "stod (CHR ''-'' # d # t @ CHR '' '' # rest) = range_checked (- x)"
proof -
  let ?s = "d # t @ CHR '' '' # rest"
  have d: "tolower d = d" "\<not> isspace d" "d \<noteq> CHR ''-''" "d \<noteq> CHR ''+''" "d \<noteq> CHR ''i''" "d \<noteq> CHR ''n''"
    using assms(1) tolower_digit digit_not_space digit_not_sign by (auto simp: isdigit_def)
  have "read_hex ?s = None"
  proof (cases t)
    case Nil
    then show ?thesis by (simp add: read_hex_def tolower_def)
  next
    case (Cons c t')
    then show ?thesis using assms(2) number_char_not_x [of c] by (simp add: read_hex_def)
  qed
  moreover have "take 3 (map tolower ?s) \<noteq> ''inf''" "take 3 (map tolower ?s) \<noteq> ''nan''" using d by simp_all
  moreover have "\<not> isspace (CHR ''-'')" by (simp add: isspace_def)
  ultimately show "stod ?s = range_checked x" "stod (CHR ''-'' # ?s) = range_checked (- x)"
    using d assms(3) by (simp_all add: stod_def read_sign_def Let_def)
qed

lemma range_checked_rnd:
  assumes "2 powi (- 1001) \<le> \<bar>y\<bar>" "\<bar>y\<bar> \<le> 2 powi 1001"
  shows "range_checked y = Inr (Fin (rnd y))"
proof -
  have "fin_d (Fin (2 powi 1001))" by (rule fin_d_powi) simp_all
  then have hi: "fin_d (Fin (2 powi 1001))" "fin_d (Fin (- (2 powi 1001)))"
    using is_double_minus [of "2 powi 1001"] by simp_all
  have "of_rat_d y = Fin (rnd y)"
    using of_rat_d_bounded(1) [of "- (2 powi 1001)" y "2 powi 1001"] hi assms(2) by (simp add: abs_le_iff)
  moreover have "2 powi (- 1001) \<le> \<bar>rnd y\<bar>"
  proof -
    have lo: "is_double (2 powi (- 1001))" using is_double_rep [of 1 "- 1001"] by simp
    have "rnd \<bar>y\<bar> = \<bar>rnd y\<bar>" using rnd_nonneg [of y] rnd_nonneg [of "- y"] by (cases "0 \<le> y") (simp_all add: rnd_minus)
    then show ?thesis using rnd_ge_double [OF assms(1) lo] by simp
  qed
  moreover have "(2::rat) powi (- 1022) \<le> 2 powi (- 1001)" by (rule two_powi_mono) simp
  ultimately show ?thesis by (simp add: range_checked_def)
qed

text \<open>
  std::stod reads a printed double back, up to the six digits printed: it gives the double nearest
  to a number within five millionths of the value.
\<close>

lemma stod_fmt_g:
  assumes "2 powi (- 1000) \<le> \<bar>q\<bar>" "\<bar>q\<bar> \<le> 2 powi 1000"
  shows "\<exists>y. \<bar>y - q\<bar> \<le> \<bar>q\<bar> / 200000 \<and> stod (fmt_g nan (Fin q) @ CHR '' '' # rest) = Inr (Fin (rnd y))"
proof -
  have q: "0 < \<bar>q\<bar>" using assms(1) two_powi_pos [of "- 1000"] by linarith
  obtain m e where me: "sci_digits 6 \<bar>q\<bar> = (m, e)" by fastforce
  define x where "x = (of_nat m * 10 powi (e - 5) :: rat)"
  define y where "y = (if q < 0 then - x else x)"
  have x: "\<bar>x - \<bar>q\<bar>\<bar> \<le> \<bar>q\<bar> / 200000" using sci_digits_ok(3) [OF q me] by (simp add: x_def)
  obtain d t where dt: "fmt_g nan (Fin \<bar>q\<bar>) = d # t" "isdigit d" "\<forall>x\<in>set t. number_char x"
    "read_decimal (d # t @ CHR '' '' # rest) = Some x"
    using decimal_reads_back [OF q me, of nan rest] by (auto simp: x_def)
  have "fmt_g nan (Fin q) = (if q < 0 then ''-'' else []) @ fmt_g nan (Fin \<bar>q\<bar>)" using q by simp
  then have s: "stod (fmt_g nan (Fin q) @ CHR '' '' # rest) = range_checked y"
    using stod_number [OF dt(2-4)] dt(1) by (simp add: y_def)
  have "(2::rat) powi 1001 = 2 * 2 powi 1000" "(2::rat) powi (- 1000) = 2 * 2 powi (- 1001)"
    using two_powi_add [of 1 1000] two_powi_add [of 1 "- 1001"] by simp_all
  then have "2 powi (- 1001) \<le> \<bar>x\<bar>" "\<bar>x\<bar> \<le> 2 powi 1001" using x assms by linarith+
  moreover have "\<bar>y\<bar> = \<bar>x\<bar>" by (simp add: y_def)
  ultimately have "range_checked y = Inr (Fin (rnd y))" by (intro range_checked_rnd) (simp_all only:)
  moreover have "\<bar>y - q\<bar> \<le> \<bar>q\<bar> / 200000"
    using x by (cases "q < 0") (simp_all add: y_def abs_le_iff)
  ultimately show ?thesis unfolding s by (intro exI conjI)
qed

lemma stod_fmt_g_special:
  "stod (fmt_g nan (Fin 0) @ CHR '' '' # rest) = Inr (Fin 0)"
  "stod (fmt_g nan PInf @ CHR '' '' # rest) = Inr PInf"
proof -
  have d: "isdigit (CHR ''0'')" "\<not> isdigit (CHR '' '')" by (simp_all add: isdigit_def)
  have "read_decimal (CHR ''0'' # [] @ CHR '' '' # rest) = Some 0"
    using read_mantissa_parts(1) [of "''0''" "CHR '' ''" rest] d
    by (simp add: read_decimal_def read_exponent_def tolower_def num10_def digit_val_def)
  from stod_number(1) [OF d(1) _ this] show "stod (fmt_g nan (Fin 0) @ CHR '' '' # rest) = Inr (Fin 0)"
    by (simp add: range_checked_def)
  show "stod (fmt_g nan PInf @ CHR '' '' # rest) = Inr PInf"
    by (simp add: stod_def read_sign_def isspace_def tolower_def)
qed

end
