(* ===== verification/Ycsbc.thy ===== *)
theory Ycsbc
  imports Client DB_Factory Command_Line Stream_Text "HOL-Library.Signed_Division"
begin

text \<open>
  The program of ycsbc.cc. A phase starts the client threads with std::async and waits for them; a
  thread runs DelegateClient on the shared workload and database. A thread is a small state
  machine (call Init, the iterations of the loop, the final part with Close), and a phase runs
  the threads under an arbitrary schedule of their steps, followed by a schedule that lets every
  thread finish. An iteration, with the call of the client in it, is one step: interleavings
  inside a call are not modelled here; the theory Load\_Phase splits the drawing of a key
  from the insertion. The clock is a stream of readings, shared like the clock of the machine.
\<close>

section \<open>Performance counters\<close>

record perf_context =
  write_memtable_time :: u64
  write_wal_time :: u64
  write_pre_and_post_process_time :: u64
  write_scheduling_flushes_compactions_time :: u64
  write_delay_time :: u64
  write_thread_wait_nanos :: u64

definition perf_Reset :: perf_context where
  "perf_Reset = \<lparr>write_memtable_time = 0, write_wal_time = 0, write_pre_and_post_process_time = 0,
     write_scheduling_flushes_compactions_time = 0, write_delay_time = 0, write_thread_wait_nanos = 0\<rparr>"

definition mergePerf :: "perf_context \<Rightarrow> perf_context \<Rightarrow> perf_context" where
  "mergePerf a b = a\<lparr>
     write_memtable_time := write_memtable_time a + write_memtable_time b,
     write_wal_time := write_wal_time a + write_wal_time b,
     write_pre_and_post_process_time := write_pre_and_post_process_time a + write_pre_and_post_process_time b,
     write_scheduling_flushes_compactions_time :=
       write_scheduling_flushes_compactions_time a + write_scheduling_flushes_compactions_time b,
     write_delay_time := write_delay_time a + write_delay_time b,
     write_thread_wait_nanos := write_thread_wait_nanos a + write_thread_wait_nanos b\<rparr>"

section \<open>The thread that prints statistics\<close>

text \<open>
  The loop of record; the flag is read through the pointer, and nothing the loop does changes it.
  None is a loop that never ends.
\<close>

partial_function (option) record_loop :: "'s db_ops \<Rightarrow> bool \<Rightarrow> 's \<Rightarrow> 's option" where
  "record_loop db isFinish s = (if isFinish then Some s else record_loop db isFinish (db_printStats db s))"

section \<open>DelegateClient\<close>

definition client_op ::
  "cxx_env \<Rightarrow> 's db_ops \<Rightarrow> bool \<Rightarrow> workload \<Rightarrow> random \<Rightarrow> 's \<Rightarrow> (bool \<times> workload \<times> random \<times> 's) result" where
  "client_op env db is_loading w r s = (if is_loading then DoInsert env db w r s else DoTransaction env db w r s)"

text \<open>What the threads share, and the iteration of the loop: Start, the operation, End, AddFast.\<close>

record 's shared =
  sh_clk :: "int stream"
  sh_wl :: workload
  sh_rnd :: random
  sh_db :: 's

definition loop_body ::
  "cxx_env \<Rightarrow> 's db_ops \<Rightarrow> bool \<Rightarrow> int \<Rightarrow> histogram \<Rightarrow> 's shared \<Rightarrow> (int \<times> histogram \<times> 's shared) result" where
  "loop_body env db is_loading oks his sh =
     (let timer = Start (shd (sh_clk sh)) \<lparr>time_point = 0\<rparr> in
      bindR (client_op env db is_loading (sh_wl sh) (sh_rnd sh) (sh_db sh)) (\<lambda>(ok, w, r, s).
      let duration = End_us (shd (stl (sh_clk sh))) timer in
      bindR (AddFast his duration) (\<lambda>his.
      Inr (oks + of_bool ok, his, \<lparr>sh_clk = stl (stl (sh_clk sh)), sh_wl = w, sh_rnd = r, sh_db = s\<rparr>))))"

fun delegate_loop ::
  "cxx_env \<Rightarrow> 's db_ops \<Rightarrow> bool \<Rightarrow> nat \<Rightarrow> int \<Rightarrow> histogram \<Rightarrow> 's shared \<Rightarrow> (int \<times> histogram \<times> 's shared) result" where
  "delegate_loop env db is_loading 0 oks his sh = Inr (oks, his, sh)"
| "delegate_loop env db is_loading (Suc n) oks his sh =
     bindR (loop_body env db is_loading oks his sh) (\<lambda>(oks, his, sh).
     delegate_loop env db is_loading n oks his sh)"

text \<open>
  For a database named rocksdb the counters of the thread, read by \<open>get_perf\<close>, are copied
  through the pointer, which must not be null. The IO statistics are copied likewise and never
  read. Reset, SetPerfLevel and DisablePerf change nothing the model has.
\<close>

definition copy_perf :: "('s \<Rightarrow> perf_context) \<Rightarrow> 's db_ops \<Rightarrow> 's \<Rightarrow> perf_context option \<Rightarrow> perf_context option result" where
  "copy_perf get_perf db s perf =
     (if db_getName db s = ''rocksdb'' then
        (case perf of None \<Rightarrow> Inl (Undefined_behaviour ''null pointer'') | Some _ \<Rightarrow> Inr (Some (get_perf s)))
      else Inr perf)"

definition DelegateClient ::
  "cxx_env \<Rightarrow> ('s \<Rightarrow> perf_context) \<Rightarrow> 's db_ops \<Rightarrow> int \<Rightarrow> bool \<Rightarrow> histogram \<Rightarrow> perf_context option \<Rightarrow> 's shared \<Rightarrow>
   (int \<times> histogram \<times> perf_context option \<times> 's shared) result" where
  "DelegateClient env get_perf db num_ops is_loading his perf sh =
     bindR (db_Init db (sh_db sh)) (\<lambda>s.
     bindR (delegate_loop env db is_loading (nat num_ops) 0 his (sh\<lparr>sh_db := s\<rparr>)) (\<lambda>(oks, his, sh).
     bindR (copy_perf get_perf db (sh_db sh) perf) (\<lambda>perf.
     bindR (db_Close db (sh_db sh)) (\<lambda>s.
     Inr (oks, his, perf, sh\<lparr>sh_db := s\<rparr>)))))"

section \<open>Threads\<close>

datatype pc = Not_started | Running nat | Closed

record thread =
  t_pc :: pc
  t_oks :: int
  t_his :: histogram
  t_perf :: "perf_context option"

definition thread_step ::
  "cxx_env \<Rightarrow> ('s \<Rightarrow> perf_context) \<Rightarrow> 's db_ops \<Rightarrow> int \<Rightarrow> bool \<Rightarrow> thread \<Rightarrow> 's shared \<Rightarrow> (thread \<times> 's shared) result" where
  "thread_step env get_perf db num_ops is_loading t sh = (case t_pc t of
       Not_started \<Rightarrow>
         bindR (db_Init db (sh_db sh)) (\<lambda>s. Inr (t\<lparr>t_pc := Running (nat num_ops)\<rparr>, sh\<lparr>sh_db := s\<rparr>))
     | Running (Suc n) \<Rightarrow>
         bindR (loop_body env db is_loading (t_oks t) (t_his t) sh) (\<lambda>(oks, his, sh).
         Inr (t\<lparr>t_pc := Running n, t_oks := oks, t_his := his\<rparr>, sh))
     | Running 0 \<Rightarrow>
         bindR (copy_perf get_perf db (sh_db sh) (t_perf t)) (\<lambda>perf.
         bindR (db_Close db (sh_db sh)) (\<lambda>s. Inr (t\<lparr>t_pc := Closed, t_perf := perf\<rparr>, sh\<lparr>sh_db := s\<rparr>)))
     | Closed \<Rightarrow> Inr (t, sh))"

fun run_threads ::
  "cxx_env \<Rightarrow> ('s \<Rightarrow> perf_context) \<Rightarrow> 's db_ops \<Rightarrow> int \<Rightarrow> bool \<Rightarrow> nat list \<Rightarrow> thread list \<Rightarrow> 's shared \<Rightarrow>
   (thread list \<times> 's shared) result" where
  "run_threads env get_perf db num_ops is_loading [] ts sh = Inr (ts, sh)"
| "run_threads env get_perf db num_ops is_loading (i # sched) ts sh =
     (if i < length ts then
        bindR (thread_step env get_perf db num_ops is_loading (ts ! i) sh) (\<lambda>(t, sh).
        run_threads env get_perf db num_ops is_loading sched (ts[i := t]) sh)
      else run_threads env get_perf db num_ops is_loading sched ts sh)"

text \<open>Every thread makes as many further steps as it can need.\<close>

definition finishing :: "nat \<Rightarrow> int \<Rightarrow> nat list" where
  "finishing n num_ops = concat (map (\<lambda>i. replicate (nat num_ops + 2) i) [0..<n])"

section \<open>A phase\<close>

text \<open>
  The two phases of main are the same code but for the flag is\_loading and the message printed
  first. The report has what a phase prints: the sum of the successful operations (printed by the
  load phase only), the number of threads, total\_ops / duration, the merged histogram, and the
  merged counters for rocksdb.
\<close>

record report =
  rep_loading :: bool
  rep_sum :: int
  rep_threads :: int
  rep_rate :: double
  rep_his :: histogram
  rep_perf :: "perf_context option"

definition new_histogram :: histogram where
  "new_histogram = \<lparr>hmin = 0, hmax = 0, hnum = 0, hsum = 0, hsum_squares = 0, buckets = replicate kNumBuckets 0\<rparr>"

definition new_thread :: "string \<Rightarrow> thread" where
  "new_thread dbname = \<lparr>t_pc = Not_started, t_oks = 0, t_his = Clear new_histogram,
     t_perf = (if dbname = ''rocksdb'' then Some perf_Reset else None)\<rparr>"

text \<open>The loop that merges into histograms[0], which is printed even when there is none.\<close>

definition merge_all :: "thread list \<Rightarrow> histogram result" where
  "merge_all ts = (case ts of
       [] \<Rightarrow> Inl (Undefined_behaviour ''histograms[0]'')
     | t # ts' \<Rightarrow> Inr (foldl Merge (t_his t) (map t_his ts')))"

text \<open>The flag isFinish lives on the heap: None once it is deleted.\<close>

definition finish_flag :: "bool option \<Rightarrow> bool option result" where
  "finish_flag isFinish = (case isFinish of
       None \<Rightarrow> Inl (Undefined_behaviour ''isFinish was deleted'')
     | Some _ \<Rightarrow> Inr None)"

definition run_phase ::
  "cxx_env \<Rightarrow> ('s \<Rightarrow> perf_context) \<Rightarrow> 's db_ops \<Rightarrow> bool \<Rightarrow> string \<Rightarrow> int \<Rightarrow> int \<Rightarrow> nat list \<Rightarrow> bool option \<Rightarrow> 's shared \<Rightarrow>
   (report \<times> bool option \<times> 's shared) result" where
  "run_phase env get_perf db is_loading dbname num_threads total_ops sched isFinish sh =
     (let timer = Start (shd (sh_clk sh)) \<lparr>time_point = 0\<rparr>;
          sh = sh\<lparr>sh_clk := stl (sh_clk sh)\<rparr>;
          ts = replicate (nat num_threads) (new_thread dbname);
          num_ops = total_ops sdiv num_threads in
      bindR (assertR (int (length ts) = num_threads) ''actual_ops.size() == num_threads'') (\<lambda>_.
      bindR (run_threads env get_perf db num_ops is_loading (sched @ finishing (length ts) num_ops) ts sh) (\<lambda>(ts, sh).
      let sum = sum_list (map t_oks ts) in
      bindR (finish_flag isFinish) (\<lambda>isFinish.
      let duration = End_s (shd (sh_clk sh)) timer;
          sh = sh\<lparr>sh_clk := stl (sh_clk sh)\<rparr> in
      bindR (merge_all ts) (\<lambda>his.
      let perf = (if dbname = ''rocksdb'' then Some (foldl mergePerf perf_Reset (map (\<lambda>t. the (t_perf t)) ts)) else None);
          sh = (if dbname = ''rocksdb'' \<or> dbname = ''leveldb'' then sh\<lparr>sh_db := db_printStats db (sh_db sh)\<rparr> else sh) in
      Inr (\<lparr>rep_loading = is_loading, rep_sum = sum, rep_threads = num_threads,
             rep_rate = d_of_int total_ops / duration, rep_his = his, rep_perf = perf\<rparr>, isFinish, sh))))))"

text \<open>
  What a phase writes to standard error. The counters are printed by RocksDB's ToString, a
  parameter, and printStats writes to standard output.
\<close>

definition stats_header :: "bool \<Rightarrow> string \<Rightarrow> string" where
  "stats_header is_loading dbname =
     (if dbname = ''rocksdb'' \<and> \<not> is_loading then ''============================statistics==========================='' @ endl
      else ''============================ DB statistics ==========================='' @ endl)"

definition perf_header :: "bool \<Rightarrow> string" where
  "perf_header is_loading =
     (if is_loading then ''============================ DB perf/io statistics==========================='' @ endl
      else ''============================ perf/io statistics==========================='' @ endl)"

definition phase_text ::
  "string \<Rightarrow> (perf_context \<Rightarrow> string) \<Rightarrow> string \<Rightarrow> string \<Rightarrow> report \<Rightarrow> string result" where
  "phase_text nan perf_ToString dbname file_name rep =
     bindR (ToString nan (rep_his rep)) (\<lambda>his_text.
     Inr ((if rep_loading rep then ''# Loading records:'' @ [CHR 0x09] @ to_string_int (rep_sum rep) @ endl
           else ''# Transaction throughput '' @ endl) @
       dbname @ [CHR 0x09] @ file_name @ [CHR 0x09] @ to_string_int (rep_threads rep) @ [CHR 0x09] @
       fmt_g nan (rep_rate rep) @ '' OPS'' @ endl @
       his_text @ endl @
       (if dbname = ''rocksdb'' then
          stats_header (rep_loading rep) dbname @ perf_header (rep_loading rep) @ perf_ToString (the (rep_perf rep)) @ endl
        else if dbname = ''leveldb'' then stats_header (rep_loading rep) dbname
        else [])))"

section \<open>main\<close>

text \<open>
  The parts of the world main depends on: the libraries, the files, the draws and the clock, and
  the two schedules. main gives the report of each phase with the text it writes. The future of the statistics thread is destroyed at the end of its block,
  which waits for the thread.
\<close>

record ('pt, 'd, 'i, 'e, 'j) world =
  wd_ptree :: "'pt ptree_lib"
  wd_rocks :: "(rocks_options, 'd, 'i) kv_lib"
  wd_level :: "(level_options, 'e, 'j) kv_lib"
  wd_perf :: "('d, 'e) db_object \<Rightarrow> perf_context"
  wd_perf_ToString :: "perf_context \<Rightarrow> string"
  wd_nan :: string
  wd_env :: cxx_env
  wd_files :: "string \<Rightarrow> ifstream"
  wd_random :: random
  wd_clock :: "int stream"
  wd_sched :: "bool \<Rightarrow> nat list"

abbreviation wd_ops :: "('pt, 'd, 'i, 'e, 'j) world \<Rightarrow> ('d, 'e) db_object db_ops" where
  "wd_ops W \<equiv> object_ops (wd_rocks W) (wd_level W)"

definition stats_thread :: "'s db_ops \<Rightarrow> int \<Rightarrow> 's \<Rightarrow> 's result" where
  "stats_thread db duration s =
     (if duration \<noteq> 0 then (case record_loop db False s of None \<Rightarrow> Inl (Diverges ''record'') | Some s' \<Rightarrow> Inr s')
      else Inr s)"

definition main_phase ::
  "('pt, 'd, 'i, 'e, 'j) world \<Rightarrow> properties \<Rightarrow> string \<Rightarrow> int \<Rightarrow> bool \<Rightarrow> string \<Rightarrow> bool option \<Rightarrow>
   ('d, 'e) db_object shared \<Rightarrow> ((report \<times> string) list \<times> bool option \<times> ('d, 'e) db_object shared) result" where
  "main_phase W props file_name num_threads is_loading pattern isFinish sh =
     (if pattern = (if is_loading then ''load'' else ''run'') \<or> pattern = ''both'' then
        bindR (props_at props (if is_loading then RECORD_COUNT_PROPERTY else OPERATION_COUNT_PROPERTY)) (\<lambda>v.
        bindR (stoi v) (\<lambda>total_ops.
        bindR (props_at props ''dbname'') (\<lambda>dbname.
        bindR (run_phase (wd_env W) (wd_perf W) (wd_ops W) is_loading dbname num_threads total_ops
                (wd_sched W is_loading) isFinish sh) (\<lambda>(rep, isFinish, sh).
        bindR (phase_text (wd_nan W) (wd_perf_ToString W) dbname file_name rep) (\<lambda>cerr.
        Inr ([(rep, cerr)], isFinish, sh))))))
      else Inr ([], isFinish, sh))"

definition ycsbc_main :: "('pt, 'd, 'i, 'e, 'j) world \<Rightarrow> string list \<Rightarrow> (report \<times> string) list result" where
  "ycsbc_main W argv =
     bindR (ParseCommandLine (wd_files W) argv Map.empty) (\<lambda>(file_name, props).
     bindR (CreateDB (wd_ptree W) (wd_rocks W) (wd_level W) props) (\<lambda>obj.
     case obj of
       None \<Rightarrow> bindR (props_at props ''dbname'') (\<lambda>dbname. Inl (Exit 0 (''Unknown database name '' @ dbname @ endl)))
     | Some s \<Rightarrow>
         bindR (Workload_Init (wd_env W) props CoreWorkload (wd_random W)) (\<lambda>(w, r).
         bindR (stoi (GetProperty props ''threadcount'' ''1'')) (\<lambda>num_threads.
         let pattern = GetProperty props ''pattern'' [] in
         bindR (stoi (GetProperty props ''duration'' ''0'')) (\<lambda>duration.
         bindR (stats_thread (wd_ops W) duration s) (\<lambda>s.
         bindR (main_phase W props file_name num_threads True pattern (Some False)
                 \<lparr>sh_clk = wd_clock W, sh_wl = w, sh_rnd = r, sh_db = s\<rparr>) (\<lambda>(rep1, isFinish, sh).
         bindR (main_phase W props file_name num_threads False pattern isFinish sh) (\<lambda>(rep2, isFinish, sh).
         Inr (rep1 @ rep2)))))))))"

section \<open>When main cannot return\<close>

lemma record_loop_endless: "record_loop db False s = None"
proof -
  have "b" if "record_loop db b s = Some y" for b y
    by (rule record_loop.raw_induct [of "\<lambda>db b s y. b", OF _ that]) (auto split: if_splits)
  then show ?thesis by (metis option.exhaust)
qed

lemma stats_thread_returns: "stats_thread db d s = Inr s' \<Longrightarrow> d = 0 \<and> s' = s"
  by (simp add: stats_thread_def record_loop_endless split: if_splits)

lemma run_phase_flag:
  "run_phase env gp db ld dbname n tot sched isFinish sh = Inr (rep, isFinish', sh') \<Longrightarrow>
   isFinish \<noteq> None \<and> isFinish' = None"
  by (auto simp: run_phase_def Let_def bindR_eq_Inr_iff finish_flag_def split: option.splits)

lemma main_phase_flag:
  assumes "main_phase W props fn n ld pattern isFinish sh = Inr (reps, isFinish', sh')"
    and "pattern = (if ld then ''load'' else ''run'') \<or> pattern = ''both''"
  shows "isFinish \<noteq> None \<and> isFinish' = None"
  using assms by (auto simp: main_phase_def bindR_eq_Inr_iff dest!: run_phase_flag split: if_splits)

lemma run_phase_threads:
  assumes "run_phase env gp db ld dbname n tot sched isFinish sh = Inr (rep, isFinish', sh')"
  shows "0 < n"
proof -
  obtain ts sh1 where ts: "run_threads env gp db (tot sdiv n) ld (sched @ finishing (nat n) (tot sdiv n))
      (replicate (nat n) (new_thread dbname)) (sh\<lparr>sh_clk := stl (sh_clk sh)\<rparr>) = Inr (ts, sh1)"
    and his: "\<exists>h. merge_all ts = Inr h" and n: "int (nat n) = n"
    using assms by (auto simp: run_phase_def Let_def bindR_eq_Inr_iff assertR_def split: if_splits)
  have "length ts = nat n"
  proof -
    have "run_threads env gp db k ld is us s = Inr (vs, s') \<Longrightarrow> length vs = length us" for k "is" us vs s s'
      by (induction "is" arbitrary: us s) (fastforce simp: bindR_eq_Inr_iff split: if_splits)+
    then show ?thesis using ts by fastforce
  qed
  then show ?thesis using his n by (cases "nat n") (auto simp: merge_all_def)
qed

lemma main_phase_threads:
  assumes "main_phase W props fn n ld pattern isFinish sh = Inr (reps, isFinish', sh')"
    and "pattern = (if ld then ''load'' else ''run'') \<or> pattern = ''both''"
  shows "0 < n"
  using assms by (auto simp: main_phase_def bindR_eq_Inr_iff dest!: run_phase_threads split: if_splits)

text \<open>
  C35. Three ways of calling the program from which main never returns normally: with the pattern
  both the second phase writes to and deletes the flag the first one deleted; with a duration
  other than zero main waits at the end of the block for a statistics thread that stops only
  after main has gone on; with no thread the histogram to print does not exist.
\<close>

theorem main_cannot_return:
  assumes "ParseCommandLine (wd_files W) argv Map.empty = Inr (fn, p)"
    and "GetProperty p ''pattern'' [] = ''both'' \<or>
         (\<exists>d. stoi (GetProperty p ''duration'' ''0'') = Inr d \<and> d \<noteq> 0) \<or>
         (GetProperty p ''pattern'' [] \<in> {''load'', ''run''} \<and>
          (\<exists>n. stoi (GetProperty p ''threadcount'' ''1'') = Inr n \<and> n \<le> 0))"
  shows "\<exists>e. ycsbc_main W argv = Inl e"
proof (rule ccontr)
  assume "\<not> (\<exists>e. ycsbc_main W argv = Inl e)"
  then obtain reps where "ycsbc_main W argv = Inr reps" by (cases "ycsbc_main W argv") auto
  then obtain s w r n d s1 rep1 f1 sh1 rep2 f2 sh2 where
    n: "stoi (GetProperty p ''threadcount'' ''1'') = Inr n" and
    d: "stoi (GetProperty p ''duration'' ''0'') = Inr d" and
    st: "stats_thread (wd_ops W) d s = Inr s1" and
    p1: "main_phase W p fn n True (GetProperty p ''pattern'' []) (Some False)
           \<lparr>sh_clk = wd_clock W, sh_wl = w, sh_rnd = r, sh_db = s1\<rparr> = Inr (rep1, f1, sh1)" and
    p2: "main_phase W p fn n False (GetProperty p ''pattern'' []) f1 sh1 = Inr (rep2, f2, sh2)"
    using assms(1) by (auto simp: ycsbc_main_def Let_def bindR_eq_Inr_iff split: option.splits)
  from assms(2) show False
  proof (elim disjE exE conjE)
    assume "GetProperty p ''pattern'' [] = ''both''"
    then show False using main_phase_flag [OF p1] main_phase_flag [OF p2] by simp
  next
    fix d' assume "stoi (GetProperty p ''duration'' ''0'') = Inr d'" "d' \<noteq> 0"
    then show False using stats_thread_returns [OF st] d by simp
  next
    fix n' assume "GetProperty p ''pattern'' [] \<in> {''load'', ''run''}"
      and "stoi (GetProperty p ''threadcount'' ''1'') = Inr n'" "n' \<le> 0"
    then show False using main_phase_threads [OF p1] main_phase_threads [OF p2] n by auto
  qed
qed

definition sample_world :: "((string \<rightharpoonup> string), kvs, kvs, kvs, kvs) world" where
  "sample_world = \<lparr>wd_ptree = shipped_ptree, wd_rocks = mem_lib initial_rocks_options,
     wd_level = mem_lib initial_level_options, wd_perf = (\<lambda>_. perf_Reset),
     wd_perf_ToString = (\<lambda>_. []), wd_nan = ''-nan'', wd_env = sample_env,
     wd_files = (\<lambda>_. Not_open), wd_random = sample_random, wd_clock = sconst 0, wd_sched = (\<lambda>_. [])\<rparr>"

theorem main_cannot_return_witness:
  "\<exists>e. ycsbc_main sample_world [''ycsbc'', ''-db'', ''basic'', ''both''] = Inl e"
proof -
  have "ParseCommandLine (wd_files sample_world) [''ycsbc'', ''-db'', ''basic'', ''both''] Map.empty =
      Inr ([], [''dbname'' \<mapsto> ''basic'', ''pattern'' \<mapsto> ''both''])"
    by (simp add: ParseCommandLine_def parse_flag parse_pattern parse_args.simps(1) SetProperty_def GetProperty_def)
  from main_cannot_return [OF this] show ?thesis by (simp add: GetProperty_def)
qed

end
