(* ===== verification/Threads.thy ===== *)
theory Threads
  imports Ycsbc
begin

text \<open>
  A phase under every schedule of its threads: each thread performs its share of the operations,
  the phase ends, and the merged histogram holds one sample per operation. The lemmas are proved
  for any database that keeps the contract and then used for the objects of the factory.
\<close>

section \<open>One step\<close>

definition steady :: "int stream \<Rightarrow> bool" where
  "steady clk \<longleftrightarrow> (\<forall>i. \<bar>snth clk (Suc i) - snth clk i\<bar> \<le> 2 ^ 53)"

lemma steady_first: "steady clk \<Longrightarrow> \<bar>shd (stl clk) - shd clk\<bar> \<le> 2 ^ 53"
  unfolding steady_def by (drule spec [of _ 0]) simp

lemma steady_stl: "steady clk \<Longrightarrow> steady (stl clk)"
  unfolding steady_def by (metis snth.simps(2))

definition sh_ok :: "cxx_env \<Rightarrow> ('s \<Rightarrow> bool) \<Rightarrow> 's shared \<Rightarrow> bool" where
  "sh_ok env I sh \<longleftrightarrow> ready env (sh_wl sh) (sh_rnd sh) \<and> steady (sh_clk sh) \<and> I (sh_db sh)"

text \<open>
  A thread that has n operations to do: its histogram represents as many samples as it has done,
  and it has the pointer to the counters if it will need it.
\<close>

fun pc_ok :: "nat \<Rightarrow> nat \<Rightarrow> pc \<Rightarrow> bool" where
  "pc_ok n m Not_started \<longleftrightarrow> m = 0"
| "pc_ok n m (Running k) \<longleftrightarrow> m + k = n"
| "pc_ok n m Closed \<longleftrightarrow> m = n"

definition thread_ok :: "string \<Rightarrow> nat \<Rightarrow> thread \<Rightarrow> bool" where
  "thread_ok nm n t \<longleftrightarrow> (nm = ''rocksdb'' \<longrightarrow> t_perf t \<noteq> None) \<and>
     (\<exists>xs. hist_repr (t_his t) xs \<and> pc_ok n (length xs) (t_pc t) \<and> 0 \<le> t_oks t \<and> t_oks t \<le> int (length xs))"

fun steps_left :: "nat \<Rightarrow> pc \<Rightarrow> nat" where
  "steps_left n Not_started = n + 2"
| "steps_left n (Running k) = k + 1"
| "steps_left n Closed = 0"

context db_contract
begin

lemma client_op_step:
  assumes "ready env w r" "inv s"
  shows "\<exists>ok w' r' s'. client_op env db ld w r s = Inr (ok, w', r', s') \<and> ready env w' r' \<and> inv s'"
  using DoInsert_step [OF assms] DoTransaction_step [OF assms] by (auto simp: client_op_def)

lemma loop_body_step:
  assumes sh: "sh_ok env inv sh" and his: "hist_repr his xs" "length xs < 2 ^ 53"
  shows "\<exists>ok his' sh' x. loop_body env db ld oks his sh = Inr (oks + of_bool ok, his', sh') \<and>
           hist_repr his' (x # xs) \<and> sh_ok env inv sh'"
proof -
  let ?clk = "sh_clk sh"
  have r: "ready env (sh_wl sh) (sh_rnd sh)" and c: "steady ?clk" and i: "inv (sh_db sh)"
    using sh by (simp_all add: sh_ok_def)
  obtain ok w' r' s' where op: "client_op env db ld (sh_wl sh) (sh_rnd sh) (sh_db sh) = Inr (ok, w', r', s')"
    "ready env w' r'" "inv s'" using client_op_step [OF r i] by blast
  let ?d = "shd (stl ?clk) - shd ?clk"
  have "End_us (shd (stl ?clk)) (Start (shd ?clk) \<lparr>time_point = 0\<rparr>) = of_rat_d (of_int ?d / 1000)"
    by (rule End_us_Start [OF steady_first [OF c]])
  then have "AddFast his (End_us (shd (stl ?clk)) (Start (shd ?clk) \<lparr>time_point = 0\<rparr>)) = Inr (Add his (Fin (us_value ?d)))"
    and "hist_repr (Add his (Fin (us_value ?d))) (us_value ?d # xs)"
    using hist_repr_AddFast [OF his steady_first [OF c]] by simp_all
  then show ?thesis using op steady_stl [OF steady_stl [OF c]]
    by (auto simp: loop_body_def Let_def sh_ok_def)
qed

lemma thread_step_ok:
  assumes name: "\<And>s. inv s \<Longrightarrow> db_getName db s = nm"
    and t: "thread_ok nm (nat k) t" and sh: "sh_ok env inv sh" and k: "k < 2 ^ 53"
  shows "\<exists>t' sh'. thread_step env gp db k ld t sh = Inr (t', sh') \<and> thread_ok nm (nat k) t' \<and> sh_ok env inv sh' \<and>
           steps_left (nat k) (t_pc t') = steps_left (nat k) (t_pc t) - 1"
proof -
  obtain xs where xs: "hist_repr (t_his t) xs" "pc_ok (nat k) (length xs) (t_pc t)" "0 \<le> t_oks t"
    "t_oks t \<le> int (length xs)" and perf: "nm = ''rocksdb'' \<longrightarrow> t_perf t \<noteq> None"
    using t by (auto simp: thread_ok_def)
  have i: "inv (sh_db sh)" using sh by (simp add: sh_ok_def)
  show ?thesis
  proof (cases "t_pc t")
    case Not_started
    obtain s where "db_Init db (sh_db sh) = Inr s" "inv s" using init_ok [OF i] by blast
    then show ?thesis using Not_started xs perf sh
      by (auto simp: thread_step_def thread_ok_def sh_ok_def)
  next
    case (Running m)
    show ?thesis
    proof (cases m)
      case 0
      obtain s where s: "db_Close db (sh_db sh) = Inr s" "inv s" using close_ok [OF i] by blast
      obtain perf' where p: "copy_perf gp db (sh_db sh) (t_perf t) = Inr perf'" "nm = ''rocksdb'' \<longrightarrow> perf' \<noteq> None"
        using perf name [OF i] by (cases "nm = ''rocksdb''") (auto simp: copy_perf_def)
      then show ?thesis using Running 0 xs sh s
        by (auto simp: thread_step_def thread_ok_def sh_ok_def)
    next
      case (Suc m')
      have len: "length xs < 2 ^ 53" using xs(2) Running Suc k by simp
      obtain ok his' sh' x where "loop_body env db ld (t_oks t) (t_his t) sh = Inr (t_oks t + of_bool ok, his', sh')"
        "hist_repr his' (x # xs)" "sh_ok env inv sh'"
        using loop_body_step [OF sh xs(1) len] by blast
      moreover have "0 \<le> t_oks t + of_bool ok" "t_oks t + of_bool ok \<le> int (length (x # xs))" using xs(3,4) by simp_all
      ultimately show ?thesis using Running Suc xs(2) perf
        by (auto simp: thread_step_def thread_ok_def intro!: exI [of _ "x # xs"])
    qed
  next
    case Closed
    then show ?thesis using t sh by (simp add: thread_step_def)
  qed
qed

lemma run_threads_ok:
  assumes name: "\<And>s. inv s \<Longrightarrow> db_getName db s = nm" and k: "k < 2 ^ 53"
    and "\<forall>t\<in>set ts. thread_ok nm (nat k) t" "sh_ok env inv sh"
  shows "\<exists>ts' sh'. run_threads env gp db k ld sched ts sh = Inr (ts', sh') \<and> length ts' = length ts \<and>
           (\<forall>t\<in>set ts'. thread_ok nm (nat k) t) \<and> sh_ok env inv sh' \<and>
           (\<forall>i<length ts. steps_left (nat k) (t_pc (ts' ! i)) = steps_left (nat k) (t_pc (ts ! i)) - count_list sched i)"
  using assms(3,4)
proof (induction sched arbitrary: ts sh)
  case (Cons j sched)
  show ?case
  proof (cases "j < length ts")
    case True
    obtain t' sh1 where 1: "thread_step env gp db k ld (ts ! j) sh = Inr (t', sh1)" "thread_ok nm (nat k) t'"
      "sh_ok env inv sh1" "steps_left (nat k) (t_pc t') = steps_left (nat k) (t_pc (ts ! j)) - 1"
      using thread_step_ok [OF name _ Cons.prems(2) k, of "ts ! j" gp ld] Cons.prems(1) True by auto
    have "\<forall>t\<in>set (ts[j := t']). thread_ok nm (nat k) t"
      using Cons.prems(1) 1(2) set_update_subset_insert [of ts j t'] by blast
    from Cons.IH [OF this 1(3)] show ?thesis using True 1(1,4) by (auto simp: nth_list_update)
  next
    case False
    then show ?thesis using Cons.IH [OF Cons.prems] by (auto simp: not_less)
  qed
qed simp

text \<open>Every thread has finished when the schedule gives it enough steps.\<close>

lemma run_threads_finish:
  assumes name: "\<And>s. inv s \<Longrightarrow> db_getName db s = nm" and k: "k < 2 ^ 53"
    and ts: "\<forall>t\<in>set ts. thread_ok nm (nat k) t" and sh: "sh_ok env inv sh"
    and fair: "\<forall>i<length ts. nat k + 2 \<le> count_list sched i"
  shows "\<exists>ts' sh'. run_threads env gp db k ld sched ts sh = Inr (ts', sh') \<and> length ts' = length ts \<and>
           (\<forall>t\<in>set ts'. thread_ok nm (nat k) t \<and> t_pc t = Closed) \<and> sh_ok env inv sh'"
proof -
  obtain ts' sh' where r: "run_threads env gp db k ld sched ts sh = Inr (ts', sh')" "length ts' = length ts"
    "\<forall>t\<in>set ts'. thread_ok nm (nat k) t" "sh_ok env inv sh'"
    "\<forall>i<length ts. steps_left (nat k) (t_pc (ts' ! i)) = steps_left (nat k) (t_pc (ts ! i)) - count_list sched i"
    using run_threads_ok [OF name k ts sh] by blast
  have "t_pc t = Closed" if t: "t \<in> set ts'" for t
  proof -
    obtain i where i: "i < length ts" "ts' ! i = t" using t r(2) by (metis in_set_conv_nth)
    obtain m where "pc_ok (nat k) m (t_pc (ts ! i))"
      using ts nth_mem [OF i(1)] unfolding thread_ok_def by blast
    then have "steps_left (nat k) (t_pc (ts ! i)) \<le> nat k + 2" by (cases "t_pc (ts ! i)") auto
    then have "steps_left (nat k) (t_pc t) = 0" using r(5) i fair by fastforce
    then show ?thesis by (cases "t_pc t") auto
  qed
  then show ?thesis using r by blast
qed

end

section \<open>A phase\<close>

lemma count_upt: "i < n \<Longrightarrow> count_list [0..<n] i = 1"
  by (induction n) (auto simp: less_Suc_eq)

lemma finishing_count: "i < n \<Longrightarrow> count_list (finishing n k) i = nat k + 2"
proof -
  have c: "count_list (replicate m j) i = (if j = i then m else 0)" for m j :: nat by (induction m) auto
  have "count_list (concat (map (replicate m) js)) i = m * count_list js i" for m js
    by (induction js) (auto simp: c)
  moreover assume "i < n"
  ultimately show ?thesis unfolding finishing_def by (simp only: count_upt mult_1_right)
qed

lemma sdiv_nonneg: "0 \<le> (a::int) \<Longrightarrow> 0 < b \<Longrightarrow> a sdiv b = a div b"
  by (cases "a = 0") (simp_all add: signed_divide_int_def)

lemma merge_threads:
  assumes "\<forall>t\<in>set ts. \<exists>xs. hist_repr (t_his t) xs \<and> length xs = n"
    and "hist_repr h xs0" "length xs0 + length ts * n \<le> 2 ^ 53"
  shows "\<exists>xs. hist_repr (foldl Merge h (map t_his ts)) xs \<and> length xs = length xs0 + length ts * n"
  using assms
proof (induction ts arbitrary: h xs0)
  case (Cons t ts)
  obtain xs where xs: "hist_repr (t_his t) xs" "length xs = n" using Cons.prems(1) by auto
  have "hist_repr (Merge h (t_his t)) (xs0 @ xs)"
    using Cons.prems xs by (intro hist_repr_Merge) simp_all
  from Cons.IH [OF _ this] show ?case using Cons.prems xs(2) by (auto simp: algebra_simps)
qed auto

lemma new_thread_ok: "thread_ok nm n (new_thread nm)"
  using hist_repr_Clear [of new_histogram] by (auto simp: thread_ok_def new_thread_def intro!: exI [of _ "[]"])

lemma oks_bounds:
  assumes "\<forall>t\<in>set ts. 0 \<le> t_oks t \<and> t_oks t \<le> int n"
  shows "0 \<le> sum_list (map t_oks ts) \<and> sum_list (map t_oks ts) \<le> int (length ts * n)"
  using assms by (induction ts) (auto simp: algebra_simps)

context db_contract
begin

lemma run_phase_ok:
  assumes name: "\<And>s. inv s \<Longrightarrow> db_getName db s = nm" and sh: "sh_ok env inv sh"
    and n: "0 < n" and tot: "0 \<le> tot" "tot < 2 ^ 31"
  shows "\<exists>rep sh' xs. run_phase env gp db ld nm n tot sched (Some b) sh = Inr (rep, None, sh') \<and>
           ready env (sh_wl sh') (sh_rnd sh') \<and> 0 \<le> rep_sum rep \<and> rep_sum rep \<le> n * (tot div n) \<and>
           hist_repr (rep_his rep) xs \<and> int (length xs) = n * (tot div n)"
proof -
  let ?k = "tot div n" and ?N = "nat (tot div n)"
  let ?ts = "replicate (nat n) (new_thread nm)" and ?sh = "sh\<lparr>sh_clk := stl (sh_clk sh)\<rparr>"
  have le: "n * ?k \<le> tot" "0 \<le> ?k" using n tot(1)
    by (simp_all add: pos_imp_zdiv_nonneg_iff mult.commute [of n] minus_mod_eq_div_mult [symmetric])
  have small: "nat n * ?N \<le> 2 ^ 53"
  proof -
    have "int (nat n * ?N) = n * ?k" using n le(2) by simp
    then have "int (nat n * ?N) \<le> int (2 ^ 53)" using le(1) tot(2) by simp
    then show ?thesis unfolding of_nat_le_iff .
  qed
  have "?k \<le> n * ?k" using n le(2) mult_right_mono [of 1 n ?k] by simp
  then have k: "?k < 2 ^ 53" using le(1) tot(2) by simp
  have sh': "sh_ok env inv ?sh" using sh steady_stl by (simp add: sh_ok_def)
  have ts0: "\<forall>t\<in>set ?ts. thread_ok nm (nat ?k) t" using new_thread_ok by auto
  have fair: "\<forall>i<length ?ts. nat ?k + 2 \<le> count_list (sched @ finishing (nat n) ?k) i"
    by (simp add: finishing_count)
  obtain ts sh1 where r: "run_threads env gp db ?k ld (sched @ finishing (nat n) ?k) ?ts ?sh = Inr (ts, sh1)"
    "length ts = nat n" "\<forall>t\<in>set ts. thread_ok nm (nat ?k) t \<and> t_pc t = Closed" "sh_ok env inv sh1"
    using run_threads_finish [OF name k ts0 sh' fair, of gp ld] by auto
  have each: "\<exists>xs. hist_repr (t_his t) xs \<and> length xs = ?N \<and> 0 \<le> t_oks t \<and> t_oks t \<le> int ?N" if "t \<in> set ts" for t
  proof -
    have "thread_ok nm ?N t" "t_pc t = Closed" using r(3) that by blast+
    then show ?thesis unfolding thread_ok_def by auto
  qed
  obtain t us where ts: "ts = t # us" using r(2) n by (cases ts) auto
  obtain xs0 where xs0: "hist_repr (t_his t) xs0" "length xs0 = ?N" using each ts by (metis list.set_intros(1))
  have sum: "?N + length us * ?N = nat n * ?N" using r(2) ts by (metis length_Cons mult_Suc)
  have "\<forall>u\<in>set us. \<exists>xs. hist_repr (t_his u) xs \<and> length xs = ?N" using each ts by (metis list.set_intros(2))
  from merge_threads [OF this xs0(1)] obtain xs where
    xs: "hist_repr (foldl Merge (t_his t) (map t_his us)) xs" "length xs = nat n * ?N"
    unfolding xs0(2) sum using small by blast
  have "int (length xs) = n * ?k" using xs(2) n le(2) by simp
  moreover have "0 \<le> sum_list (map t_oks ts)" "sum_list (map t_oks ts) \<le> n * ?k"
    using oks_bounds [of ts ?N] each r(2) n le(2) by fastforce+
  ultimately show ?thesis
    using r n xs(1) ts sh_ok_def [of env inv sh1]
    by (auto simp: run_phase_def Let_def sdiv_nonneg [OF tot(1) n] assertR_def finish_flag_def merge_all_def)
qed

end

section \<open>One thread\<close>

lemma run_one_thread:
  "run_threads env gp db k ld (replicate (m + 1) 0)
     [\<lparr>t_pc = Running m, t_oks = oks, t_his = his, t_perf = perf\<rparr>] sh =
   bindR (delegate_loop env db ld m oks his sh) (\<lambda>(oks, his, sh).
   bindR (copy_perf gp db (sh_db sh) perf) (\<lambda>perf.
   bindR (db_Close db (sh_db sh)) (\<lambda>s.
   Inr ([\<lparr>t_pc = Closed, t_oks = oks, t_his = his, t_perf = perf\<rparr>], sh\<lparr>sh_db := s\<rparr>))))"
proof (induction m arbitrary: oks his sh)
  case 0
  then show ?case
    by (simp add: thread_step_def bindR_def split: sum.splits)
next
  case (Suc m)
  show ?case
  proof (cases "loop_body env db ld oks his sh")
    case (Inr x)
    obtain oks' his' sh' where x: "x = (oks', his', sh')" by (cases x)
    show ?thesis using Suc.IH [of oks' his' sh'] Inr x by (simp add: thread_step_def)
  qed (simp add: thread_step_def)
qed

text \<open>
  The thread state machine is DelegateClient: a single thread that is given all its steps
  gives exactly the outcome of the function, the errors of every part included, for any
  database, workload and clock.
\<close>

lemma DelegateClient_is_one_thread:
  "run_threads env gp db k ld (replicate (nat k + 2) 0)
     [\<lparr>t_pc = Not_started, t_oks = 0, t_his = his, t_perf = perf\<rparr>] sh =
   bindR (DelegateClient env gp db k ld his perf sh) (\<lambda>(oks, his, perf, sh).
     Inr ([\<lparr>t_pc = Closed, t_oks = oks, t_his = his, t_perf = perf\<rparr>], sh))"
proof (cases "db_Init db (sh_db sh)")
  case (Inr s)
  have "run_threads env gp db k ld (replicate (nat k + 2) 0)
      [\<lparr>t_pc = Not_started, t_oks = 0, t_his = his, t_perf = perf\<rparr>] sh =
    run_threads env gp db k ld (replicate (nat k + 1) 0)
      [\<lparr>t_pc = Running (nat k), t_oks = 0, t_his = his, t_perf = perf\<rparr>] (sh\<lparr>sh_db := s\<rparr>)"
    using Inr by (simp add: thread_step_def)
  also have "\<dots> = bindR (DelegateClient env gp db k ld his perf sh) (\<lambda>(oks, his, perf, sh).
     Inr ([\<lparr>t_pc = Closed, t_oks = oks, t_his = his, t_perf = perf\<rparr>], sh))"
    unfolding run_one_thread using Inr
    by (simp add: DelegateClient_def bindR_def split: sum.splits prod.splits)
  finally show ?thesis .
qed (simp add: DelegateClient_def thread_step_def)

section \<open>A client without its instruments\<close>

text \<open>
  The operations of a client one after the other, with nothing measured: the list of the outcomes,
  and the workload, the random source and the database after the last one.
\<close>

fun untimed_run ::
  "cxx_env \<Rightarrow> 's db_ops \<Rightarrow> bool \<Rightarrow> nat \<Rightarrow> workload \<Rightarrow> random \<Rightarrow> 's \<Rightarrow> (bool list \<times> workload \<times> random \<times> 's) result" where
  "untimed_run env db ld 0 w r s = Inr ([], w, r, s)"
| "untimed_run env db ld (Suc n) w r s =
     bindR (client_op env db ld w r s) (\<lambda>(b, w, r, s).
     bindR (untimed_run env db ld n w r s) (\<lambda>(bs, w, r, s). Inr (b # bs, w, r, s)))"

text \<open>
  What a thread is to do: open the database, perform its operations, close the database again; its
  results are the number of successful operations, the counters it read before closing, and the
  shared state, in which the clock has been read twice for each operation.
\<close>

definition client_spec ::
  "cxx_env \<Rightarrow> ('s \<Rightarrow> perf_context) \<Rightarrow> 's db_ops \<Rightarrow> nat \<Rightarrow> bool \<Rightarrow> perf_context option \<Rightarrow> 's shared \<Rightarrow>
   (int \<times> perf_context option \<times> 's shared) result" where
  "client_spec env get_perf db n ld perf sh =
     bindR (db_Init db (sh_db sh)) (\<lambda>s.
     bindR (untimed_run env db ld n (sh_wl sh) (sh_rnd sh) s) (\<lambda>(bs, w, r, s).
     bindR (copy_perf get_perf db s perf) (\<lambda>perf.
     bindR (db_Close db s) (\<lambda>s.
     Inr (int (count_list bs True), perf, \<lparr>sh_clk = sdrop (2 * n) (sh_clk sh), sh_wl = w, sh_rnd = r, sh_db = s\<rparr>)))))"

text \<open>The time between the two readings of the clock around operation i, in microseconds.\<close>

definition latency :: "int stream \<Rightarrow> nat \<Rightarrow> rat" where
  "latency clk i = us_value (snth clk (2 * i + 1) - snth clk (2 * i))"

lemma latency_Suc: "latency clk (Suc i) = latency (stl (stl clk)) i"
  by (simp add: latency_def)

lemma delegate_loop_measures:
  assumes "hist_repr his xs" "length xs + n \<le> 2 ^ 53" "steady clk"
  shows "\<exists>H. hist_repr H (rev (map (latency clk) [0..<n]) @ xs) \<and>
    (\<forall>oks w r s. delegate_loop env db ld n oks his \<lparr>sh_clk = clk, sh_wl = w, sh_rnd = r, sh_db = s\<rparr> =
       bindR (untimed_run env db ld n w r s) (\<lambda>(bs, w, r, s).
         Inr (oks + int (count_list bs True), H, \<lparr>sh_clk = sdrop (2 * n) clk, sh_wl = w, sh_rnd = r, sh_db = s\<rparr>)))"
  using assms
proof (induction n arbitrary: his xs clk)
  case (Suc n)
  let ?d = "shd (stl clk) - shd clk"
  have len: "length xs < 2 ^ 53" using Suc.prems(2) by simp
  have e: "End_us (shd (stl clk)) (Start (shd clk) \<lparr>time_point = 0\<rparr>) = of_rat_d (of_int ?d / 1000)"
    by (rule End_us_Start [OF steady_first [OF Suc.prems(3)]])
  note add = hist_repr_AddFast [OF Suc.prems(1) len steady_first [OF Suc.prems(3)]]
  have a: "AddFast his (End_us (shd (stl clk)) (Start (shd clk) \<lparr>time_point = 0\<rparr>)) = Inr (Add his (Fin (us_value ?d)))"
    unfolding e by (rule add(1))
  have body: "loop_body env db ld oks his \<lparr>sh_clk = clk, sh_wl = w, sh_rnd = r, sh_db = s\<rparr> =
      bindR (client_op env db ld w r s) (\<lambda>(b, w, r, s). Inr (oks + of_bool b, Add his (Fin (us_value ?d)),
        \<lparr>sh_clk = stl (stl clk), sh_wl = w, sh_rnd = r, sh_db = s\<rparr>))" for oks w r s
    unfolding loop_body_def by (simp add: Let_def a)
  obtain H where H: "hist_repr H (rev (map (latency (stl (stl clk))) [0..<n]) @ us_value ?d # xs)"
    "\<And>oks w r s. delegate_loop env db ld n oks (Add his (Fin (us_value ?d)))
         \<lparr>sh_clk = stl (stl clk), sh_wl = w, sh_rnd = r, sh_db = s\<rparr> =
       bindR (untimed_run env db ld n w r s) (\<lambda>(bs, w, r, s).
         Inr (oks + int (count_list bs True), H, \<lparr>sh_clk = sdrop (2 * n) (stl (stl clk)), sh_wl = w, sh_rnd = r, sh_db = s\<rparr>))"
    using Suc.IH [OF add(2) _ steady_stl [OF steady_stl [OF Suc.prems(3)]]] Suc.prems(2) by auto
  have "map (latency clk) [0..<Suc n] = us_value ?d # map (latency (stl (stl clk))) [0..<n]"
    by (simp add: map_upt_Suc latency_Suc del: upt_Suc) (simp add: latency_def)
  then have "hist_repr H (rev (map (latency clk) [0..<Suc n]) @ xs)" using H(1) by simp
  moreover have "delegate_loop env db ld (Suc n) oks his \<lparr>sh_clk = clk, sh_wl = w, sh_rnd = r, sh_db = s\<rparr> =
      bindR (untimed_run env db ld (Suc n) w r s) (\<lambda>(bs, w, r, s). Inr (oks + int (count_list bs True), H,
        \<lparr>sh_clk = sdrop (2 * Suc n) clk, sh_wl = w, sh_rnd = r, sh_db = s\<rparr>))" for oks w r s
    unfolding delegate_loop.simps(2) body untimed_run.simps(2)
    by (auto simp: bindR_def H(2) split: sum.splits)
  ultimately show ?case by blast
qed simp

end
