(* ===== verification/Success.thy ===== *)
theory Success
  imports Threads
begin

text \<open>
  Which operations a phase counts as successful. The back ends the factory creates never give
  another status than kOK (an error of an engine ends the program), so a phase counts every
  operation it executes: also the reads of records that do not exist.
\<close>

section \<open>Databases whose operations succeed\<close>

locale db_success = db_contract +
  assumes read_status: "inv s \<Longrightarrow> db_Read db s tab key fs res = Inr (st, res', s') \<Longrightarrow> st = kOK"
    and scan_status: "inv s \<Longrightarrow> db_Scan db s tab key n fs ress = Inr (st, ress', s') \<Longrightarrow> st = kOK"
    and update_status: "inv s \<Longrightarrow> db_Update db s tab key vs = Inr (st, s') \<Longrightarrow> st = kOK"
    and insert_status: "inv s \<Longrightarrow> db_Insert db s tab key vs = Inr (st, s') \<Longrightarrow> st = kOK"

lemma engine_success:
  fixes L :: "('o, 'd, 'i) kv_lib"
  assumes law: "kv_law L ok mp rest" and ops: "ops = rocks_ops L \<or> ops = level_ops L"
  shows "db_success ops (\<lambda>s. ok (eng_db s) \<and> eng_name s = nm)"
proof (intro db_success.intro engine_contract [OF law ops], unfold_locales)
  fix s :: "'d engine_db" and tab key fs res ress vs st s' res' ress' and n :: int
  assume "ok (eng_db s) \<and> eng_name s = nm"
  then have ok: "ok (eng_db s)" by simp
  show "st = kOK" if "db_Read ops s tab key fs res = Inr (st, res', s')"
    using engine_read [OF law ok ops, of tab key fs res] that by auto
  show "st = kOK" if "db_Scan ops s tab key n fs ress = Inr (st, ress', s')"
    using engine_scan [OF ops, of s tab key n fs ress] that by auto
  show insert: "st = kOK" if "db_Insert ops s tab key vs = Inr (st, s')" for st
    using engine_write [OF law ok ops, of tab key vs] that by auto
  show "st = kOK" if "db_Update ops s tab key vs = Inr (st, s')"
    using insert that by (simp add: engine_update_delete [OF ops])
qed

interpretation basic_success: db_success basic_ops "\<lambda>_. True"
  by unfold_locales (simp_all add: basic_db_defs kOK_def)

lemma as_obj_status:
  "as_obj2 c m = Inr (st, s') \<Longrightarrow> (\<And>s. m = Inr (st, s) \<Longrightarrow> P) \<Longrightarrow> P"
  "as_obj3 c m3 = Inr (st, x, s') \<Longrightarrow> (\<And>s. m3 = Inr (st, x, s) \<Longrightarrow> P) \<Longrightarrow> P"
  by (auto simp: as_obj2_def as_obj3_def bindR_eq_Inr_iff)

lemma object_success:
  fixes RL :: "(rocks_options, 'd, 'i) kv_lib" and LL :: "(level_options, 'e, 'j) kv_lib"
  assumes "kv_law RL rok rmp rrest" "kv_law LL lok lmp lrest"
  shows "db_success (object_ops RL LL) (obj_inv rok lok nm)"
proof -
  have r: "db_success (rocks_ops RL) (\<lambda>s. rok (eng_db s) \<and> eng_name s = nm)" by (rule engine_success [OF assms(1)]) simp
  have l: "db_success (level_ops LL) (\<lambda>s. lok (eng_db s) \<and> eng_name s = nm)" by (rule engine_success [OF assms(2)]) simp
  show ?thesis
  proof (intro db_success.intro object_contract [OF assms], unfold_locales)
    fix s :: "('d, 'e) db_object" and tab key fs res ress vs st s' res' ress' and n :: int
    assume inv: "obj_inv rok lok nm s"
    show "st = kOK" if "db_Read (object_ops RL LL) s tab key fs res = Inr (st, res', s')"
      using that inv by (cases s) (auto simp: object_ops_def elim!: as_obj_status intro: db_success.read_status [OF r]
        db_success.read_status [OF l] basic_success.read_status)
    show "st = kOK" if "db_Scan (object_ops RL LL) s tab key n fs ress = Inr (st, ress', s')"
      using that inv by (cases s) (auto simp: object_ops_def elim!: as_obj_status intro: db_success.scan_status [OF r]
        db_success.scan_status [OF l] basic_success.scan_status)
    show "st = kOK" if "db_Update (object_ops RL LL) s tab key vs = Inr (st, s')"
      using that inv by (cases s) (auto simp: object_ops_def elim!: as_obj_status intro: db_success.update_status [OF r]
        db_success.update_status [OF l] basic_success.update_status)
    show "st = kOK" if "db_Insert (object_ops RL LL) s tab key vs = Inr (st, s')"
      using that inv by (cases s) (auto simp: object_ops_def elim!: as_obj_status intro: db_success.insert_status [OF r]
        db_success.insert_status [OF l] basic_success.insert_status)
  qed
qed

interpretation mem_objects: db_success "object_ops (mem_lib a) (mem_lib b)" "obj_inv mem_ok mem_ok nm"
  by (rule object_success [OF mem_lib_law mem_lib_law])

section \<open>Clients\<close>

text \<open>Every operation a thread has executed counts as a success.\<close>

definition all_ok :: "nat \<Rightarrow> thread \<Rightarrow> bool" where
  "all_ok n t \<longleftrightarrow> (case t_pc t of
       Not_started \<Rightarrow> t_oks t = 0
     | Running m \<Rightarrow> t_oks t + int m = int n
     | Closed \<Rightarrow> t_oks t = int n)"

context db_success
begin

lemma TransactionRead_succeeds:
  "inv s \<Longrightarrow> TransactionRead env db w r s = Inr (st, w', r', s') \<Longrightarrow> st = kOK"
  by (auto simp: TransactionRead_def Let_def bindR_eq_Inr_iff dest: read_status split: if_splits)

lemma TransactionScan_succeeds:
  "inv s \<Longrightarrow> TransactionScan env db w r s = Inr (st, w', r', s') \<Longrightarrow> st = kOK"
  by (auto simp: TransactionScan_def Let_def bindR_eq_Inr_iff dest: scan_status split: if_splits)

lemma TransactionUpdate_succeeds:
  "inv s \<Longrightarrow> TransactionUpdate env db w r s = Inr (st, w', r', s') \<Longrightarrow> st = kOK"
  by (auto simp: TransactionUpdate_def Let_def bindR_eq_Inr_iff dest: update_status)

lemma TransactionInsert_succeeds:
  "inv s \<Longrightarrow> TransactionInsert env db w r s = Inr (st, w', r', s') \<Longrightarrow> st = kOK"
  by (auto simp: TransactionInsert_def Let_def bindR_eq_Inr_iff dest: insert_status)

lemma read_keeps: "inv s \<Longrightarrow> db_Read db s tab key fs res = Inr (st, res', s') \<Longrightarrow> inv s'"
  using read_ok [of s tab key fs res] by auto

lemma TransactionReadModifyWrite_succeeds:
  "inv s \<Longrightarrow> TransactionReadModifyWrite env db w r s = Inr (st, w', r', s') \<Longrightarrow> st = kOK"
  by (auto simp: TransactionReadModifyWrite_def Let_def bindR_eq_Inr_iff dest: update_status read_keeps split: if_splits)

lemma DoTransaction_succeeds:
  assumes "inv s" "DoTransaction env db w r s = Inr (b, w', r', s')"
  shows b
proof -
  obtain op w1 r1 st where "NextOperation w r = Inr (op, w1, r1)" and b: "b = (st = kOK)"
    and t: "(case op of READ \<Rightarrow> TransactionRead env db w1 r1 s | UPDATE \<Rightarrow> TransactionUpdate env db w1 r1 s
       | INSERT \<Rightarrow> TransactionInsert env db w1 r1 s | SCAN \<Rightarrow> TransactionScan env db w1 r1 s
       | READMODIFYWRITE \<Rightarrow> TransactionReadModifyWrite env db w1 r1 s) = Inr (st, w', r', s')"
    using assms(2) unfolding DoTransaction_def by (auto simp: bindR_eq_Inr_iff)
  show ?thesis unfolding b using t assms(1)
    by (cases op) (auto dest: TransactionRead_succeeds TransactionScan_succeeds TransactionUpdate_succeeds
        TransactionInsert_succeeds TransactionReadModifyWrite_succeeds)
qed

lemma DoInsert_succeeds:
  "inv s \<Longrightarrow> DoInsert env db w r s = Inr (b, w', r', s') \<Longrightarrow> b"
  by (auto simp: DoInsert_def bindR_eq_Inr_iff dest: insert_status)

lemma loop_body_succeeds:
  assumes "inv (sh_db sh)" "loop_body env db ld oks his sh = Inr (oks', his', sh')"
  shows "oks' = oks + 1"
  using assms by (auto simp: loop_body_def client_op_def Let_def bindR_eq_Inr_iff split: if_splits
      dest: DoTransaction_succeeds DoInsert_succeeds)

lemma thread_step_all_ok:
  assumes "all_ok (nat k) t" "inv (sh_db sh)" "thread_step env gp db k ld t sh = Inr (t', sh')"
  shows "all_ok (nat k) t'"
proof (cases "t_pc t")
  case (Running m)
  then show ?thesis using assms
    by (cases m) (auto simp: thread_step_def all_ok_def bindR_eq_Inr_iff dest: loop_body_succeeds)
qed (use assms in \<open>auto simp: thread_step_def all_ok_def bindR_eq_Inr_iff\<close>)

lemma run_threads_all_ok:
  assumes name: "\<And>s. inv s \<Longrightarrow> db_getName db s = nm" and k: "k < 2 ^ 53"
    and "\<forall>t\<in>set ts. thread_ok nm (nat k) t \<and> all_ok (nat k) t" "sh_ok env inv sh"
    and "run_threads env gp db k ld sched ts sh = Inr (ts', sh')"
  shows "\<forall>t\<in>set ts'. all_ok (nat k) t"
  using assms(3-5)
proof (induction sched arbitrary: ts sh)
  case (Cons j sched)
  show ?case
  proof (cases "j < length ts")
    case True
    then have j: "thread_ok nm (nat k) (ts ! j)" "all_ok (nat k) (ts ! j)" using Cons.prems(1) by auto
    obtain t' sh1 where 1: "thread_step env gp db k ld (ts ! j) sh = Inr (t', sh1)" "thread_ok nm (nat k) t'"
      "sh_ok env inv sh1" using thread_step_ok [OF name j(1) Cons.prems(2) k, of gp ld] by blast
    have "all_ok (nat k) t'" using thread_step_all_ok [OF j(2) _ 1(1)] Cons.prems(2) by (simp add: sh_ok_def)
    then have "\<forall>t\<in>set (ts[j := t']). thread_ok nm (nat k) t \<and> all_ok (nat k) t"
      using Cons.prems(1) 1(2) set_update_subset_insert [of ts j t'] by blast
    from Cons.IH [OF this 1(3)] show ?thesis using Cons.prems(3) True 1(1) by simp
  next
    case False
    then show ?thesis using Cons.IH [OF Cons.prems(1,2)] Cons.prems(3) by simp
  qed
qed simp

lemma run_phase_sum:
  assumes name: "\<And>s. inv s \<Longrightarrow> db_getName db s = nm" and sh: "sh_ok env inv sh"
    and n: "0 < n" and tot: "0 \<le> tot" "tot < 2 ^ 31"
    and run: "run_phase env gp db ld nm n tot sched (Some b) sh = Inr (rep, f, sh')"
  shows "rep_sum rep = n * (tot div n)"
proof -
  let ?k = "tot div n" and ?ts = "replicate (nat n) (new_thread nm)" and ?sh = "sh\<lparr>sh_clk := stl (sh_clk sh)\<rparr>"
  obtain ts sh1 where ts: "run_threads env gp db ?k ld (sched @ finishing (nat n) ?k) ?ts ?sh = Inr (ts, sh1)"
    and sum: "rep_sum rep = sum_list (map t_oks ts)"
    using run n by (auto simp: run_phase_def Let_def bindR_eq_Inr_iff sdiv_nonneg [OF tot(1) n])
  have "?k \<le> tot" using n tot(1) zdiv_mono2 [of tot 1 n] by simp
  then have k: "?k < 2 ^ 53" using tot(2) by simp
  have sh': "sh_ok env inv ?sh" using sh steady_stl by (simp add: sh_ok_def)
  have ts0: "\<forall>t\<in>set ?ts. thread_ok nm (nat ?k) t" using new_thread_ok by auto
  then have "\<forall>t\<in>set ?ts. thread_ok nm (nat ?k) t \<and> all_ok (nat ?k) t" by (auto simp: all_ok_def new_thread_def)
  from run_threads_all_ok [OF name k this sh' ts] have ok: "\<forall>t\<in>set ts. all_ok (nat ?k) t" .
  have fair: "\<forall>i<length ?ts. nat ?k + 2 \<le> count_list (sched @ finishing (nat n) ?k) i"
    by (simp add: finishing_count)
  have closed: "\<forall>t\<in>set ts. t_pc t = Closed" "length ts = nat n"
    using run_threads_finish [OF name k ts0 sh' fair, of gp ld] ts by auto
  have "0 \<le> ?k" using n tot(1) by (simp add: pos_imp_zdiv_nonneg_iff)
  then have "\<forall>t\<in>set ts. t_oks t = ?k" using ok closed(1) by (auto simp: all_ok_def)
  then have "map t_oks ts = replicate (length ts) ?k" by (simp add: map_replicate_const [symmetric])
  then show ?thesis using sum closed(2) n by (simp add: sum_list_replicate)
qed

end

section \<open>A phase\<close>

lemma run_phase_report:
  "run_phase env gp db ld dbname n tot sched f sh = Inr (rep, f', sh') \<Longrightarrow> rep_loading rep = ld \<and> rep_threads rep = n"
  by (auto simp: run_phase_def Let_def bindR_eq_Inr_iff)

lemma object_phase:
  assumes "kv_law RL rok rmp rrest" "kv_law LL lok lmp lrest"
    and "sh_ok env (obj_inv rok lok nm) sh" "0 < n" "0 \<le> tot" "tot < 2 ^ 31"
  shows "\<exists>rep sh' xs. run_phase env gp (object_ops RL LL) ld nm n tot sched (Some b) sh = Inr (rep, None, sh') \<and>
           ready env (sh_wl sh') (sh_rnd sh') \<and> rep_loading rep = ld \<and> rep_threads rep = n \<and>
           rep_sum rep = n * (tot div n) \<and> hist_repr (rep_his rep) xs \<and> int (length xs) = n * (tot div n)"
proof -
  have "\<exists>rep sh' xs. run_phase env gp (object_ops RL LL) ld nm n tot sched (Some b) sh = Inr (rep, None, sh') \<and>
      ready env (sh_wl sh') (sh_rnd sh') \<and> 0 \<le> rep_sum rep \<and> rep_sum rep \<le> n * (tot div n) \<and>
      hist_repr (rep_his rep) xs \<and> int (length xs) = n * (tot div n)"
    by (rule db_contract.run_phase_ok [OF object_contract [OF assms(1,2)] obj_inv_name assms(3-6)])
  moreover have "rep_sum rep = n * (tot div n)"
    if "run_phase env gp (object_ops RL LL) ld nm n tot sched (Some b) sh = Inr (rep, None, sh')" for rep sh'
    by (rule db_success.run_phase_sum [OF object_success [OF assms(1,2)] obj_inv_name assms(3-6) that])
  ultimately show ?thesis using run_phase_report by blast
qed

section \<open>Properties\<close>

lemma untimed_run_succeeds:
  assumes "db_success db I" "ready env w r" "I s"
  shows "\<exists>w' r' s'. untimed_run env db ld n w r s = Inr (replicate n True, w', r', s') \<and> ready env w' r' \<and> I s'"
  using assms(2,3)
proof (induction n arbitrary: w r s)
  case (Suc n)
  have c: "db_contract db I" using assms(1) by (rule db_success.axioms(1))
  obtain b w1 r1 s1 where 1: "client_op env db ld w r s = Inr (b, w1, r1, s1)" "ready env w1 r1" "I s1"
    using db_contract.client_op_step [OF c Suc.prems] by blast
  then have b using Suc.prems(2) db_success.DoTransaction_succeeds [OF assms(1)] db_success.DoInsert_succeeds [OF assms(1)]
    by (auto simp: client_op_def split: if_splits)
  then show ?case using 1 Suc.IH [OF 1(2,3)] by auto
qed simp

text \<open>
  C11. A client thread measures its operations without disturbing them. DelegateClient, and the
  thread of a phase that is given all its steps, do exactly what the operations do without timer,
  counter and histogram: the same errors, the same final workload, random source and database,
  which was opened before the first operation and is closed after the last one. The number
  returned is that of the operations that gave true, and the histogram represents the latency of
  every operation, the time between the two readings of the clock around it, each exactly once.
  The clock readings are at most \<open>2 ^ 53\<close> nanoseconds apart.
\<close>

theorem client_thread_measures:
  assumes "steady (sh_clk sh)" "nat k \<le> 2 ^ 53"
  shows "\<exists>H. hist_repr H (rev (map (latency (sh_clk sh)) [0..<nat k])) \<and>
    DelegateClient env gp db k ld (Clear h) perf sh =
      bindR (client_spec env gp db (nat k) ld perf sh) (\<lambda>(oks, perf, sh). Inr (oks, H, perf, sh)) \<and>
    run_threads env gp db k ld (replicate (nat k + 2) 0)
        [\<lparr>t_pc = Not_started, t_oks = 0, t_his = Clear h, t_perf = perf\<rparr>] sh =
      bindR (client_spec env gp db (nat k) ld perf sh) (\<lambda>(oks, perf, sh).
        Inr ([\<lparr>t_pc = Closed, t_oks = oks, t_his = H, t_perf = perf\<rparr>], sh))"
proof -
  obtain H where H: "hist_repr H (rev (map (latency (sh_clk sh)) [0..<nat k]) @ [])"
    "\<And>oks w r s. delegate_loop env db ld (nat k) oks (Clear h) \<lparr>sh_clk = sh_clk sh, sh_wl = w, sh_rnd = r, sh_db = s\<rparr> =
       bindR (untimed_run env db ld (nat k) w r s) (\<lambda>(bs, w, r, s).
         Inr (oks + int (count_list bs True), H, \<lparr>sh_clk = sdrop (2 * nat k) (sh_clk sh), sh_wl = w, sh_rnd = r, sh_db = s\<rparr>))"
    using delegate_loop_measures [OF hist_repr_Clear [of h] _ assms(1), of "nat k" env db ld] assms(2) by auto
  have split: "sh\<lparr>sh_db := s\<rparr> = \<lparr>sh_clk = sh_clk sh, sh_wl = sh_wl sh, sh_rnd = sh_rnd sh, sh_db = s\<rparr>" for s by simp
  have "DelegateClient env gp db k ld (Clear h) perf sh =
      bindR (client_spec env gp db (nat k) ld perf sh) (\<lambda>(oks, perf, sh). Inr (oks, H, perf, sh))"
    unfolding DelegateClient_def client_spec_def split H(2) by (auto simp: bindR_def split: sum.splits)
  then show ?thesis using H(1) unfolding DelegateClient_is_one_thread
    by (intro exI [of _ H]) (auto simp: bindR_def split: sum.splits)
qed

definition ticking_shared :: "basic_db shared" where
  "ticking_shared = \<lparr>sh_clk = siterate ((+) 1500) 0, sh_wl = update_workload, sh_rnd = sample_random, sh_db = \<lparr>basic_cout = []\<rparr>\<rparr>"

theorem client_thread_measures_witness:
  "\<exists>H sh'. hist_repr H [us_value 1500, us_value 1500] \<and>
     DelegateClient sample_env (\<lambda>_. perf_Reset) basic_ops 2 False (Clear new_histogram) None ticking_shared = Inr (2, H, None, sh')"
proof -
  have "((+) 1500 ^^ i) x = 1500 * int i + x" for i and x :: int by (induction i) simp_all
  then have tick: "snth (sh_clk ticking_shared) (Suc i) - snth (sh_clk ticking_shared) i = 1500" for i
    by (simp add: ticking_shared_def snth_siterate)
  then have s: "steady (sh_clk ticking_shared)" by (simp add: steady_def)
  have l: "latency (sh_clk ticking_shared) i = us_value 1500" for i using tick [of "2 * i"] by (simp add: latency_def)
  have "nat 2 \<le> 2 ^ 53" by simp
  from client_thread_measures [OF s this, of sample_env "\<lambda>_. perf_Reset" basic_ops False new_histogram None]
  obtain H where H: "hist_repr H (rev (map (latency (sh_clk ticking_shared)) [0..<nat 2]))"
    "DelegateClient sample_env (\<lambda>_. perf_Reset) basic_ops 2 False (Clear new_histogram) None ticking_shared =
       bindR (client_spec sample_env (\<lambda>_. perf_Reset) basic_ops (nat 2) False None ticking_shared) (\<lambda>(oks, perf, sh). Inr (oks, H, perf, sh))"
    by blast
  have "map (latency (sh_clk ticking_shared)) [0..<nat 2] = [us_value 1500, us_value 1500]" by (simp add: l upt_rec)
  moreover obtain sh' where "client_spec sample_env (\<lambda>_. perf_Reset) basic_ops (nat 2) False None ticking_shared = Inr (2, None, sh')"
  proof -
    obtain s1 where s1: "db_Init basic_ops (sh_db ticking_shared) = Inr s1" using basic_contract.init_ok by blast
    obtain w r s2 where u: "untimed_run sample_env basic_ops False 2 update_workload sample_random s1 = Inr ([True, True], w, r, s2)"
      using untimed_run_succeeds [OF basic_success.db_success_axioms update_workload_ready, where s = s1 and ld = False and n = 2]
      by (auto simp: numeral_2_eq_2)
    obtain s3 where s3: "db_Close basic_ops s2 = Inr s3" using basic_contract.close_ok by blast
    show ?thesis using that s1 u s3
      by (simp add: client_spec_def ticking_shared_def copy_perf_def basic_ops_def)
  qed
  ultimately show ?thesis using H by auto
qed

text \<open>
  C4. Every phase ends, under every schedule of its threads: with at least one thread, a workload
  that is ready, a database object in its invariant over engines that keep their laws and a clock
  whose readings are at most \<open>2 ^ 53\<close> nanoseconds apart, the phase returns its report, no assertion
  fails and no null pointer is followed; the merged histogram represents exactly one sample per
  operation, the number of threads times the truncated share of each, so the remainder of the
  division is never executed; and every executed operation is counted as a success, also the
  reads of records that do not exist.
\<close>

theorem phase_completes:
  assumes "kv_law RL rok rmp rrest" "kv_law LL lok lmp lrest"
    and "sh_ok env (obj_inv rok lok nm) sh" "0 < n" "0 \<le> tot" "tot < 2 ^ 31"
  shows "\<exists>rep sh' xs. run_phase env gp (object_ops RL LL) ld nm n tot sched (Some b) sh = Inr (rep, None, sh') \<and>
           ready env (sh_wl sh') (sh_rnd sh') \<and> rep_sum rep = n * (tot div n) \<and>
           hist_repr (rep_his rep) xs \<and> int (length xs) = n * (tot div n)"
  using object_phase [OF assms, where gp = gp and ld = ld and sched = sched and b = b] by blast

definition sample_shared :: "(kvs, kvs) db_object shared" where
  "sample_shared = \<lparr>sh_clk = sconst 0, sh_wl = update_workload, sh_rnd = sample_random,
     sh_db = Level_obj (fresh_engine ''leveldb'')\<rparr>"

theorem phase_completes_witness:
  "\<exists>rep sh' xs. run_phase sample_env (\<lambda>_. perf_Reset)
      (object_ops (mem_lib initial_rocks_options) (mem_lib initial_level_options)) False ''leveldb'' 3 100
      [2, 0, 0, 1, 2, 1] (Some False) sample_shared = Inr (rep, None, sh') \<and>
     rep_sum rep = 99 \<and> hist_repr (rep_his rep) xs \<and> length xs = 99"
proof -
  have "steady (sconst 0)" by (simp add: steady_def)
  then have ok: "sh_ok sample_env (obj_inv mem_ok mem_ok ''leveldb'') sample_shared"
    using update_workload_ready by (simp add: sh_ok_def sample_shared_def fresh_engine_def mem_ok_def)
  have "(0::int) < 3" "(0::int) \<le> 100" "(100::int) < 2 ^ 31" by simp_all
  from phase_completes [OF mem_lib_law [of initial_rocks_options] mem_lib_law [of initial_level_options] ok this,
      of "\<lambda>_. perf_Reset" False "[2, 0, 0, 1, 2, 1]" False]
  obtain rep sh' xs where "run_phase sample_env (\<lambda>_. perf_Reset)
      (object_ops (mem_lib initial_rocks_options) (mem_lib initial_level_options)) False ''leveldb'' 3 100
      [2, 0, 0, 1, 2, 1] (Some False) sample_shared = Inr (rep, None, sh')"
    "rep_sum rep = 3 * (100 div 3)" "hist_repr (rep_his rep) xs" "int (length xs) = 3 * (100 div 3)" by blast
  moreover have "(3::int) * (100 div 3) = 99" by simp
  ultimately show ?thesis by (intro exI [of _ rep] exI [of _ sh'] exI [of _ xs]) simp
qed

end
