(* ===== verification/Load_Phase.thy ===== *)
theory Load_Phase
  imports Client DB_Factory
begin

text \<open>
  The load phase with a finer interleaving than the one of the theory Ycsbc: in DoInsert a thread
  first draws a key from the shared counter (an atomic increment) and later builds its values and
  inserts them, and any steps of other threads may happen in between. A step relation describes
  all interleavings; the history of the keys drawn and inserted is kept in the state.
\<close>

section \<open>The step relation\<close>

text \<open>Where a thread is: so many insertions left, or in one of them with its key drawn.\<close>

datatype lpc = Idle nat | Drawn nat string

record 's load_state =
  ls_wl :: workload
  ls_rnd :: random
  ls_db :: 's
  ls_pcs :: "lpc list"
  ls_drawn :: "string list"
  ls_inserted :: "string list"

inductive load_step :: "cxx_env \<Rightarrow> 's db_ops \<Rightarrow> 's load_state \<Rightarrow> 's load_state \<Rightarrow> bool" for env db where
  draw: "\<lbrakk>i < length (ls_pcs st); ls_pcs st ! i = Idle (Suc m);
          NextSequenceKey env (ls_wl st) (ls_rnd st) = Inr (key, w, r)\<rbrakk> \<Longrightarrow>
    load_step env db st (st\<lparr>ls_wl := w, ls_rnd := r, ls_pcs := (ls_pcs st)[i := Drawn m key],
                            ls_drawn := ls_drawn st @ [key]\<rparr>)"
| insert: "\<lbrakk>i < length (ls_pcs st); ls_pcs st ! i = Drawn m key;
            BuildValues env (ls_wl st) (ls_rnd st) = Inr (vs, w, r);
            db_Insert db (ls_db st) (NextTable w) key vs = Inr (status, s)\<rbrakk> \<Longrightarrow>
    load_step env db st (st\<lparr>ls_wl := w, ls_rnd := r, ls_db := s, ls_pcs := (ls_pcs st)[i := Idle m],
                            ls_inserted := ls_inserted st @ [key]\<rparr>)"

inductive_cases load_stepE: "load_step env db st st'"

definition load_start :: "workload \<Rightarrow> random \<Rightarrow> 's \<Rightarrow> nat list \<Rightarrow> 's load_state" where
  "load_start w r s ns = \<lparr>ls_wl = w, ls_rnd = r, ls_db = s, ls_pcs = map Idle ns, ls_drawn = [], ls_inserted = []\<rparr>"

text \<open>Running one thread through both steps is DoInsert.\<close>

lemma DoInsert_is_two_steps:
  assumes "DoInsert env db (ls_wl st) (ls_rnd st) (ls_db st) = Inr (ok, w, r, s)"
    and "i < length (ls_pcs st)" "ls_pcs st ! i = Idle (Suc m)"
  shows "\<exists>st1 key. load_step env db st st1 \<and> load_step env db st1
           (st\<lparr>ls_drawn := ls_drawn st @ [key], ls_wl := w, ls_rnd := r, ls_db := s,
               ls_pcs := (ls_pcs st)[i := Idle m], ls_inserted := ls_inserted st @ [key]\<rparr>)"
proof -
  obtain key w1 r1 vs status where k: "NextSequenceKey env (ls_wl st) (ls_rnd st) = Inr (key, w1, r1)"
    and v: "BuildValues env w1 r1 = Inr (vs, w, r)" and i: "db_Insert db (ls_db st) (NextTable w) key vs = Inr (status, s)"
    using assms(1) by (auto simp: DoInsert_def bindR_eq_Inr_iff)
  let ?st1 = "st\<lparr>ls_wl := w1, ls_rnd := r1, ls_pcs := (ls_pcs st)[i := Drawn m key], ls_drawn := ls_drawn st @ [key]\<rparr>"
  have "load_step env db st ?st1" by (rule draw [OF assms(2,3) k])
  moreover have "load_step env db ?st1 (?st1\<lparr>ls_wl := w, ls_rnd := r, ls_db := s,
      ls_pcs := (ls_pcs ?st1)[i := Idle m], ls_inserted := ls_inserted ?st1 @ [key]\<rparr>)"
    by (rule insert [where vs = vs and status = status]) (use assms(2) v i in simp_all)
  ultimately show ?thesis by (intro exI [of _ ?st1] exI [of _ key]) simp
qed

section \<open>The invariant\<close>

fun left :: "lpc \<Rightarrow> nat" where
  "left (Idle m) = m"
| "left (Drawn m key) = m"

fun pending :: "lpc \<Rightarrow> string multiset" where
  "pending (Idle m) = {#}"
| "pending (Drawn m key) = {#key#}"

definition work :: "'s load_state \<Rightarrow> nat" where
  "work st = sum_list (map (\<lambda>p. 2 * left p + size (pending p)) (ls_pcs st))"

definition nth_key :: "workload \<Rightarrow> u64 \<Rightarrow> nat \<Rightarrow> string" where
  "nth_key w c j = BuildKeyName w (c + of_nat j)"

definition load_inv :: "cxx_env \<Rightarrow> ('s \<Rightarrow> bool) \<Rightarrow> workload \<Rightarrow> u64 \<Rightarrow> nat \<Rightarrow> 's load_state \<Rightarrow> bool" where
  "load_inv env I w0 c n st \<longleftrightarrow>
     ready env (ls_wl st) (ls_rnd st) \<and> wl_static (ls_wl st) = wl_static w0 \<and> I (ls_db st) \<and>
     key_generator (ls_wl st) = Some (Counter_gen \<lparr>counter = c + of_nat (length (ls_drawn st))\<rparr>) \<and>
     ls_drawn st = map (nth_key w0 c) [0..<length (ls_drawn st)] \<and>
     mset (ls_drawn st) = mset (ls_inserted st) + sum_list (map pending (ls_pcs st)) \<and>
     length (ls_drawn st) + sum_list (map left (ls_pcs st)) = n"

lemma sum_list_update_nth:
  "i < length xs \<Longrightarrow> sum_list (xs[i := y]) + xs ! i = sum_list xs + (y :: 'a :: comm_monoid_add)"
proof (induction xs arbitrary: i)
  case (Cons x xs)
  then show ?case by (cases i) (auto simp: ac_simps)
qed simp

lemma map_update_pcs:
  fixes f :: "lpc \<Rightarrow> 'a :: comm_monoid_add"
  assumes "i < length ps"
  shows "sum_list (map f (ps[i := p])) + f (ps ! i) = sum_list (map f ps) + f p"
  using sum_list_update_nth [of i "map f ps" "f p"] assms by (simp add: map_update)

lemma BuildKeyName_static: "wl_static w' = wl_static w \<Longrightarrow> BuildKeyName w' k = BuildKeyName w k"
  by (simp add: wl_static_def BuildKeyName_def)

lemma NextSequenceKey_counter:
  assumes "key_generator w = Some (Counter_gen \<lparr>counter = c\<rparr>)"
  shows "NextSequenceKey env w r = Inr (BuildKeyName w c, w\<lparr>key_generator := Some (Counter_gen \<lparr>counter = c + 1\<rparr>)\<rparr>, r)"
  using assms by (simp add: NextSequenceKey_def deref_Next_def wrap_gen_def Counter_Next_def)

lemma step_work: "load_step env db st st' \<Longrightarrow> work st' < work st"
proof (erule load_stepE)
  fix i m key w r
  assume i: "i < length (ls_pcs st)" "ls_pcs st ! i = Idle (Suc m)"
    and st': "st' = st\<lparr>ls_wl := w, ls_rnd := r, ls_pcs := (ls_pcs st)[i := Drawn m key], ls_drawn := ls_drawn st @ [key]\<rparr>"
  show "work st' < work st"
    using map_update_pcs [OF i(1), of "\<lambda>p. 2 * left p + size (pending p)" "Drawn m key"] i(2)
    by (simp add: work_def st')
next
  fix i m key vs w r status s
  assume i: "i < length (ls_pcs st)" "ls_pcs st ! i = Drawn m key"
    and st': "st' = st\<lparr>ls_wl := w, ls_rnd := r, ls_db := s, ls_pcs := (ls_pcs st)[i := Idle m], ls_inserted := ls_inserted st @ [key]\<rparr>"
  show "work st' < work st"
    using map_update_pcs [OF i(1), of "\<lambda>p. 2 * left p + size (pending p)" "Idle m"] i(2)
    by (simp add: work_def st')
qed

context db_contract
begin

lemma load_inv_step:
  assumes "load_step env db st st'" "load_inv env inv w0 c n st"
  shows "load_inv env inv w0 c n st'"
  using assms(1)
proof (rule load_stepE)
  fix i m key w r
  assume i: "i < length (ls_pcs st)" "ls_pcs st ! i = Idle (Suc m)"
    and k: "NextSequenceKey env (ls_wl st) (ls_rnd st) = Inr (key, w, r)"
    and st': "st' = st\<lparr>ls_wl := w, ls_rnd := r, ls_pcs := (ls_pcs st)[i := Drawn m key], ls_drawn := ls_drawn st @ [key]\<rparr>"
  let ?d = "length (ls_drawn st)"
  have I: "ready env (ls_wl st) (ls_rnd st)" "wl_static (ls_wl st) = wl_static w0" "inv (ls_db st)"
    "key_generator (ls_wl st) = Some (Counter_gen \<lparr>counter = c + of_nat ?d\<rparr>)"
    "ls_drawn st = map (nth_key w0 c) [0..<?d]"
    "mset (ls_drawn st) = mset (ls_inserted st) + sum_list (map pending (ls_pcs st))"
    "?d + sum_list (map left (ls_pcs st)) = n" using assms(2) unfolding load_inv_def by blast+
  have key: "key = nth_key w0 c ?d" "w = (ls_wl st)\<lparr>key_generator := Some (Counter_gen \<lparr>counter = c + of_nat ?d + 1\<rparr>)\<rparr>"
    "r = ls_rnd st"
    using k NextSequenceKey_counter [OF I(4), of env "ls_rnd st"] BuildKeyName_static [OF I(2)]
    by (simp_all add: nth_key_def)
  have "ready env w r \<and> wl_static w = wl_static (ls_wl st)"
    using ready_NextSequenceKey [OF I(1)] k by auto
  moreover have "sum_list (map pending ((ls_pcs st)[i := Drawn m key])) = sum_list (map pending (ls_pcs st)) + {#key#}"
    using map_update_pcs [OF i(1), of pending "Drawn m key"] i(2) by simp
  moreover have "sum_list (map left ((ls_pcs st)[i := Drawn m key])) + 1 = sum_list (map left (ls_pcs st))"
    using map_update_pcs [OF i(1), of left "Drawn m key"] i(2) by simp
  moreover have "key_generator w = Some (Counter_gen \<lparr>counter = c + of_nat (Suc ?d)\<rparr>)"
    using key(2) by (simp add: ac_simps)
  moreover have "ls_drawn st @ [key] = map (nth_key w0 c) [0..<Suc ?d]" using I(5) key(1) by (metis list.simps(8,9) map_append upt_Suc_append zero_le)
  ultimately show ?thesis using I by (simp add: load_inv_def st' key(1))
next
  fix i m key vs w r status s
  assume i: "i < length (ls_pcs st)" "ls_pcs st ! i = Drawn m key"
    and v: "BuildValues env (ls_wl st) (ls_rnd st) = Inr (vs, w, r)"
    and ins: "db_Insert db (ls_db st) (NextTable w) key vs = Inr (status, s)"
    and st': "st' = st\<lparr>ls_wl := w, ls_rnd := r, ls_db := s, ls_pcs := (ls_pcs st)[i := Idle m], ls_inserted := ls_inserted st @ [key]\<rparr>"
  have I: "ready env (ls_wl st) (ls_rnd st)" "inv (ls_db st)" using assms(2) unfolding load_inv_def by blast+
  have "ready env w r \<and> wl_static w = wl_static (ls_wl st)" using ready_BuildValues [OF I(1)] v by auto
  moreover have "key_generator w = key_generator (ls_wl st)" using frame_BuildValues [OF v] by simp
  moreover have "inv s" using insert_ok [OF I(2), of "NextTable w" key vs] ins by auto
  moreover have "sum_list (map pending ((ls_pcs st)[i := Idle m])) + {#key#} = sum_list (map pending (ls_pcs st))"
    using map_update_pcs [OF i(1), of pending "Idle m"] i(2) by simp
  moreover have "sum_list (map left ((ls_pcs st)[i := Idle m])) = sum_list (map left (ls_pcs st))"
    using map_update_pcs [OF i(1), of left "Idle m"] i(2) by simp
  ultimately show ?thesis using assms(2) by (auto simp: load_inv_def st')
qed

text \<open>No interleaving gets stuck before all the work is done.\<close>

lemma load_progress:
  assumes "load_inv env inv w0 c n st" "work st \<noteq> 0"
  shows "\<exists>st'. load_step env db st st'"
proof -
  have I: "ready env (ls_wl st) (ls_rnd st)" "inv (ls_db st)" using assms(1) unfolding load_inv_def by blast+
  obtain p where "p \<in> set (ls_pcs st)" "2 * left p + size (pending p) \<noteq> 0"
    using assms(2) by (auto simp: work_def)
  then obtain i where i: "i < length (ls_pcs st)" "2 * left (ls_pcs st ! i) + size (pending (ls_pcs st ! i)) \<noteq> 0"
    by (metis in_set_conv_nth)
  show ?thesis
  proof (cases "ls_pcs st ! i")
    case (Idle m)
    then obtain m' where "ls_pcs st ! i = Idle (Suc m')" using i(2) by (cases m) auto
    then show ?thesis using draw [OF i(1)] ready_NextSequenceKey [OF I(1)] by blast
  next
    case (Drawn m key)
    obtain vs w r where v: "BuildValues env (ls_wl st) (ls_rnd st) = Inr (vs, w, r)"
      using ready_BuildValues [OF I(1)] by blast
    obtain status s where "db_Insert db (ls_db st) (NextTable w) key vs = Inr (status, s)"
      using insert_ok [OF I(2), of "NextTable w" key vs] by blast
    then show ?thesis using insert [OF i(1) Drawn v] by blast
  qed
qed

lemma load_start_inv:
  assumes "ready env w r" "inv s" "key_generator w = Some (Counter_gen \<lparr>counter = c\<rparr>)"
  shows "load_inv env inv w c (sum_list ns) (load_start w r s ns)"
proof -
  have "map pending (map Idle ns) = map (\<lambda>_. {#}) ns" "map left (map Idle ns) = ns"
    by (simp_all add: o_def)
  then show ?thesis using assms by (simp add: load_inv_def load_start_def o_def)
qed

lemma load_reachable:
  assumes "(load_step env db)\<^sup>*\<^sup>* (load_start w r s ns) st"
    and "ready env w r" "inv s" "key_generator w = Some (Counter_gen \<lparr>counter = c\<rparr>)"
  shows "load_inv env inv w c (sum_list ns) st"
  using assms(1) by (induction rule: rtranclp_induct) (simp_all add: load_start_inv assms(2-4) load_inv_step)

lemma work_done:
  assumes "load_inv env inv w0 c n st" "work st = 0"
  shows "mset (ls_inserted st) = mset (map (nth_key w0 c) [0..<n])"
proof -
  have z: "left p = 0" "pending p = {#}" if "p \<in> set (ls_pcs st)" for p
    using assms(2) that by (auto simp: work_def)
  then have "sum_list (map left (ls_pcs st)) = 0" "sum_list (map pending (ls_pcs st)) = {#}"
    by (simp_all add: z cong: map_cong)
  then show ?thesis using assms(1) unfolding load_inv_def by (metis add.right_neutral)
qed

end

section \<open>Every interleaving\<close>

text \<open>
  C3. Loading with any number of threads, interleaved in any way between drawing a key and
  inserting its record: every step reduces the work left, no reachable state is stuck before the
  work is done, and when it is done the keys inserted are exactly those of the first numbers from
  the start of the insertion, as many as the threads were given, each once. No key is lost or
  loaded twice, whatever the threads do.
\<close>

theorem load_interleavings:
  assumes "kv_law RL rok rmp rrest" "kv_law LL lok lmp lrest" "obj_inv rok lok nm s" "ready env w r"
    and "key_generator w = Some (Counter_gen \<lparr>counter = c\<rparr>)"
    and "(load_step env (object_ops RL LL))\<^sup>*\<^sup>* (load_start w r s ns) st"
  shows "(if work st = 0 then mset (ls_inserted st) = mset (map (nth_key w c) [0..<sum_list ns])
          else \<exists>st'. load_step env (object_ops RL LL) st st') \<and>
         (\<forall>st'. load_step env (object_ops RL LL) st st' \<longrightarrow> work st' < work st)"
proof -
  note contract = object_contract [OF assms(1,2), of nm]
  have inv: "load_inv env (obj_inv rok lok nm) w c (sum_list ns) st"
    by (rule db_contract.load_reachable [OF contract assms(6,4,3,5)])
  show ?thesis
  proof
    show "if work st = 0 then mset (ls_inserted st) = mset (map (nth_key w c) [0..<sum_list ns])
          else \<exists>st'. load_step env (object_ops RL LL) st st'"
      using db_contract.work_done [OF contract inv] db_contract.load_progress [OF contract inv] by simp
    show "\<forall>st'. load_step env (object_ops RL LL) st st' \<longrightarrow> work st' < work st" using step_work by blast
  qed
qed

theorem load_interleavings_witness:
  "\<exists>st'. load_step sample_env (object_ops (mem_lib initial_rocks_options) (mem_lib initial_level_options))
     (load_start update_workload sample_random (Basic_obj \<lparr>basic_cout = []\<rparr>) [2, 1]) st'"
proof -
  let ?st = "load_start update_workload sample_random (Basic_obj \<lparr>basic_cout = []\<rparr>) [2, 1] :: (kvs, kvs) db_object load_state"
  have k: "key_generator update_workload = Some (Counter_gen \<lparr>counter = 0\<rparr>)"
    by (simp add: update_workload_def sample_workload_simps CounterGenerator_def)
  have o: "obj_inv mem_ok mem_ok ''basic'' (Basic_obj \<lparr>basic_cout = []\<rparr>)" by simp
  have "work ?st = 6" by (simp add: work_def load_start_def)
  then show ?thesis
    using load_interleavings [OF mem_lib_law [of initial_rocks_options] mem_lib_law [of initial_level_options] o
        update_workload_ready k rtranclp.rtrancl_refl, of "[2, 1]"] by simp
qed

end
