(* ===== verification/End_To_End.thy ===== *)
theory End_To_End
  imports Threads Load_Phase Hashtable_DB
begin

text \<open>
  The components together: a load of the hash table database by DelegateClient followed by reads.
  The workload names the keys, the client inserts them, the database stores them, and the keys
  the transactions choose are among them.
\<close>

section \<open>Names without NUL\<close>

text \<open>The database handles C strings, so names matter up to their first NUL; these have none.\<close>

lemma of_char_nonzero: "c \<noteq> CHR 0x00 \<Longrightarrow> of_char c \<noteq> (0::nat)"
proof
  assume "c \<noteq> CHR 0x00" "of_char c = (0::nat)"
  then show False using char_of_char [of c, where ?'a = nat] by (simp add: char_of_def)
qed

lemma c_str_id:
  assumes "CHR 0x00 \<notin> set s"
  shows "c_str s = s"
  unfolding c_str_def takeWhile_eq_all_conv
proof
  fix c assume "c \<in> set s"
  then have "c \<noteq> CHR 0x00" using assms by metis
  then show "of_char c \<noteq> (0::nat)" by (rule of_char_nonzero)
qed

lemma digits10_no_NUL: "CHR 0x00 \<notin> set (digits10 n)"
  using digits10_isdigit [of n] by (auto simp: isdigit_def)

lemma BuildKeyName_no_NUL: "CHR 0x00 \<notin> set (BuildKeyName w k)"
  using digits10_no_NUL by (auto simp: BuildKeyName_def to_string_u64_def Let_def)

lemma field_name_no_NUL: "CHR 0x00 \<notin> set (''field'' @ to_string_int (int i))"
  using digits10_no_NUL by (auto simp: to_string_int_def)

lemma field_names_distinct:
  assumes "map fst kvs = map (\<lambda>i. ''field'' @ to_string_int (int i)) [0..<n]"
  shows "distinct (map fst (c_pairs kvs))"
proof -
  have "map fst (c_pairs kvs) = map c_str (map fst kvs)" by (induction kvs) (auto simp: c_pairs_def)
  also have "\<dots> = map (\<lambda>i. ''field'' @ to_string_int (int i)) [0..<n]"
    unfolding assms map_map by (rule map_cong) (simp_all only: o_def c_str_id [OF field_name_no_NUL])
  finally have *: "map fst (c_pairs kvs) = map (\<lambda>i. ''field'' @ to_string_int (int i)) [0..<n]" .
  have "inj_on (\<lambda>i. ''field'' @ to_string_int (int i)) {0..<n}"
    by (rule inj_onI) (simp add: to_string_int_def digits10_inj)
  then show ?thesis unfolding * by (simp add: distinct_map)
qed

section \<open>Loading\<close>

text \<open>The records a load of j keys leaves, by their indices in the key table.\<close>

definition loaded :: "workload \<Rightarrow> u64 \<Rightarrow> nat \<Rightarrow> string set" where
  "loaded w c j = (\<lambda>i. table_name w @ nth_key w c i) ` {0..<j}"

lemma key_index_id:
  "CHR 0x00 \<notin> set (table_name w) \<Longrightarrow> c_str (table_name w @ BuildKeyName w k) = table_name w @ BuildKeyName w k"
  using BuildKeyName_no_NUL by (intro c_str_id) auto

lemma Insert_keeps_name:
  "HashtableDB_Insert C d tab key vs = Inr (st, d') \<Longrightarrow> hdb_name d' = hdb_name d"
  by (auto simp: HashtableDB_Insert_def write_back_def bindR_eq_Inr_iff split: option.splits)

text \<open>One DoInsert of the load: it succeeds on a key that is not there and adds its record.\<close>

lemma DoInsert_loads:
  assumes "ready env w r" "db_inv s" "key_generator w = Some (Counter_gen \<lparr>counter = k\<rparr>)"
    and "CHR 0x00 \<notin> set (table_name w)" "table_name w @ BuildKeyName w k \<notin> dom (db_abs s)"
  shows "\<exists>w' r' s'. DoInsert env (LockStlDB_ops ord) w r s = Inr (True, w', r', s') \<and> ready env w' r' \<and>
           wl_static w' = wl_static w \<and> key_generator w' = Some (Counter_gen \<lparr>counter = k + 1\<rparr>) \<and> db_inv s' \<and>
           hdb_name s' = hdb_name s \<and> dom (db_abs s') = insert (table_name w @ BuildKeyName w k) (dom (db_abs s))"
proof -
  let ?w1 = "w\<lparr>key_generator := Some (Counter_gen \<lparr>counter = k + 1\<rparr>)\<rparr>"
  let ?idx = "table_name w @ BuildKeyName w k"
  have k: "NextSequenceKey env w r = Inr (BuildKeyName w k, ?w1, r)" by (rule NextSequenceKey_counter [OF assms(3)])
  have r1: "ready env ?w1 r" using ready_NextSequenceKey [OF assms(1)] k by auto
  obtain kvs w2 r2 where v: "BuildValues env ?w1 r = Inr (kvs, w2, r2)"
    "map fst kvs = map (\<lambda>i. ''field'' @ to_string_int (int i)) [0..<nat (field_count ?w1)]"
    using BuildValues_step [OF ready_inv [OF r1]] by blast
  have v': "ready env w2 r2" "wl_static w2 = wl_static ?w1" using ready_BuildValues [OF r1] v(1) by auto
  have gen: "key_generator w2 = Some (Counter_gen \<lparr>counter = k + 1\<rparr>)" using frame_BuildValues [OF v(1)] by simp
  have static: "wl_static w2 = wl_static w" "NextTable w2 = table_name w"
    using v'(2) by (simp_all add: wl_static_def NextTable_def)
  have "insert_spec Map.empty (c_pairs kvs) = (True, map_of (c_pairs kvs))"
    using insert_spec_fresh [OF field_names_distinct [OF v(2)], of Map.empty] by simp
  moreover have "db_abs s ?idx = None" using assms(5) by blast
  ultimately have "abs_insert (db_abs s) ?idx kvs = (kOK, (db_abs s)(?idx \<mapsto> map_of (c_pairs kvs)))"
    by (simp add: abs_insert_def)
  then obtain s' where s': "HashtableDB_Insert (LockStlDB_class ord) s (table_name w) (BuildKeyName w k) kvs = Inr (kOK, s')"
    "db_inv s'" "db_abs s' = (db_abs s)(?idx \<mapsto> map_of (c_pairs kvs))"
    using lock_db.Insert_refines [OF assms(2), of ord "table_name w" "BuildKeyName w k" kvs]
    unfolding key_index_id [OF assms(4)] by auto
  have "dom (db_abs s') = insert ?idx (dom (db_abs s))" unfolding s'(3) dom_fun_upd by simp
  then show ?thesis using k v v' gen static s' Insert_keeps_name [OF s'(1)] by (simp add: DoInsert_def LockStlDB_ops_def hashtable_ops_def)
qed

lemma loaded_Suc: "loaded w c (Suc j) = insert (table_name w @ BuildKeyName w (c + of_nat j)) (loaded w c j)"
  by (simp add: loaded_def nth_key_def atLeastLessThanSuc)

text \<open>The loop of DelegateClient after j of its n insertions.\<close>

definition load_ok :: "cxx_env \<Rightarrow> workload \<Rightarrow> u64 \<Rightarrow> nat \<Rightarrow> lock_db shared \<Rightarrow> bool" where
  "load_ok env w c j sh \<longleftrightarrow> ready env (sh_wl sh) (sh_rnd sh) \<and> steady (sh_clk sh) \<and> db_inv (sh_db sh) \<and>
     wl_static (sh_wl sh) = wl_static w \<and> key_generator (sh_wl sh) = Some (Counter_gen \<lparr>counter = c + of_nat j\<rparr>) \<and>
     hdb_name (sh_db sh) = ''hashtable'' \<and> dom (db_abs (sh_db sh)) = loaded w c j"

lemma load_body:
  assumes ok: "load_ok env w c j sh" and tab: "CHR 0x00 \<notin> set (table_name w)"
    and inj: "inj_on (nth_key w c) {0..<n}" "j < n" and his: "hist_repr his xs" "length xs < 2 ^ 53"
  shows "\<exists>his' sh' x. loop_body env (LockStlDB_ops ord) True oks his sh = Inr (oks + 1, his', sh') \<and>
           hist_repr his' (x # xs) \<and> load_ok env w c (Suc j) sh'"
proof -
  have L: "ready env (sh_wl sh) (sh_rnd sh)" "steady (sh_clk sh)" "db_inv (sh_db sh)"
    "wl_static (sh_wl sh) = wl_static w" "key_generator (sh_wl sh) = Some (Counter_gen \<lparr>counter = c + of_nat j\<rparr>)"
    "dom (db_abs (sh_db sh)) = loaded w c j" "hdb_name (sh_db sh) = ''hashtable''" using ok unfolding load_ok_def by blast+
  have w: "table_name (sh_wl sh) = table_name w" "BuildKeyName (sh_wl sh) k = BuildKeyName w k" for k
    using L(4) by (simp add: wl_static_def, rule BuildKeyName_static)
  have new: "table_name w @ BuildKeyName w (c + of_nat j) \<notin> loaded w c j"
  proof
    assume "table_name w @ BuildKeyName w (c + of_nat j) \<in> loaded w c j"
    then obtain i where i: "i < j" "nth_key w c i = nth_key w c j"
      by (auto simp: loaded_def nth_key_def)
    from inj_onD [OF inj(1) i(2)] i(1) inj(2) show False by simp
  qed
  obtain w' r' s' where op: "DoInsert env (LockStlDB_ops ord) (sh_wl sh) (sh_rnd sh) (sh_db sh) = Inr (True, w', r', s')"
    "ready env w' r'" "wl_static w' = wl_static (sh_wl sh)" "db_inv s'"
    "key_generator w' = Some (Counter_gen \<lparr>counter = c + of_nat j + 1\<rparr>)"
    "dom (db_abs s') = insert (table_name w @ BuildKeyName w (c + of_nat j)) (dom (db_abs (sh_db sh)))"
    "hdb_name s' = hdb_name (sh_db sh)"
    using DoInsert_loads [OF L(1,3,5), of ord] tab new unfolding w L(6) by blast
  let ?d = "shd (stl (sh_clk sh)) - shd (sh_clk sh)"
  have "End_us (shd (stl (sh_clk sh))) (Start (shd (sh_clk sh)) \<lparr>time_point = 0\<rparr>) = of_rat_d (of_int ?d / 1000)"
    by (rule End_us_Start [OF steady_first [OF L(2)]])
  then have add: "AddFast his (End_us (shd (stl (sh_clk sh))) (Start (shd (sh_clk sh)) \<lparr>time_point = 0\<rparr>)) =
      Inr (Add his (Fin (us_value ?d)))" "hist_repr (Add his (Fin (us_value ?d))) (us_value ?d # xs)"
    using hist_repr_AddFast [OF his steady_first [OF L(2)]] by simp_all
  have "load_ok env w c (Suc j) \<lparr>sh_clk = stl (stl (sh_clk sh)), sh_wl = w', sh_rnd = r', sh_db = s'\<rparr>"
    using op L steady_stl loaded_Suc [of w c j] by (simp add: load_ok_def ac_simps)
  then show ?thesis using op(1) add by (simp add: loop_body_def client_op_def Let_def) blast
qed

lemma load_loop:
  assumes "load_ok env w c j sh" "CHR 0x00 \<notin> set (table_name w)" "inj_on (nth_key w c) {0..<j + m}"
    and "hist_repr his xs" "length xs + m \<le> 2 ^ 53"
  shows "\<exists>his' sh' ys. delegate_loop env (LockStlDB_ops ord) True m oks his sh = Inr (oks + int m, his', sh') \<and>
           load_ok env w c (j + m) sh' \<and> hist_repr his' ys \<and> length ys = length xs + m"
  using assms
proof (induction m arbitrary: j oks his xs sh)
  case (Suc m)
  have lt: "j < j + Suc m" "length xs < 2 ^ 53" using Suc.prems(5) by simp_all
  obtain his1 sh1 x where 1: "loop_body env (LockStlDB_ops ord) True oks his sh = Inr (oks + 1, his1, sh1)"
    "hist_repr his1 (x # xs)" "load_ok env w c (Suc j) sh1"
    using load_body [OF Suc.prems(1-3) lt(1) Suc.prems(4) lt(2)] by blast
  have "inj_on (nth_key w c) {0..<Suc j + m}" "length (x # xs) + m \<le> 2 ^ 53" using Suc.prems(3,5) by simp_all
  from Suc.IH [OF 1(3) Suc.prems(2) this(1) 1(2) this(2), of "oks + 1"] show ?case
    using 1(1) by (auto simp: ac_simps)
qed auto

section \<open>Reading what was loaded\<close>

lemma DelegateClient_loads:
  assumes "ready env w r" "steady clk" "key_generator w = Some (Counter_gen \<lparr>counter = c\<rparr>)"
    and "CHR 0x00 \<notin> set (table_name w)" "inj_on (nth_key w c) {0..<n}" "n \<le> 2 ^ 53"
  shows "\<exists>his sh xs. DelegateClient env gp (LockStlDB_ops ord) (int n) True (Clear new_histogram) perf
             \<lparr>sh_clk = clk, sh_wl = w, sh_rnd = r, sh_db = LockStlDB\<rparr> = Inr (int n, his, perf, sh) \<and>
           hist_repr his xs \<and> length xs = n \<and> load_ok env w c n sh"
proof -
  let ?s = "LockStlDB\<lparr>hdb_name := ''hashtable''\<rparr>"
  let ?sh = "\<lparr>sh_clk = clk, sh_wl = w, sh_rnd = r, sh_db = ?s\<rparr>"
  have "db_inv ?s" using LockStlDB_inv by (simp add: tables_inv_def)
  moreover have "db_abs ?s = (\<lambda>_. None)" using LockStlDB_abs by (simp add: tables_abs_def fun_eq_iff)
  ultimately have ok: "load_ok env w c 0 ?sh"
    using assms(1-3) by (simp add: load_ok_def loaded_def)
  have "inj_on (nth_key w c) {0..<0 + n}" "length ([] :: rat list) + n \<le> 2 ^ 53" using assms(5,6) by simp_all
  from load_loop [OF ok assms(4) this(1) hist_repr_Clear this(2), of ord 0 new_histogram]
  obtain his sh xs where l: "delegate_loop env (LockStlDB_ops ord) True n 0 (Clear new_histogram) ?sh = Inr (int n, his, sh)"
    "load_ok env w c n sh" "hist_repr his xs" "length xs = n" by auto
  have "hdb_name (sh_db sh) = ''hashtable''" using l(2) by (simp add: load_ok_def)
  then have "copy_perf gp (LockStlDB_ops ord) (sh_db sh) perf = Inr perf"
    by (simp add: copy_perf_def LockStlDB_ops_def hashtable_ops_def)
  then show ?thesis using l
    by (auto simp: DelegateClient_def LockStlDB_ops_def hashtable_ops_def LockStlDB_Init_def)
qed

lemma read_loaded:
  assumes "ready env w r" "insert_key_sequence w = \<lparr>counter = of_nat n\<rparr>" "0 < n" "n < 2 ^ 64"
    and "CHR 0x00 \<notin> set (table_name w)" "db_inv s" "dom (db_abs s) = loaded w 0 n"
  shows "\<exists>w' r'. TransactionRead env (LockStlDB_ops ord) w r s = Inr (kOK, w', r', s) \<and>
           ready env w' r' \<and> wl_static w' = wl_static w"
proof -
  obtain key w1 r1 where k: "NextTransactionKey env w r = Inr (key, w1, r1)" "ready env w1 r1" "wl_static w1 = wl_static w"
    using ready_NextTransactionKey [OF assms(1)] by blast
  obtain i where i: "key = BuildKeyName w i" "i \<le> Counter_Last (insert_key_sequence w)"
    using NextTransactionKey_static [OF ready_inv [OF assms(1)] k(1)] by blast
  have "unat (of_nat n - 1 :: u64) < n" using assms(3,4)
    by (simp add: unat_sub_if_size unat_of_nat)
  then have "unat i < n" using i(2) assms(2) by (simp add: Counter_Last_def word_le_nat_alt)
  then have "table_name w @ key \<in> loaded w 0 n"
    unfolding loaded_def nth_key_def i(1) by (intro image_eqI [of _ _ "unat i"]) simp_all
  then obtain rec where rec: "db_abs s (c_str (table_name w @ key)) = Some rec"
    unfolding assms(7) [symmetric] i(1) key_index_id [OF assms(5)] by blast
  have read: "\<exists>res. HashtableDB_Read (LockStlDB_class ord) s (NextTable w) key flds [] = Inr (kOK, res, s)" for flds
    using lock_db.Read_refines(2) [OF assms(6) rec, of ord flds "[]"] by (auto simp: NextTable_def)
  show ?thesis
  proof (cases "read_all_fields w1")
    case True
    then show ?thesis using k read [of None] by (auto simp: TransactionRead_def LockStlDB_ops_def hashtable_ops_def)
  next
    case False
    obtain f w2 r2 where "NextFieldName env w1 r1 = Inr (f, w2, r2)" "ready env w2 r2" "wl_static w2 = wl_static w1"
      using ready_NextFieldName [OF k(2)] by blast
    then show ?thesis using False k read [of "Some (one_field f)"] by (auto simp: TransactionRead_def LockStlDB_ops_def hashtable_ops_def)
  qed
qed

text \<open>
  C1. Loading and reading fit together. DelegateClient, started on an empty hash table database with
  as many insertions as the insert key sequence of the workload counts, inserts all of them with
  success (the count it returns is the number asked for) and records one latency per insertion;
  after it every read transaction, whatever the state of the choosers and the random sources,
  chooses a key that is there and returns kOK, leaving the database as it was. The keys are
  assumed different, as they are for ordered inserts, and the table name free of NUL.
\<close>

theorem load_then_read:
  assumes "ready env w r" "steady clk" "key_generator w = Some (Counter_gen \<lparr>counter = 0\<rparr>)"
    and "insert_key_sequence w = \<lparr>counter = of_nat n\<rparr>" "0 < n" "n \<le> 2 ^ 53"
    and "CHR 0x00 \<notin> set (table_name w)" "inj_on (nth_key w 0) {0..<n}"
  shows "\<exists>his sh xs. DelegateClient env gp (LockStlDB_ops ord) (int n) True (Clear new_histogram) perf
             \<lparr>sh_clk = clk, sh_wl = w, sh_rnd = r, sh_db = LockStlDB\<rparr> = Inr (int n, his, perf, sh) \<and>
           hist_repr his xs \<and> length xs = n \<and> ready env (sh_wl sh) (sh_rnd sh) \<and>
           (\<forall>w1 r1. ready env w1 r1 \<longrightarrow> wl_static w1 = wl_static (sh_wl sh) \<longrightarrow>
              (\<exists>w' r'. TransactionRead env (LockStlDB_ops ord) w1 r1 (sh_db sh) = Inr (kOK, w', r', sh_db sh)))"
proof -
  obtain his sh xs where l: "DelegateClient env gp (LockStlDB_ops ord) (int n) True (Clear new_histogram) perf
      \<lparr>sh_clk = clk, sh_wl = w, sh_rnd = r, sh_db = LockStlDB\<rparr> = Inr (int n, his, perf, sh)"
    "hist_repr his xs" "length xs = n" "load_ok env w 0 n sh"
    using DelegateClient_loads [OF assms(1-3,7,8,6)] by blast
  have "\<exists>w' r'. TransactionRead env (LockStlDB_ops ord) w1 r1 (sh_db sh) = Inr (kOK, w', r', sh_db sh)"
    if w1: "ready env w1 r1" "wl_static w1 = wl_static (sh_wl sh)" for w1 r1
  proof -
    have static: "wl_static w1 = wl_static w" using w1(2) l(4) by (simp add: load_ok_def)
    have "table_name w1 = table_name w" using static by (simp add: wl_static_def)
    moreover have "loaded w1 0 n = loaded w 0 n"
      unfolding loaded_def nth_key_def using calculation BuildKeyName_static [OF static] by simp
    ultimately show ?thesis
      using read_loaded [OF w1(1), of n "sh_db sh" ord] wl_static_seq [OF static] assms(4-7) l(4)
      by (auto simp: load_ok_def)
  qed
  moreover have "ready env (sh_wl sh) (sh_rnd sh)" using l(4) by (simp add: load_ok_def)
  ultimately show ?thesis using l(1-3) by blast
qed

lemma sample_keys_differ: "inj_on (nth_key update_workload 0) {0..<10}"
proof (rule inj_onI)
  fix i j :: nat
  assume ij: "i \<in> {0..<10}" "j \<in> {0..<10}" "nth_key update_workload 0 i = nth_key update_workload 0 j"
  have u: "num10 (drop 4 (nth_key update_workload 0 k)) = unat (of_nat k :: u64)" for k
    unfolding nth_key_def by (subst num10_key_digits)
      (simp_all add: update_workload_def sample_workload_def CoreWorkload_def)
  have "unat (of_nat k :: u64) = k" if "k \<in> {0..<10}" for k using that by (simp add: unat_of_nat)
  then show "i = j" using ij u by metis
qed

theorem load_then_read_witness:
  "\<exists>his sh w' r'. DelegateClient sample_env (\<lambda>_. perf_Reset) (LockStlDB_ops (\<lambda>_. [])) 10 True (Clear new_histogram) None
       \<lparr>sh_clk = sconst 0, sh_wl = update_workload, sh_rnd = sample_random, sh_db = LockStlDB\<rparr> = Inr (10, his, None, sh) \<and>
     TransactionRead sample_env (LockStlDB_ops (\<lambda>_. [])) (sh_wl sh) (sh_rnd sh) (sh_db sh) = Inr (kOK, w', r', sh_db sh)"
proof -
  have c: "steady (sconst 0)" by (simp add: steady_def)
  have k: "key_generator update_workload = Some (Counter_gen \<lparr>counter = 0\<rparr>)"
    "insert_key_sequence update_workload = \<lparr>counter = of_nat 10\<rparr>"
    by (simp_all add: update_workload_def sample_workload_simps CounterGenerator_def)
  have n: "0 < (10::nat)" "(10::nat) \<le> 2 ^ 53" by simp_all
  have t: "CHR 0x00 \<notin> set (table_name update_workload)"
    by (simp add: update_workload_def sample_workload_def CoreWorkload_def)
  obtain his sh where "DelegateClient sample_env (\<lambda>_. perf_Reset) (LockStlDB_ops (\<lambda>_. [])) (int 10) True (Clear new_histogram) None
       \<lparr>sh_clk = sconst 0, sh_wl = update_workload, sh_rnd = sample_random, sh_db = LockStlDB\<rparr> = Inr (int 10, his, None, sh)"
    "\<exists>w' r'. TransactionRead sample_env (LockStlDB_ops (\<lambda>_. [])) (sh_wl sh) (sh_rnd sh) (sh_db sh) = Inr (kOK, w', r', sh_db sh)"
    using load_then_read [OF update_workload_ready c k n t sample_keys_differ,
        of "\<lambda>_. perf_Reset" "\<lambda>_. []" None] by blast
  then show ?thesis by auto
qed

end
