(* ===== verification/Tbb_Tables.thy ===== *)
theory Tbb_Tables
  imports Hashtables
begin

text \<open>
  The two tables of lib/ over containers of the TBB library: TbbRandHashtable (lib/tbb\_rand\_hashtable.h)
  over concurrent\_hash\_map and TbbScanHashtable (lib/tbb\_scan\_hashtable.h) over
  concurrent\_unordered\_map. The container is a library, so its operations are a parameter, and
  what its documentation promises of them is the predicate \<open>tbb_law\<close>. A method that changes the
  table holds its lock for writing, or works on one element through an accessor or an insertion
  of the container, which lock that element, so an operation is one step here. All four tables of lib/ give
  the same answers to every sequence of calls.
\<close>

section \<open>The container\<close>

text \<open>
  find gives the element an accessor or iterator refers to, assign is an assignment to the value
  of that element, erase removes it; from gives the elements from the one with the key (the first
  of equal\_range) to the end of the iteration, none when the key is absent.
\<close>

record ('t, 'v) tbb_lib =
  tbb_empty :: 't
  tbb_find :: "'t \<Rightarrow> vstring \<Rightarrow> 'v option"
  tbb_insert :: "'t \<Rightarrow> vstring \<Rightarrow> 'v \<Rightarrow> bool \<times> 't"
  tbb_assign :: "'t \<Rightarrow> vstring \<Rightarrow> 'v \<Rightarrow> 't"
  tbb_erase :: "'t \<Rightarrow> vstring \<Rightarrow> 't"
  tbb_elements :: "'t \<Rightarrow> (vstring \<times> 'v) list"
  tbb_from :: "'t \<Rightarrow> vstring \<Rightarrow> (vstring \<times> 'v) list"
  tbb_size :: "'t \<Rightarrow> nat"

text \<open>
  The promises, for the keys the program makes (with the hash of their characters): the elements
  are a map, the operations are those of the map, the size is the number of elements, and the
  elements from a key on are the end of the iteration that starts with it. The order of iteration
  is free.
\<close>

definition tbb_map :: "('t, 'v) tbb_lib \<Rightarrow> 't \<Rightarrow> string \<rightharpoonup> 'v" where
  "tbb_map L t = stl_map (tbb_elements L t)"

definition tbb_law :: "('t, 'v) tbb_lib \<Rightarrow> ('t \<Rightarrow> bool) \<Rightarrow> bool" where
  "tbb_law L ok \<longleftrightarrow>
     ok (tbb_empty L) \<and> tbb_elements L (tbb_empty L) = [] \<and>
     (\<forall>t. ok t \<longrightarrow> stl_inv (tbb_elements L t) \<and> tbb_size L t = length (tbb_elements L t)) \<and>
     (\<forall>t k. ok t \<longrightarrow> (\<exists>before. tbb_elements L t = before @ tbb_from L t (set_value k)) \<and>
        map (vvalue \<circ> fst) (take 1 (tbb_from L t (set_value k))) = (if tbb_map L t k = None then [] else [k])) \<and>
     (\<forall>t k. ok t \<longrightarrow> tbb_find L t (set_value k) = tbb_map L t k) \<and>
     (\<forall>t k v. ok t \<longrightarrow> (case tbb_insert L t (set_value k) v of (b, t') \<Rightarrow>
        b = (tbb_map L t k = None) \<and> ok t' \<and> (if b then tbb_map L t' = (tbb_map L t)(k \<mapsto> v) else t' = t))) \<and>
     (\<forall>t k v. ok t \<and> tbb_map L t k \<noteq> None \<longrightarrow>
        ok (tbb_assign L t (set_value k) v) \<and> tbb_map L (tbb_assign L t (set_value k) v) = (tbb_map L t)(k \<mapsto> v)) \<and>
     (\<forall>t k. ok t \<and> tbb_map L t k \<noteq> None \<longrightarrow>
        ok (tbb_erase L t (set_value k)) \<and> tbb_map L (tbb_erase L t (set_value k)) = (tbb_map L t)(k := None))"

lemma tbb_lawD:
  assumes "tbb_law L ok" "ok t"
  shows "stl_inv (tbb_elements L t)" "tbb_size L t = length (tbb_elements L t)"
    and "\<exists>before. tbb_elements L t = before @ tbb_from L t (set_value k)"
    and "map (vvalue \<circ> fst) (take 1 (tbb_from L t (set_value k))) = (if tbb_map L t k = None then [] else [k])"
    and "tbb_find L t (set_value k) = tbb_map L t k"
    and "tbb_insert L t (set_value k) v = (b, t') \<Longrightarrow>
      b = (tbb_map L t k = None) \<and> ok t' \<and> (if b then tbb_map L t' = (tbb_map L t)(k \<mapsto> v) else t' = t)"
    and "tbb_map L t k \<noteq> None \<Longrightarrow> ok (tbb_assign L t (set_value k) v)"
    and "tbb_map L t k \<noteq> None \<Longrightarrow> tbb_map L (tbb_assign L t (set_value k) v) = (tbb_map L t)(k \<mapsto> v)"
    and "tbb_map L t k \<noteq> None \<Longrightarrow> ok (tbb_erase L t (set_value k))"
    and "tbb_map L t k \<noteq> None \<Longrightarrow> tbb_map L (tbb_erase L t (set_value k)) = (tbb_map L t)(k := None)"
proof -
  note law0 = assms(1) [unfolded tbb_law_def, THEN conjunct2, THEN conjunct2]
  show "stl_inv (tbb_elements L t)" "tbb_size L t = length (tbb_elements L t)"
    using law0 [THEN conjunct1] assms(2) by blast+
  note law = law0 [THEN conjunct2]
  show "\<exists>before. tbb_elements L t = before @ tbb_from L t (set_value k)"
    "map (vvalue \<circ> fst) (take 1 (tbb_from L t (set_value k))) = (if tbb_map L t k = None then [] else [k])"
    using law [THEN conjunct1] assms(2) by blast+
  show "tbb_find L t (set_value k) = tbb_map L t k" using law [THEN conjunct2, THEN conjunct1] assms(2) by blast
  show "b = (tbb_map L t k = None) \<and> ok t' \<and> (if b then tbb_map L t' = (tbb_map L t)(k \<mapsto> v) else t' = t)"
    if "tbb_insert L t (set_value k) v = (b, t')"
    using law [THEN conjunct2, THEN conjunct2, THEN conjunct1, rule_format, OF assms(2), of k v] unfolding that prod.case .
  show "ok (tbb_assign L t (set_value k) v)" "tbb_map L (tbb_assign L t (set_value k) v) = (tbb_map L t)(k \<mapsto> v)"
    if "tbb_map L t k \<noteq> None"
    using law [THEN conjunct2, THEN conjunct2, THEN conjunct2, THEN conjunct1] assms(2) that by blast+
  show "ok (tbb_erase L t (set_value k))" "tbb_map L (tbb_erase L t (set_value k)) = (tbb_map L t)(k := None)"
    if "tbb_map L t k \<noteq> None"
    using law [THEN conjunct2, THEN conjunct2, THEN conjunct2, THEN conjunct2] assms(2) that by blast+
qed

section \<open>TbbRandHashtable\<close>

definition TbbRand_Get :: "('t, 'v) tbb_lib \<Rightarrow> 't \<Rightarrow> cptr \<Rightarrow> 'v option result" where
  "TbbRand_Get L t key = bindR (Wrap key) (\<lambda>k. Inr (tbb_find L t k))"

definition TbbRand_Insert :: "('t, 'v) tbb_lib \<Rightarrow> 't \<Rightarrow> cptr \<Rightarrow> 'v \<Rightarrow> (bool \<times> 't) result" where
  "TbbRand_Insert L t key value =
     (if key = None then Inr (False, t) else bindR (Copy key) (\<lambda>skey. Inr (tbb_insert L t skey value)))"

definition TbbRand_Update :: "('t, 'v) tbb_lib \<Rightarrow> 't \<Rightarrow> cptr \<Rightarrow> 'v \<Rightarrow> ('v option \<times> 't) result" where
  "TbbRand_Update L t key value = bindR (Wrap key) (\<lambda>k.
     case tbb_find L t k of None \<Rightarrow> Inr (None, t) | Some old \<Rightarrow> Inr (Some old, tbb_assign L t k value))"

definition TbbRand_Remove :: "('t, 'v) tbb_lib \<Rightarrow> 't \<Rightarrow> cptr \<Rightarrow> ('v option \<times> 't) result" where
  "TbbRand_Remove L t key = bindR (Wrap key) (\<lambda>k.
     case tbb_find L t k of None \<Rightarrow> Inr (None, t) | Some old \<Rightarrow> Inr (Some old, tbb_erase L t k))"

definition TbbRand_Entries :: "('t, 'v) tbb_lib \<Rightarrow> 't \<Rightarrow> cptr \<Rightarrow> u64 \<Rightarrow> (string \<times> 'v) list result" where
  "TbbRand_Entries L t key n =
     bindR (if key = None then Inr (tbb_elements L t) else bindR (Wrap key) (\<lambda>k. Inr (tbb_from L t k))) (\<lambda>pos.
     Inr (map (\<lambda>e. (vvalue (fst e), snd e)) (take (unat n) pos)))"

definition TbbRand_Size :: "('t, 'v) tbb_lib \<Rightarrow> 't \<Rightarrow> nat" where
  "TbbRand_Size L t = tbb_size L t"

section \<open>TbbScanHashtable\<close>

text \<open>Get, Update and Remove compare an iterator with the end where the other class asks find.\<close>

definition TbbScan_Get :: "('t, 'v) tbb_lib \<Rightarrow> 't \<Rightarrow> cptr \<Rightarrow> 'v option result" where
  "TbbScan_Get L t key = bindR (Wrap key) (\<lambda>k.
     case tbb_find L t k of None \<Rightarrow> Inr None | Some v \<Rightarrow> Inr (Some v))"

definition TbbScan_Insert :: "('t, 'v) tbb_lib \<Rightarrow> 't \<Rightarrow> cptr \<Rightarrow> 'v \<Rightarrow> (bool \<times> 't) result" where
  "TbbScan_Insert L t key value =
     (if key = None then Inr (False, t)
      else bindR (Copy key) (\<lambda>skey. case tbb_insert L t skey value of (second, t') \<Rightarrow> Inr (second, t')))"

definition TbbScan_Update :: "('t, 'v) tbb_lib \<Rightarrow> 't \<Rightarrow> cptr \<Rightarrow> 'v \<Rightarrow> ('v option \<times> 't) result" where
  "TbbScan_Update L t key value = bindR (Wrap key) (\<lambda>k.
     case tbb_find L t k of None \<Rightarrow> Inr (None, t) | Some old \<Rightarrow> Inr (Some old, tbb_assign L t k value))"

definition TbbScan_Remove :: "('t, 'v) tbb_lib \<Rightarrow> 't \<Rightarrow> cptr \<Rightarrow> ('v option \<times> 't) result" where
  "TbbScan_Remove L t key = bindR (Wrap key) (\<lambda>k.
     case tbb_find L t k of None \<Rightarrow> Inr (None, t) | Some old \<Rightarrow> Inr (Some old, tbb_erase L t k))"

definition TbbScan_Entries :: "('t, 'v) tbb_lib \<Rightarrow> 't \<Rightarrow> cptr \<Rightarrow> u64 \<Rightarrow> (string \<times> 'v) list result" where
  "TbbScan_Entries L t key n =
     bindR (if key = None then Inr (tbb_elements L t) else bindR (Wrap key) (\<lambda>k. Inr (tbb_from L t k))) (\<lambda>pos.
     Inr (map (\<lambda>e. (vvalue (fst e), snd e)) (take (unat n) pos)))"

definition TbbScan_Size :: "('t, 'v) tbb_lib \<Rightarrow> 't \<Rightarrow> nat" where
  "TbbScan_Size L t = tbb_size L t"

section \<open>Both keep the promises of StringHashtable\<close>

lemma Copy_Some: "Copy (Some k) = Inr (set_value k)"
  by (simp add: Copy_def set_value_def)

lemma tbb_map_size:
  assumes "tbb_law L ok" "ok t" "ok t'" "dom (tbb_map L t') = dom (tbb_map L t)"
  shows "tbb_size L t' = tbb_size L t"
proof -
  have card: "card (dom (stl_map es)) = length es" if "stl_inv es" for es :: "(vstring \<times> 'b) list"
    using that distinct_card [of "map (\<lambda>e. vvalue (fst e)) es"] by (simp add: stl_map_dom stl_inv_def)
  show ?thesis
    using card [OF tbb_lawD(1) [OF assms(1,2)]] card [OF tbb_lawD(1) [OF assms(1,3)]] assms(4)
    by (simp add: tbb_map_def tbb_lawD(2) [OF assms(1,2)] tbb_lawD(2) [OF assms(1,3)])
qed

lemma TbbScan_is_TbbRand:
  "TbbScan_Get = TbbRand_Get" "TbbScan_Insert = TbbRand_Insert" "TbbScan_Update = TbbRand_Update"
  "TbbScan_Remove = TbbRand_Remove" "TbbScan_Entries = TbbRand_Entries" "TbbScan_Size = TbbRand_Size"
  by (intro ext, simp add: TbbScan_Get_def TbbRand_Get_def TbbScan_Insert_def TbbRand_Insert_def
      TbbScan_Update_def TbbRand_Update_def TbbScan_Remove_def TbbRand_Remove_def TbbScan_Entries_def
      TbbRand_Entries_def TbbScan_Size_def TbbRand_Size_def bindR_def split: sum.splits option.splits)+

lemma TbbRand_contract:
  assumes law: "tbb_law L ok"
  shows "string_hashtable (TbbRand_Get L) (TbbRand_Insert L) (TbbRand_Update L) (TbbRand_Remove L)
           (TbbRand_Entries L) (TbbRand_Size L) ok (tbb_map L)"
proof unfold_locales
  fix t k v and n :: u64
  assume ok: "ok t"
  note D = tbb_lawD [OF law ok]
  show "TbbRand_Get L t (Some k) = Inr (tbb_map L t k)" by (simp add: TbbRand_Get_def Wrap_def D(5))
  obtain b t' where ins: "tbb_insert L t (set_value k) v = (b, t')" by fastforce
  show "\<exists>t'. TbbRand_Insert L t (Some k) v = Inr (tbb_map L t k = None, t') \<and> ok t' \<and>
      tbb_map L t' = (if tbb_map L t k = None then (tbb_map L t)(k \<mapsto> v) else tbb_map L t) \<and>
      (tbb_map L t k \<noteq> None \<longrightarrow> t' = t)"
    using D(6) [OF ins] by (auto simp: TbbRand_Insert_def Copy_Some ins split: if_splits)
  show "\<exists>t'. TbbRand_Update L t (Some k) v = Inr (tbb_map L t k, t') \<and> ok t' \<and>
      tbb_map L t' = (if tbb_map L t k = None then tbb_map L t else (tbb_map L t)(k \<mapsto> v)) \<and>
      TbbRand_Size L t' = TbbRand_Size L t"
  proof (cases "tbb_map L t k")
    case (Some w)
    let ?t = "tbb_assign L t (set_value k) v"
    have t: "ok ?t" "tbb_map L ?t = (tbb_map L t)(k \<mapsto> v)" using D(7,8) Some by blast+
    have "dom (tbb_map L ?t) = dom (tbb_map L t)" unfolding t(2) dom_fun_upd using Some by auto
    then show ?thesis using t tbb_map_size [OF law ok t(1)] Some
      by (simp add: TbbRand_Update_def TbbRand_Size_def Wrap_def D(5))
  qed (use ok in \<open>simp add: TbbRand_Update_def Wrap_def D(5)\<close>)
  show "\<exists>t'. TbbRand_Remove L t (Some k) = Inr (tbb_map L t k, t') \<and> ok t' \<and> tbb_map L t' = (tbb_map L t)(k := None)"
  proof (cases "tbb_map L t k")
    case (Some w)
    then show ?thesis using D(9,10) [of k] by (simp add: TbbRand_Remove_def Wrap_def D(5))
  next
    case None
    then show ?thesis using ok by (auto simp: TbbRand_Remove_def Wrap_def D(5))
  qed
  show "\<exists>es. TbbRand_Entries L t None n = Inr (take (unat n) es) \<and> distinct (map fst es) \<and>
      map_of es = tbb_map L t \<and> length es = TbbRand_Size L t"
    using D(1,2) by (intro exI [of _ "map (\<lambda>e. (vvalue (fst e), snd e)) (tbb_elements L t)"])
      (simp add: TbbRand_Entries_def tbb_map_def stl_map_def stl_inv_def TbbRand_Size_def take_map o_def)
  let ?pos = "tbb_from L t (set_value k)"
  let ?es = "map (\<lambda>e. (vvalue (fst e), snd e)) ?pos"
  obtain before where pos: "tbb_elements L t = before @ ?pos" using D(3) by blast
  have all: "distinct (map fst ?es)" "\<forall>e\<in>set ?es. tbb_map L t (fst e) = Some (snd e)"
    using stl_find_suffix_law [OF D(1) pos] unfolding tbb_map_def by blast+
  moreover have "case tbb_map L t k of None \<Rightarrow> ?es = [] | Some v \<Rightarrow> \<exists>rest. ?es = (k, v) # rest"
    using D(4) [of k] all(2) by (cases ?pos) (auto split: option.splits if_splits)
  moreover have "TbbRand_Entries L t (Some k) n = Inr (take (unat n) ?es)"
    by (simp add: TbbRand_Entries_def Wrap_def take_map)
  ultimately show "\<exists>es. TbbRand_Entries L t (Some k) n = Inr (take (unat n) es) \<and> distinct (map fst es) \<and>
      (\<forall>e\<in>set es. tbb_map L t (fst e) = Some (snd e)) \<and>
      (case tbb_map L t k of None \<Rightarrow> es = [] | Some v \<Rightarrow> \<exists>rest. es = (k, v) # rest)" by blast
qed

text \<open>The methods of the two classes, and the constructors, which make an empty container.\<close>

definition rand_ops :: "('t, 'v) tbb_lib \<Rightarrow> ('t, 'v) table_ops" where
  "rand_ops L = \<lparr>op_get = TbbRand_Get L, op_ins = TbbRand_Insert L, op_upd = TbbRand_Update L,
     op_rem = TbbRand_Remove L, op_ents = TbbRand_Entries L, op_size = TbbRand_Size L, op_new = tbb_empty L\<rparr>"

definition scan_ops :: "('t, 'v) tbb_lib \<Rightarrow> ('t, 'v) table_ops" where
  "scan_ops L = \<lparr>op_get = TbbScan_Get L, op_ins = TbbScan_Insert L, op_upd = TbbScan_Update L,
     op_rem = TbbScan_Remove L, op_ents = TbbScan_Entries L, op_size = TbbScan_Size L, op_new = tbb_empty L\<rparr>"

lemma scan_ops_rand: "scan_ops L = rand_ops L"
  unfolding rand_ops_def scan_ops_def TbbScan_is_TbbRand ..

lemma rand_ops_class:
  assumes "tbb_law L ok"
  shows "table_class (rand_ops L) ok (tbb_map L)"
proof -
  have "ok (tbb_empty L)" "tbb_elements L (tbb_empty L) = []" using assms unfolding tbb_law_def by blast+
  then have "ok (tbb_empty L)" "tbb_map L (tbb_empty L) = Map.empty" by (simp_all add: tbb_map_def stl_map_def)
  then show ?thesis using TbbRand_contract [OF assms]
    by (simp add: table_class_def table_class_axioms_def rand_ops_def)
qed


text \<open>A container that keeps the promises: the list of its elements, newest first.\<close>

definition list_tbb :: "('v stl_table, 'v) tbb_lib" where
  "list_tbb = \<lparr>tbb_empty = [], tbb_find = (\<lambda>t k. stl_map t (vvalue k)),
     tbb_insert = (\<lambda>t k v. if stl_map t (vvalue k) = None then (True, (k, v) # t) else (False, t)),
     tbb_assign = (\<lambda>t k v. stl_before t k @ (k, v) # tl (stl_find t k)),
     tbb_erase = (\<lambda>t k. stl_before t k @ tl (stl_find t k)),
     tbb_elements = (\<lambda>t. t), tbb_from = stl_find, tbb_size = length\<rparr>"

lemma list_tbb_law: "tbb_law (list_tbb :: ('v stl_table, 'v) tbb_lib) stl_inv"
proof -
  have m: "tbb_map (list_tbb :: ('v stl_table, 'v) tbb_lib) = stl_map" by (rule ext) (simp add: tbb_map_def list_tbb_def)
  have ins: "stl_inv ((set_value k, v) # t) \<and> stl_map ((set_value k, v) # t) = (stl_map t)(k \<mapsto> v)"
    if "stl_inv t" "stl_map t k = None" for t :: "'v stl_table" and k v
  proof -
    have "k \<notin> (\<lambda>e. vvalue (fst e)) ` set t" using that(2) stl_map_dom [of t] by auto
    then show ?thesis using that(1) by (auto simp: stl_inv_def stl_map_def)
  qed
  have found: "\<exists>w rest. stl_find t (set_value k) = (set_value k, w) # rest"
    if "stl_inv t" "stl_map t k \<noteq> None" for t :: "'v stl_table" and k
    using stl_find_cases [OF that(1), of k] that(2) by auto
  have upd: "stl_inv (stl_before t (set_value k) @ (set_value k, v) # tl (stl_find t (set_value k))) \<and>
      stl_map (stl_before t (set_value k) @ (set_value k, v) # tl (stl_find t (set_value k))) = (stl_map t)(k \<mapsto> v) \<and>
      stl_inv (stl_before t (set_value k) @ tl (stl_find t (set_value k))) \<and>
      stl_map (stl_before t (set_value k) @ tl (stl_find t (set_value k))) = (stl_map t)(k := None)"
    if t: "stl_inv t" "stl_map t k \<noteq> None" for t :: "'v stl_table" and k v
  proof -
    obtain w rest where f: "stl_find t (set_value k) = (set_value k, w) # rest" using found [OF t] by blast
    show ?thesis using stl_split(2-5) [OF t(1) f] by (simp add: f)
  qed
  have from_key: "\<exists>before. t = before @ stl_find t (set_value k)"
    "map (vvalue \<circ> fst) (take 1 (stl_find t (set_value k))) = (if stl_map t k = None then [] else [k])"
    if "stl_inv t" for t :: "'v stl_table" and k
    using stl_find_before [of t "set_value k", symmetric] stl_find_cases [OF that, of k] by auto
  have "stl_inv ([] :: 'v stl_table)" by (simp add: stl_inv_def)
  then show ?thesis unfolding tbb_law_def m using ins upd from_key by (simp add: list_tbb_def)
qed

interpretation tbb_rand: table_class "rand_ops list_tbb" stl_inv "tbb_map list_tbb"
  by (rule rand_ops_class [OF list_tbb_law])

interpretation tbb_scan: table_class "scan_ops list_tbb" stl_inv "tbb_map list_tbb"
  unfolding scan_ops_rand by (rule rand_ops_class [OF list_tbb_law])

section \<open>Sequences of calls\<close>

datatype 'v table_call = Ask_Get string | Ask_Insert string 'v | Ask_Update string 'v | Ask_Remove string | Ask_Size

datatype 'v table_answer = Answer "'v option" | Answer_ok bool | Answer_size nat

fun table_do :: "('t, 'v) table_ops \<Rightarrow> 't \<Rightarrow> 'v table_call \<Rightarrow> ('v table_answer \<times> 't) result" where
  "table_do T t (Ask_Get k) = bindR (op_get T t (Some k)) (\<lambda>v. Inr (Answer v, t))"
| "table_do T t (Ask_Insert k v) = bindR (op_ins T t (Some k) v) (\<lambda>(b, t). Inr (Answer_ok b, t))"
| "table_do T t (Ask_Update k v) = bindR (op_upd T t (Some k) v) (\<lambda>(v, t). Inr (Answer v, t))"
| "table_do T t (Ask_Remove k) = bindR (op_rem T t (Some k)) (\<lambda>(v, t). Inr (Answer v, t))"
| "table_do T t Ask_Size = Inr (Answer_size (op_size T t), t)"

fun table_run :: "('t, 'v) table_ops \<Rightarrow> 't \<Rightarrow> 'v table_call list \<Rightarrow> ('v table_answer list \<times> 't) result" where
  "table_run T t [] = Inr ([], t)"
| "table_run T t (c # cs) = bindR (table_do T t c) (\<lambda>(a, t). bindR (table_run T t cs) (\<lambda>(as, t). Inr (a # as, t)))"

text \<open>The same calls on a map.\<close>

fun map_do :: "(string \<rightharpoonup> 'v) \<Rightarrow> 'v table_call \<Rightarrow> 'v table_answer \<times> (string \<rightharpoonup> 'v)" where
  "map_do m (Ask_Get k) = (Answer (m k), m)"
| "map_do m (Ask_Insert k v) = (Answer_ok (m k = None), if m k = None then m(k \<mapsto> v) else m)"
| "map_do m (Ask_Update k v) = (Answer (m k), if m k = None then m else m(k \<mapsto> v))"
| "map_do m (Ask_Remove k) = (Answer (m k), m(k := None))"
| "map_do m Ask_Size = (Answer_size (card (dom m)), m)"

fun map_run :: "(string \<rightharpoonup> 'v) \<Rightarrow> 'v table_call list \<Rightarrow> 'v table_answer list" where
  "map_run m [] = []"
| "map_run m (c # cs) = fst (map_do m c) # map_run (snd (map_do m c)) cs"

context table_class
begin

lemma size_law:
  assumes "inv t"
  shows "op_size T t = card (dom (mp t))"
proof -
  obtain es where "distinct (map fst es)" "map_of es = mp t" "length es = op_size T t"
    using ents_law [OF assms, of 0] by blast
  then show ?thesis using distinct_card [of "map fst es"] by (metis dom_map_of_conv_image_fst length_map list.set_map)
qed

lemma do_law:
  assumes "inv t"
  shows "\<exists>t'. table_do T t c = Inr (fst (map_do (mp t) c), t') \<and> inv t' \<and> mp t' = snd (map_do (mp t) c)"
proof (cases c)
  case (Ask_Get k)
  then show ?thesis using get_law [OF assms, of k] assms by simp
next
  case (Ask_Insert k v)
  then show ?thesis using ins_law [OF assms, of k v] by fastforce
next
  case (Ask_Update k v)
  then show ?thesis using upd_law [OF assms, of k v] by fastforce
next
  case (Ask_Remove k)
  then show ?thesis using rem_law [OF assms, of k] by fastforce
next
  case Ask_Size
  then show ?thesis using size_law [OF assms] assms by simp
qed

lemma run_law:
  assumes "inv t"
  shows "\<exists>t'. table_run T t cs = Inr (map_run (mp t) cs, t')"
  using assms
proof (induction cs arbitrary: t)
  case (Cons c cs)
  obtain t1 where t1: "table_do T t c = Inr (fst (map_do (mp t) c), t1)" "inv t1" "mp t1 = snd (map_do (mp t) c)"
    using do_law [OF Cons.prems, of c] by blast
  then show ?case using Cons.IH [OF t1(2)] by auto
qed simp

end

section \<open>Properties\<close>

text \<open>
  C40. The four hash tables of the library are interchangeable: StlHashtable, LockStlHashtable,
  TbbRandHashtable and TbbScanHashtable answer every sequence of lookups, insertions, updates,
  removals and questions for the size alike when they start with the same contents, and as a map
  does, whatever the order in which they keep their elements. Of the TBB containers only the
  documented behaviour is assumed.
\<close>

theorem tables_answer_alike:
  assumes "tbb_law L ok" "ok t" "stl_inv s" "tbb_map L t = stl_map s"
  shows "\<exists>as t1 t2 s1 s2. table_run (rand_ops L) t cs = Inr (as, t1) \<and> table_run (scan_ops L) t cs = Inr (as, t2) \<and>
           table_run (stl_ops ord) s cs = Inr (as, s1) \<and> table_run (lock_ops ord) s cs = Inr (as, s2) \<and> as = map_run (stl_map s) cs"
  using table_class.run_law [OF rand_ops_class [OF assms(1)] assms(2), of cs]
    stl_class.run_law [OF assms(3), of ord cs] lock_class.run_law [OF assms(3), of ord cs]
  unfolding assms(4) scan_ops_rand by auto

theorem tables_answer_alike_witness:
  "\<exists>t1 s1. table_run (rand_ops list_tbb) []
        [Ask_Insert ''user1'' (7::nat), Ask_Insert ''user1'' 8, Ask_Remove ''user1'', Ask_Size] =
      Inr ([Answer_ok True, Answer_ok False, Answer (Some 7), Answer_size 0], t1) \<and>
    table_run (lock_ops (\<lambda>_. [])) []
        [Ask_Insert ''user1'' (7::nat), Ask_Insert ''user1'' 8, Ask_Remove ''user1'', Ask_Size] =
      Inr ([Answer_ok True, Answer_ok False, Answer (Some 7), Answer_size 0], s1)"
proof -
  let ?cs = "[Ask_Insert ''user1'' (7::nat), Ask_Insert ''user1'' 8, Ask_Remove ''user1'', Ask_Size]"
  have inv: "stl_inv ([] :: nat stl_table)" by (simp add: stl_inv_def)
  have eq: "tbb_map list_tbb [] = stl_map ([] :: nat stl_table)" by (simp add: tbb_map_def list_tbb_def)
  have "stl_map ([] :: nat stl_table) = Map.empty" by (simp add: stl_map_def)
  then have m: "map_run (stl_map []) ?cs = [Answer_ok True, Answer_ok False, Answer (Some 7), Answer_size 0]" by simp
  show ?thesis using tables_answer_alike [OF list_tbb_law inv inv eq, of ?cs "\<lambda>_. []"] unfolding m by blast
qed

end
