(* ===== verification/Tbb_DBs.thy ===== *)
theory Tbb_DBs
  imports Hashtable_DB Tbb_Tables
begin

text \<open>
  TbbRandDB of db/tbb\_rand\_db.hbak and TbbScanDB of db/tbb\_scan\_db.hbak: HashtableDB over the
  tables of Tbb\_Tables. The container is a parameter twice, once for the key table and once
  for the field tables. Both answer every sequence of calls as LockStlDB does.
\<close>

section \<open>The two classes\<close>

text \<open>The constructors name the database; Init is that of DB.\<close>

definition TbbRandDB_class :: "('k, 'f) tbb_lib \<Rightarrow> ('f, string) tbb_lib \<Rightarrow> ('k, 'f) hashtable_class" where
  "TbbRandDB_class LK LF = \<lparr>key_class = rand_ops LK, field_class = rand_ops LF\<rparr>"

definition TbbRandDB :: "('k, 'f) tbb_lib \<Rightarrow> 'k hashtable_db" where
  "TbbRandDB LK = \<lparr>key_table = tbb_empty LK, hdb_name = ''TbbRand''\<rparr>"

definition TbbRandDB_ops :: "('k, 'f) tbb_lib \<Rightarrow> ('f, string) tbb_lib \<Rightarrow> 'k hashtable_db db_ops" where
  "TbbRandDB_ops LK LF = hashtable_ops (TbbRandDB_class LK LF)"

definition TbbScanDB_class :: "('k, 'f) tbb_lib \<Rightarrow> ('f, string) tbb_lib \<Rightarrow> ('k, 'f) hashtable_class" where
  "TbbScanDB_class LK LF = \<lparr>key_class = scan_ops LK, field_class = scan_ops LF\<rparr>"

definition TbbScanDB :: "('k, 'f) tbb_lib \<Rightarrow> 'k hashtable_db" where
  "TbbScanDB LK = \<lparr>key_table = tbb_empty LK, hdb_name = ''TbbScan''\<rparr>"

definition TbbScanDB_ops :: "('k, 'f) tbb_lib \<Rightarrow> ('f, string) tbb_lib \<Rightarrow> 'k hashtable_db db_ops" where
  "TbbScanDB_ops LK LF = hashtable_ops (TbbScanDB_class LK LF)"

lemma TbbRandDB_tables:
  assumes "tbb_law LK okK" "tbb_law LF okF"
  shows "hashtable_tables (TbbRandDB_class LK LF) okK (tbb_map LK) okF (tbb_map LF)"
  using rand_ops_class [OF assms(1)] rand_ops_class [OF assms(2)]
  by (simp add: hashtable_tables_def TbbRandDB_class_def)

lemma TbbScanDB_class_rand: "TbbScanDB_class = TbbRandDB_class"
  by (intro ext) (simp add: TbbScanDB_class_def TbbRandDB_class_def scan_ops_rand)

lemma TbbDB_start:
  assumes "tbb_law LK okK"
  shows "tables_inv okK (tbb_map LK) okF (TbbRandDB LK)" "tables_abs (tbb_map LK) fm (TbbRandDB LK) = Map.empty"
    and "tables_inv okK (tbb_map LK) okF (TbbScanDB LK)" "tables_abs (tbb_map LK) fm (TbbScanDB LK) = Map.empty"
proof -
  have "okK (tbb_empty LK)" "tbb_map LK (tbb_empty LK) = Map.empty"
    using table_class.new_law [OF rand_ops_class [OF assms]] by (simp_all add: rand_ops_def)
  then show "tables_inv okK (tbb_map LK) okF (TbbRandDB LK)" "tables_inv okK (tbb_map LK) okF (TbbScanDB LK)"
    "tables_abs (tbb_map LK) fm (TbbRandDB LK) = Map.empty" "tables_abs (tbb_map LK) fm (TbbScanDB LK) = Map.empty"
    by (auto simp: TbbRandDB_def TbbScanDB_def tables_inv_def tables_abs_def)
qed

interpretation rand_db: hashtable_tables "TbbRandDB_class list_tbb list_tbb" stl_inv "tbb_map list_tbb" stl_inv "tbb_map list_tbb"
  by (rule TbbRandDB_tables [OF list_tbb_law list_tbb_law])

interpretation scan_db: hashtable_tables "TbbScanDB_class list_tbb list_tbb" stl_inv "tbb_map list_tbb" stl_inv "tbb_map list_tbb"
  unfolding TbbScanDB_class_rand by (rule TbbRandDB_tables [OF list_tbb_law list_tbb_law])

interpretation rand_contract: db_contract "TbbRandDB_ops list_tbb list_tbb" "tables_inv stl_inv (tbb_map list_tbb) stl_inv"
  unfolding TbbRandDB_ops_def by (rule rand_db.contract)

interpretation scan_contract: db_contract "TbbScanDB_ops list_tbb list_tbb" "tables_inv stl_inv (tbb_map list_tbb) stl_inv"
  unfolding TbbScanDB_ops_def by (rule scan_db.contract)

section \<open>Properties\<close>

text \<open>
  C39. The three hash table databases are interchangeable. LockStlDB, TbbRandDB and TbbScanDB, each
  started empty, return from every sequence of reads, scans, updates, insertions and
  deletions with the same statuses, those of the abstract operations on a map of records, and
  hold the same records afterwards, so that every read of named fields answers with the same pairs
  in the same order. Nothing is assumed of the order in which the tables keep their entries, and
  of the TBB containers only the documented behaviour.
\<close>

theorem databases_answer_alike:
  assumes "tbb_law LK okK" "tbb_law LF okF" "tbb_law SK okSK" "tbb_law SF okSF"
  shows "\<exists>sts m d1 d2 d3. (sts, m) = abs_calls cs Map.empty \<and>
           do_calls (LockStlDB_ops ord) cs LockStlDB = Inr (sts, d1) \<and> db_abs d1 = m \<and>
           do_calls (TbbRandDB_ops LK LF) cs (TbbRandDB LK) = Inr (sts, d2) \<and> tables_abs (tbb_map LK) (tbb_map LF) d2 = m \<and>
           do_calls (TbbScanDB_ops SK SF) cs (TbbScanDB SK) = Inr (sts, d3) \<and> tables_abs (tbb_map SK) (tbb_map SF) d3 = m \<and>
           (\<forall>tab key fs. \<exists>st res.
              HashtableDB_Read (LockStlDB_class ord) d1 tab key (Some fs) [] = Inr (st, res, d1) \<and>
              HashtableDB_Read (TbbRandDB_class LK LF) d2 tab key (Some fs) [] = Inr (st, res, d2) \<and>
              HashtableDB_Read (TbbScanDB_class SK SF) d3 tab key (Some fs) [] = Inr (st, res, d3))"
proof -
  note rand = TbbRandDB_tables [OF assms(1,2)]
  note scan = TbbRandDB_tables [OF assms(3,4), folded TbbScanDB_class_rand]
  have lock_empty: "db_abs LockStlDB = Map.empty" using LockStlDB_abs by (intro ext) simp
  obtain d1 where 1: "do_calls (LockStlDB_ops ord) cs LockStlDB = Inr (fst (abs_calls cs Map.empty), d1)"
    "db_inv d1" "db_abs d1 = snd (abs_calls cs Map.empty)"
    using lock_db.do_calls_law [OF LockStlDB_inv, of ord cs] unfolding lock_empty LockStlDB_ops_def do_calls_Init by blast
  obtain d2 where 2: "do_calls (TbbRandDB_ops LK LF) cs (TbbRandDB LK) = Inr (fst (abs_calls cs Map.empty), d2)"
    "tables_inv okK (tbb_map LK) okF d2" "tables_abs (tbb_map LK) (tbb_map LF) d2 = snd (abs_calls cs Map.empty)"
    using hashtable_tables.do_calls_law [OF rand TbbDB_start(1) [OF assms(1)], of cs]
    unfolding TbbDB_start(2) [OF assms(1)] TbbRandDB_ops_def by blast
  obtain d3 where 3: "do_calls (TbbScanDB_ops SK SF) cs (TbbScanDB SK) = Inr (fst (abs_calls cs Map.empty), d3)"
    "tables_inv okSK (tbb_map SK) okSF d3" "tables_abs (tbb_map SK) (tbb_map SF) d3 = snd (abs_calls cs Map.empty)"
    using hashtable_tables.do_calls_law [OF scan TbbDB_start(3) [OF assms(3)], of cs]
    unfolding TbbDB_start(4) [OF assms(3)] TbbScanDB_ops_def by blast
  let ?m = "snd (abs_calls cs Map.empty)"
  have "\<exists>st res. HashtableDB_Read (LockStlDB_class ord) d1 tab key (Some fs) [] = Inr (st, res, d1) \<and>
      HashtableDB_Read (TbbRandDB_class LK LF) d2 tab key (Some fs) [] = Inr (st, res, d2) \<and>
      HashtableDB_Read (TbbScanDB_class SK SF) d3 tab key (Some fs) [] = Inr (st, res, d3)" for tab key fs
    unfolding lock_db.Read_named [OF 1(2)] hashtable_tables.Read_named [OF rand 2(2)]
      hashtable_tables.Read_named [OF scan 3(2)] 1(3) 2(3) 3(3)
    by (cases "?m (c_str (tab @ key))") simp_all
  then show ?thesis using 1(1,3) 2(1,3) 3(1,3)
    by (intro exI [of _ "fst (abs_calls cs Map.empty)"] exI [of _ ?m] exI [of _ d1] exI [of _ d2] exI [of _ d3]) simp
qed

definition sample_calls :: "db_call list" where
  "sample_calls = [Call_Insert ''t'' ''user1'' [(''field0'', ''x''), (''field1'', ''y'')],
     Call_Insert ''t'' ''user1'' [(''field1'', ''z'')], Call_Read ''t'' ''user2'' None,
     Call_Update ''t'' ''user2'' [(''field0'', ''z'')], Call_Scan ''t'' ''user1'' 3 None, Call_Delete ''t'' ''user1'',
     Call_Delete ''t'' ''user1'']"

theorem databases_answer_alike_witness:
  "\<exists>d1 d2 d3. do_calls (LockStlDB_ops (\<lambda>hs. rev [0..<length hs])) sample_calls LockStlDB = Inr ([0, 2, 1, 0, 0, 0, 1], d1) \<and>
     do_calls (TbbRandDB_ops list_tbb list_tbb) sample_calls (TbbRandDB list_tbb) = Inr ([0, 2, 1, 0, 0, 0, 1], d2) \<and>
     do_calls (TbbScanDB_ops list_tbb list_tbb) sample_calls (TbbScanDB list_tbb) = Inr ([0, 2, 1, 0, 0, 0, 1], d3)"
proof -
  have "fst (abs_calls sample_calls Map.empty) = [0, 2, 1, 0, 0, 0, 1]"
    by (simp add: sample_calls_def abs_insert_def abs_update_def abs_delete_def c_pairs_def c_str_def
        kOK_def kErrorNoData_def kErrorConflict_def Let_def)
  then show ?thesis
    using databases_answer_alike [OF list_tbb_law list_tbb_law list_tbb_law list_tbb_law, of sample_calls "\<lambda>hs. rev [0..<length hs]"]
    by (metis fst_conv)
qed

end
