(* ===== verification/Program.thy ===== *)
theory Program
  imports Success
begin

text \<open>
  The whole program on a command line that asks for one phase: what the constructors and Init leave
  is what the phase needs, so main returns the report of the phase. The complement of the ways
  in which main cannot return (theory Ycsbc).
\<close>

section \<open>What Init leaves is ready for transactions\<close>

text \<open>
  A request distribution that can name only records of the load: a scrambled zipfian generator is
  built for the records and the keys it expects to be inserted, so it stays within the load
  when the proportion of inserts is zero.
\<close>

definition no_new_keys :: "properties \<Rightarrow> bool" where
  "no_new_keys p \<longleftrightarrow> GetProperty p REQUEST_DISTRIBUTION_PROPERTY REQUEST_DISTRIBUTION_DEFAULT = ''zipfian'' \<longrightarrow>
     stod (GetProperty p INSERT_PROPORTION_PROPERTY INSERT_PROPORTION_DEFAULT) = Inr (Fin 0)"

lemma no_inserts:
  assumes "int_of_d (d_of_int n * Fin 0 * Fin 2) = Inr m"
  shows "m = 0"
proof (cases "d_of_int n")
  case (Fin x)
  then have "d_of_int n * Fin 0 * Fin 2 = Fin 0" by (simp del: zero_one_Fin)
  then show ?thesis using assms by (simp add: Let_def trunc_rat_def del: zero_one_Fin)
qed (use assms in \<open>auto simp: times_double_def split: if_splits\<close>)

lemma new_key_chooser_range:
  assumes "new_key_chooser env p d x w r = Inr (g, r')" "d = ''zipfian'' \<longrightarrow> x = Fin 0"
    and "counter (insert_key_sequence w) = record_count w"
  shows "gen_range (insert_key_sequence w) g \<subseteq> {..Counter_Last (insert_key_sequence w)}"
proof -
  have last: "Counter_Last (insert_key_sequence w) = record_count w - 1"
    using assms(3) by (simp add: Counter_Last_def)
  have scrambled: "scrambled_range h = {0..n - 1}" if "ScrambledZipfianGenerator_items env n r = Inr (h, r'')" for h n r''
    using that by (auto simp: ScrambledZipfianGenerator_items_def ScrambledZipfianGenerator_def
        scrambled_range_def bindR_eq_Inr_iff)
  have uniform: "gen_range b h = {lo..hi}" if "new_Uniform env lo hi = Inr h" for b lo hi h
    using that by (auto simp: new_Uniform_def UniformGenerator_def bindR_eq_Inr_iff Let_def split: if_splits)
  show ?thesis
    using assms(1,2) last
    by (auto simp: new_key_chooser_def bindR_eq_Inr_iff dest!: uniform scrambled no_inserts split: if_splits)
qed

lemma read_parameters_insert_proportion:
  assumes "read_parameters env p w0 r = Inr (w, x, n, r')"
  shows "stod (GetProperty p INSERT_PROPORTION_PROPERTY INSERT_PROPORTION_DEFAULT) = Inr x"
  using assms unfolding read_parameters_def Let_def by (elim bindR_elims) auto

lemma Workload_Init_chooser:
  assumes "Workload_Init env p w0 r = Inr (w, r')" "no_new_keys p"
  shows "chooser_ok w"
proof -
  obtain w1 x n r1 kc r2 fcg sc where parts:
    "read_parameters env p w0 r = Inr (w1, x, n, r1)"
    "new_key_chooser env p (GetProperty p REQUEST_DISTRIBUTION_PROPERTY REQUEST_DISTRIBUTION_DEFAULT) x w1 r1 = Inr (kc, r2)"
    "(if GetProperty p DBNAME_PROPERTY [] = ''rocksdb''
      then handleRocksdb env (w1\<lparr>key_chooser := Some kc, field_chooser := Some fcg, scan_len_chooser := Some sc\<rparr>)
      else Inr (w1\<lparr>key_chooser := Some kc, field_chooser := Some fcg, scan_len_chooser := Some sc\<rparr>)) = Inr w"
    using assms(1) unfolding Workload_Init_def Let_def by (elim bindR_elims) auto
  have w: "key_chooser w = Some kc" "insert_key_sequence w = insert_key_sequence w1"
    using parts(3) by (auto simp: handleRocksdb_def bindR_eq_Inr_iff Let_def split: if_splits)
  have "GetProperty p REQUEST_DISTRIBUTION_PROPERTY REQUEST_DISTRIBUTION_DEFAULT = ''zipfian'' \<longrightarrow> x = Fin 0"
    using assms(2) read_parameters_insert_proportion [OF parts(1)] by (simp add: no_new_keys_def)
  moreover have "counter (insert_key_sequence w1) = record_count w1"
    using read_parameters_parts [OF parts(1)] by blast
  ultimately show ?thesis
    unfolding chooser_ok_def w option.sel using new_key_chooser_range [OF parts(2)] by blast
qed

lemma Workload_Init_ready:
  assumes "uniform_law env" "zipf_env_law env" "unit_random r"
    and "Workload_Init env p CoreWorkload r = Inr (w, r')" "sizes_ok w" "discrete_inv (op_chooser w)" "no_new_keys p"
  shows "ready env w r'"
  using Workload_Init_inv [OF assms(1-5)] Workload_Init_chooser [OF assms(4,7)] assms(6) by (simp add: ready_def)

section \<open>What CreateDB leaves satisfies the contract\<close>

text \<open>An engine that opens gives a handle in the invariant of its law.\<close>

definition opens :: "('o, 'd, 'i) kv_lib \<Rightarrow> ('d \<Rightarrow> bool) \<Rightarrow> bool" where
  "opens L ok \<longleftrightarrow> (\<forall>opts path d. lib_Open L opts path = (St_ok, d) \<longrightarrow> ok d)"

lemma CreateDB_inv:
  assumes "CreateDB P RL LL p = Inr (Some s)" "opens RL rok" "opens LL lok" "props_at p ''dbname'' = Inr nm"
  shows "obj_inv rok lok nm s"
proof -
  have "rok (eng_db d) \<and> eng_name d = ''rocksdb''" if "RocksDB P RL path f = Inr d" for path f d
    using that assms(2)
    by (auto simp: RocksDB_def opens_def Let_def case_prod_unfold bindR_eq_Inr_iff prod_eq_iff split: if_splits)
  moreover have "lok (eng_db d) \<and> eng_name d = ''leveldb''" if "LevelDB P LL path f = Inr d" for path f d
    using that assms(3)
    by (auto simp: LevelDB_def opens_def Let_def case_prod_unfold bindR_eq_Inr_iff prod_eq_iff split: if_splits)
  ultimately show ?thesis using assms(1,4)
    by (auto simp: CreateDB_def bindR_eq_Inr_iff split: if_splits)
qed

lemma CreateDB_dbname:
  "CreateDB P RL LL p = Inr (Some s) \<Longrightarrow> \<exists>nm. props_at p ''dbname'' = Inr nm"
  by (auto simp: CreateDB_def bindR_eq_Inr_iff)

section \<open>main\<close>

text \<open>The laws of everything outside the program.\<close>

definition world_law :: "('pt, 'd, 'i, 'e, 'j) world \<Rightarrow> bool" where
  "world_law W \<longleftrightarrow>
     (\<exists>ok mp rest. kv_law (wd_rocks W) ok mp rest \<and> opens (wd_rocks W) ok) \<and>
     (\<exists>ok mp rest. kv_law (wd_level W) ok mp rest \<and> opens (wd_level W) ok) \<and>
     uniform_law (wd_env W) \<and> zipf_env_law (wd_env W) \<and> unit_random (wd_random W) \<and> steady (wd_clock W)"

lemma world_phase:
  assumes "world_law W" "CreateDB (wd_ptree W) (wd_rocks W) (wd_level W) p = Inr (Some s)"
    and "ready (wd_env W) w r" "0 < n" "0 \<le> tot" "tot < 2 ^ 31" "props_at p ''dbname'' = Inr nm"
  shows "\<exists>rep sh' xs. run_phase (wd_env W) gp (wd_ops W) ld nm n tot sched (Some b)
             \<lparr>sh_clk = wd_clock W, sh_wl = w, sh_rnd = r, sh_db = s\<rparr> = Inr (rep, None, sh') \<and>
           rep_loading rep = ld \<and> rep_threads rep = n \<and> rep_sum rep = n * (tot div n) \<and>
           hist_repr (rep_his rep) xs \<and> int (length xs) = n * (tot div n)"
proof -
  obtain rok rmp rrest lok lmp lrest where law: "kv_law (wd_rocks W) rok rmp rrest" "opens (wd_rocks W) rok"
    "kv_law (wd_level W) lok lmp lrest" "opens (wd_level W) lok" and clk: "steady (wd_clock W)"
    using assms(1) unfolding world_law_def by blast
  have "obj_inv rok lok nm s" by (rule CreateDB_inv [OF assms(2) law(2,4) assms(7)])
  then have ok: "sh_ok (wd_env W) (obj_inv rok lok nm) \<lparr>sh_clk = wd_clock W, sh_wl = w, sh_rnd = r, sh_db = s\<rparr>"
    using assms(3) clk by (simp add: sh_ok_def)
  show ?thesis
    using object_phase [OF law(1,3) ok assms(4-6), where gp = gp and ld = ld and sched = sched and b = b] by blast
qed

lemma stoi_bound: "stoi v = Inr n \<Longrightarrow> n < 2 ^ 31"
  by (auto simp: stoi_def Let_def split: if_splits prod.splits)

section \<open>Reading the report back\<close>

fun split_at :: "char \<Rightarrow> string \<Rightarrow> string list" where
  "split_at x [] = [[]]"
| "split_at x (c # s) = (if c = x then [] # split_at x s
     else case split_at x s of l # ls \<Rightarrow> (c # l) # ls | [] \<Rightarrow> [[c]])"

lemma split_at_first: "x \<notin> set s \<Longrightarrow> split_at x (s @ x # t) = s # split_at x t"
  by (induction s) auto

lemma split_at_last: "x \<notin> set s \<Longrightarrow> split_at x s = [s]"
  by (induction s) auto

lemma stoi_to_string_int:
  assumes "0 \<le> i" "i < 2 ^ 31"
  shows "stoi (to_string_int i) = Inr i"
  using assms stoi_digits10 [of "nat i"] by (simp add: to_string_int_def nat_less_iff)

section \<open>Properties\<close>

text \<open>
  C2. The program completes: on a command line that asks for one phase, without a duration and
  with at least one thread, when the database opens and the workload's initialisation returns
  with generators of admissible sizes and weights, main returns one report, of that phase, under
  every schedule of the threads, and writes its text. The report counts one sample per executed
  operation, n times the truncated share of each thread, and as many successes.
\<close>

theorem main_completes:
  assumes "world_law W" "ParseCommandLine (wd_files W) argv Map.empty = Inr (fn, p)"
    and "CreateDB (wd_ptree W) (wd_rocks W) (wd_level W) p = Inr (Some s)"
    and "Workload_Init (wd_env W) p CoreWorkload (wd_random W) = Inr (w, r)"
    and "sizes_ok w" "discrete_inv (op_chooser w)" "no_new_keys p"
    and "GetProperty p ''pattern'' [] = (if ld then ''load'' else ''run'')"
    and "stoi (GetProperty p ''duration'' ''0'') = Inr 0"
    and "stoi (GetProperty p ''threadcount'' ''1'') = Inr n" "0 < n"
    and "props_at p (if ld then RECORD_COUNT_PROPERTY else OPERATION_COUNT_PROPERTY) = Inr v" "stoi v = Inr tot" "0 \<le> tot"
  shows "\<exists>rep cerr xs. ycsbc_main W argv = Inr [(rep, cerr)] \<and> rep_loading rep = ld \<and> rep_threads rep = n \<and>
           rep_sum rep = n * (tot div n) \<and> hist_repr (rep_his rep) xs \<and> int (length xs) = n * (tot div n) \<and>
           phase_text (wd_nan W) (wd_perf_ToString W) (the (p ''dbname'')) fn rep = Inr cerr"
proof -
  have "ready (wd_env W) w r"
    using assms(1) Workload_Init_ready [OF _ _ _ assms(4-7)] by (simp add: world_law_def)
  moreover obtain nm where nm: "props_at p ''dbname'' = Inr nm" using CreateDB_dbname [OF assms(3)] by blast
  ultimately obtain rep sh xs where
    run: "run_phase (wd_env W) (wd_perf W) (wd_ops W) ld nm n tot (wd_sched W ld) (Some False)
      \<lparr>sh_clk = wd_clock W, sh_wl = w, sh_rnd = r, sh_db = s\<rparr> = Inr (rep, None, sh)"
    and rep: "rep_loading rep = ld" "rep_threads rep = n" "rep_sum rep = n * (tot div n)"
      "hist_repr (rep_his rep) xs" "int (length xs) = n * (tot div n)"
    using world_phase [OF assms(1,3) _ assms(11,14) stoi_bound [OF assms(13)] nm] by blast
  obtain cerr where out: "phase_text (wd_nan W) (wd_perf_ToString W) nm fn rep = Inr cerr"
    using ToString_repr [OF rep(4), of "wd_nan W"] by (auto simp: phase_text_def)
  have "ycsbc_main W argv = Inr [(rep, cerr)]"
    using assms(2-4,8-10,12,13) nm run out
    by (cases ld) (simp_all add: ycsbc_main_def main_phase_def stats_thread_def)
  moreover have "the (p ''dbname'') = nm" using nm by (simp add: props_at_def split: option.splits)
  ultimately show ?thesis using rep out by blast
qed

text \<open>
  C14. What a phase prints can be read back. The second line, split at its tabs, is the name of the
  database, the property file, the number of threads and the throughput: std::stoi gives the
  number of threads, and std::stod the double nearest to a number within five millionths of the
  throughput, zero for a throughput of zero and infinity for one of an empty duration. The loading
  phase gives the number of successes, which std::stoi reads back, on the first line; the first
  line of the transaction phase is a fixed text without a number.
\<close>

theorem phase_text_reads_back:
  assumes "hist_repr (rep_his rep) xs" "plain nm" "plain fn" "plain nan"
    and "0 \<le> rep_threads rep" "rep_threads rep < 2 ^ 31" "0 \<le> rep_sum rep" "rep_sum rep < 2 ^ 31"
  shows "\<exists>cerr l1 l2 ls t col. phase_text nan pts nm fn rep = Inr cerr \<and> split_at (CHR 0x0A) cerr = l1 # l2 # ls \<and>
           split_at (CHR 0x09) l2 = [nm, fn, t, col] \<and> stoi t = Inr (rep_threads rep) \<and>
           (if rep_loading rep then \<exists>u. split_at (CHR 0x09) l1 = [''# Loading records:'', u] \<and> stoi u = Inr (rep_sum rep)
            else l1 = ''# Transaction throughput '') \<and>
           (\<forall>q. rep_rate rep = Fin q \<longrightarrow> 2 powi (- 1000) \<le> \<bar>q\<bar> \<longrightarrow> \<bar>q\<bar> \<le> 2 powi 1000 \<longrightarrow>
             (\<exists>y. \<bar>y - q\<bar> \<le> \<bar>q\<bar> / 200000 \<and> stod col = Inr (Fin (rnd y)))) \<and>
           (rep_rate rep = Fin 0 \<longrightarrow> stod col = Inr (Fin 0)) \<and> (rep_rate rep = PInf \<longrightarrow> stod col = Inr PInf)"
proof -
  let ?t = "to_string_int (rep_threads rep)" and ?u = "to_string_int (rep_sum rep)" and ?r = "fmt_g nan (rep_rate rep)"
  let ?l1 = "if rep_loading rep then ''# Loading records:'' @ CHR 0x09 # ?u else ''# Transaction throughput ''"
  let ?col = "?r @ CHR '' '' # ''OPS''"
  let ?l2 = "nm @ CHR 0x09 # fn @ CHR 0x09 # ?t @ CHR 0x09 # ?col"
  obtain rest where out: "phase_text nan pts nm fn rep = Inr (?l1 @ CHR 0x0A # ?l2 @ CHR 0x0A # rest)"
    using ToString_repr [OF assms(1), of nan] by (auto simp: phase_text_def endl_def)
  have p: "plain ?t" "plain ?u" "plain ?r" "plain ?col" using plain_fmt_g [OF assms(4)]
    by simp_all
  have ends: "CHR 0x0A \<notin> set ?l1" "CHR 0x0A \<notin> set ?l2" using p assms(2,3) by (auto simp: plain_def)
  have rows: "split_at (CHR 0x0A) (?l1 @ CHR 0x0A # ?l2 @ CHR 0x0A # rest) = ?l1 # ?l2 # split_at (CHR 0x0A) rest"
    unfolding split_at_first [OF ends(1)] split_at_first [OF ends(2)] ..
  have tabs: "CHR 0x09 \<notin> set nm" "CHR 0x09 \<notin> set fn" "CHR 0x09 \<notin> set ?t" "CHR 0x09 \<notin> set ?u" "CHR 0x09 \<notin> set ?col"
    using p assms(2,3) unfolding plain_def by blast+
  have l2: "split_at (CHR 0x09) ?l2 = [nm, fn, ?t, ?col]"
    unfolding split_at_first [OF tabs(1)] split_at_first [OF tabs(2)] split_at_first [OF tabs(3)] split_at_last [OF tabs(5)] ..
  have l1: "if rep_loading rep then \<exists>u. split_at (CHR 0x09) ?l1 = [''# Loading records:'', u] \<and> stoi u = Inr (rep_sum rep)
      else ?l1 = ''# Transaction throughput ''"
    using split_at_first [of "CHR 0x09" "''# Loading records:''" ?u] split_at_last [OF tabs(4)]
      stoi_to_string_int [OF assms(7,8)] by simp
  have q: "\<forall>q. rep_rate rep = Fin q \<longrightarrow> 2 powi (- 1000) \<le> \<bar>q\<bar> \<longrightarrow> \<bar>q\<bar> \<le> 2 powi 1000 \<longrightarrow>
      (\<exists>y. \<bar>y - q\<bar> \<le> \<bar>q\<bar> / 200000 \<and> stod ?col = Inr (Fin (rnd y)))"
    using stod_fmt_g by metis
  have z: "rep_rate rep = Fin 0 \<longrightarrow> stod ?col = Inr (Fin 0)" "rep_rate rep = PInf \<longrightarrow> stod ?col = Inr PInf"
    using stod_fmt_g_special [of nan "''OPS''"] by metis+
  show ?thesis
    by (rule exI [of _ "?l1 @ CHR 0x0A # ?l2 @ CHR 0x0A # rest"], rule exI [of _ ?l1], rule exI [of _ ?l2],
        rule exI [of _ "split_at (CHR 0x0A) rest"], rule exI [of _ ?t], rule exI [of _ ?col],
        intro conjI out rows l2 stoi_to_string_int [OF assms(5,6)] l1 q z)
qed

definition sample_report :: report where
  "sample_report = \<lparr>rep_loading = True, rep_sum = 99, rep_threads = 3, rep_rate = Fin (462295839 / 10000),
     rep_his = Clear new_histogram, rep_perf = None\<rparr>"

theorem phase_text_reads_back_witness:
  "\<exists>cerr l1 l2 ls t col u y. phase_text ''-nan'' (\<lambda>_. []) ''leveldb'' ''workloads/workloada.spec'' sample_report = Inr cerr \<and>
     split_at (CHR 0x0A) cerr = l1 # l2 # ls \<and> split_at (CHR 0x09) l1 = [''# Loading records:'', u] \<and> stoi u = Inr 99 \<and>
     split_at (CHR 0x09) l2 = [''leveldb'', ''workloads/workloada.spec'', t, col] \<and> stoi t = Inr 3 \<and>
     \<bar>y - 462295839 / 10000\<bar> \<le> 1 / 4 \<and> stod col = Inr (Fin (rnd y))"
proof -
  let ?q = "462295839 / 10000 :: rat"
  have "hist_repr (rep_his sample_report) []" using hist_repr_Clear by (simp add: sample_report_def)
  moreover have "plain ''leveldb''" "plain ''workloads/workloada.spec''" "plain ''-nan''" by (simp_all add: plain_def)
  moreover have s: "0 \<le> rep_threads sample_report" "rep_threads sample_report < 2 ^ 31" "0 \<le> rep_sum sample_report"
    "rep_sum sample_report < 2 ^ 31" "rep_threads sample_report = 3" "rep_sum sample_report = 99" "rep_loading sample_report"
    "rep_rate sample_report = Fin ?q" by (simp_all add: sample_report_def)
  ultimately obtain cerr l1 l2 ls t col where
    "phase_text ''-nan'' (\<lambda>_. []) ''leveldb'' ''workloads/workloada.spec'' sample_report = Inr cerr"
    "split_at (CHR 0x0A) cerr = l1 # l2 # ls" "split_at (CHR 0x09) l2 = [''leveldb'', ''workloads/workloada.spec'', t, col]"
    "stoi t = Inr 3" "\<exists>u. split_at (CHR 0x09) l1 = [''# Loading records:'', u] \<and> stoi u = Inr 99"
    and q: "2 powi (- 1000) \<le> \<bar>?q\<bar> \<Longrightarrow> \<bar>?q\<bar> \<le> 2 powi 1000 \<Longrightarrow>
      \<exists>y. \<bar>y - ?q\<bar> \<le> \<bar>?q\<bar> / 200000 \<and> stod col = Inr (Fin (rnd y))"
    using phase_text_reads_back [of sample_report "[]" "''leveldb''" "''workloads/workloada.spec''" "''-nan''" "\<lambda>_. []"]
    by (simp only: double.inject if_True) metis
  moreover have "(2::rat) powi (- 1000) \<le> 2 powi 0" "(2::rat) powi 20 \<le> 2 powi 1000" by (rule two_powi_mono; simp)+
  then have "2 powi (- 1000) \<le> \<bar>?q\<bar>" "\<bar>?q\<bar> \<le> 2 powi 1000" by simp_all
  from q [OF this] obtain y where "\<bar>y - ?q\<bar> \<le> \<bar>?q\<bar> / 200000" "stod col = Inr (Fin (rnd y))" by blast
  moreover from this(1) have "\<bar>y - ?q\<bar> \<le> 1 / 4" by simp
  ultimately show ?thesis by blast
qed

section \<open>Workload A on LevelDB\<close>

text \<open>The lines of workloads/workloada.spec, and a world with that file and the configuration files.\<close>

definition workloada_lines :: "string list" where
  "workloada_lines =
    [''# Yahoo! Cloud System Benchmark'',
     ''# Workload A: Update heavy workload'',
     ''#   Application example: Session store recording recent actions'',
     ''#                        '',
     ''#   Read/update ratio: 50/50'',
     ''#   Default data size: 1 KB records (10 fields, 100 bytes each, plus key)'',
     ''#   Request distribution: zipfian'',
     '''',
     ''# recordcount=100000'',
     ''recordcount=196608'',
     ''operationcount=100000'',
     ''workload=com.yahoo.ycsb.workloads.CoreWorkload'',
     '''',
     ''readallfields=true'',
     '''',
     ''readproportion=0.5'',
     ''updateproportion=0.5'',
     ''scanproportion=0'',
     ''insertproportion=0'',
     '''',
     ''requestdistribution=zipfian'',
     '''']"

definition workloada_spec :: string where
  "workloada_spec = concat (map (\<lambda>l. l @ [CHR 0x0A]) workloada_lines)"

definition shipped_world :: "((string \<rightharpoonup> string), kvs, kvs, kvs, kvs) world" where
  "shipped_world = sample_world\<lparr>wd_files := (\<lambda>f. if f = ''workloads/workloada.spec'' then Open_file workloada_spec else Not_open)\<rparr>"

definition shipped_args :: "string list" where
  "shipped_args = [''ycsbc'', ''-db'', ''leveldb'', ''-dbPath'', ''/db'', ''-dbConfig'', ''leveldb_config.ini'',
     ''-threads'', ''5'', ''-P'', ''workloads/workloada.spec'', ''load'']"

definition shipped_props :: properties where
  "shipped_props = [''dbname'' \<mapsto> ''leveldb'', ''dbPath'' \<mapsto> ''/db'', ''dbConfig'' \<mapsto> ''leveldb_config.ini'',
     ''threadcount'' \<mapsto> ''5'', ''recordcount'' \<mapsto> ''196608'', ''operationcount'' \<mapsto> ''100000'',
     ''workload'' \<mapsto> ''com.yahoo.ycsb.workloads.CoreWorkload'', ''readallfields'' \<mapsto> ''true'',
     ''readproportion'' \<mapsto> ''0.5'', ''updateproportion'' \<mapsto> ''0.5'', ''scanproportion'' \<mapsto> ''0'',
     ''insertproportion'' \<mapsto> ''0'', ''requestdistribution'' \<mapsto> ''zipfian'', ''pattern'' \<mapsto> ''load'']"

lemma getlines_lines:
  "list_all (\<lambda>l. list_all (\<lambda>c. c \<noteq> CHR 0x0A) l) ls \<Longrightarrow>
   getlines (concat (map (\<lambda>l. l @ [CHR 0x0A]) ls)) = ls @ [[]]"
  by (induction ls) (simp_all add: getlines_line list_all_iff)

lemma getlines_workloada: "getlines workloada_spec = workloada_lines @ [[]]"
  unfolding workloada_spec_def by (rule getlines_lines) (simp add: workloada_lines_def)

lemma load_line_comment: "load_line (CHR ''#'' # l) p = p"
  by (simp add: load_line_def)

lemma load_line_set:
  assumes "plain_property (k, v)" "l = k @ CHR ''='' # v"
  shows "load_line l p = p(k \<mapsto> v)"
  using load_line_plain [OF assms(1)] assms(2) by simp

lemma workloada_settings:
  "load_line ''recordcount=196608'' p = p(''recordcount'' \<mapsto> ''196608'')"
  "load_line ''operationcount=100000'' p = p(''operationcount'' \<mapsto> ''100000'')"
  "load_line ''workload=com.yahoo.ycsb.workloads.CoreWorkload'' p = p(''workload'' \<mapsto> ''com.yahoo.ycsb.workloads.CoreWorkload'')"
  "load_line ''readallfields=true'' p = p(''readallfields'' \<mapsto> ''true'')"
  "load_line ''readproportion=0.5'' p = p(''readproportion'' \<mapsto> ''0.5'')"
  "load_line ''updateproportion=0.5'' p = p(''updateproportion'' \<mapsto> ''0.5'')"
  "load_line ''scanproportion=0'' p = p(''scanproportion'' \<mapsto> ''0'')"
  "load_line ''insertproportion=0'' p = p(''insertproportion'' \<mapsto> ''0'')"
  "load_line ''requestdistribution=zipfian'' p = p(''requestdistribution'' \<mapsto> ''zipfian'')"
  by (rule load_line_set; code_simp)+

lemma Load_workloada:
  "Load (Open_file workloada_spec) p = Inr (p(''recordcount'' \<mapsto> ''196608'', ''operationcount'' \<mapsto> ''100000'',
     ''workload'' \<mapsto> ''com.yahoo.ycsb.workloads.CoreWorkload'', ''readallfields'' \<mapsto> ''true'',
     ''readproportion'' \<mapsto> ''0.5'', ''updateproportion'' \<mapsto> ''0.5'', ''scanproportion'' \<mapsto> ''0'',
     ''insertproportion'' \<mapsto> ''0'', ''requestdistribution'' \<mapsto> ''zipfian''))"
  by (simp add: Load_def getlines_workloada workloada_lines_def load_line_comment workloada_settings)

lemma shipped_parse:
  "ParseCommandLine (wd_files shipped_world) shipped_args Map.empty = Inr (''workloads/workloada.spec'', shipped_props)"
proof -
  have "parse_args (wd_files shipped_world) ''ycsbc'' (tl shipped_args) [] Map.empty = Inr (''workloads/workloada.spec'', shipped_props)"
    by (simp add: shipped_args_def parse_flag parse_file parse_pattern parse_args.simps(1) SetProperty_def
        shipped_world_def Load_workloada shipped_props_def)
  then show ?thesis by (simp add: ParseCommandLine_def shipped_args_def shipped_props_def GetProperty_def)
qed

lemma shipped_get:
  "GetProperty shipped_props TABLENAME_PROPERTY d = d"
  "GetProperty shipped_props FIELD_COUNT_PROPERTY d = d"
  "GetProperty shipped_props FIELD_LENGTH_DISTRIBUTION_PROPERTY d = d"
  "GetProperty shipped_props FIELD_LENGTH_PROPERTY d = d"
  "GetProperty shipped_props READ_PROPORTION_PROPERTY d = ''0.5''"
  "GetProperty shipped_props UPDATE_PROPORTION_PROPERTY d = ''0.5''"
  "GetProperty shipped_props INSERT_PROPORTION_PROPERTY d = ''0''"
  "GetProperty shipped_props SCAN_PROPORTION_PROPERTY d = ''0''"
  "GetProperty shipped_props READMODIFYWRITE_PROPORTION_PROPERTY d = d"
  "GetProperty shipped_props REQUEST_DISTRIBUTION_PROPERTY d = ''zipfian''"
  "GetProperty shipped_props ZERO_PADDING_PROPERTY d = d"
  "GetProperty shipped_props INSERT_START_PROPERTY d = d"
  "GetProperty shipped_props INSERT_ORDER_PROPERTY d = d"
  "GetProperty shipped_props READ_ALL_FIELDS_PROPERTY d = ''true''"
  "GetProperty shipped_props WRITE_ALL_FIELDS_PROPERTY d = d"
  "GetProperty shipped_props DBNAME_PROPERTY d = ''leveldb''"
  "GetProperty shipped_props RECORD_COUNT_PROPERTY d = ''196608''"
  "GetProperty shipped_props OPERATION_COUNT_PROPERTY d = ''100000''"
  "GetProperty shipped_props SCAN_LENGTH_DISTRIBUTION_PROPERTY d = d"
  "GetProperty shipped_props MAX_SCAN_LENGTH_PROPERTY d = d"
  "GetProperty shipped_props ''pattern'' d = ''load''"
  "GetProperty shipped_props ''duration'' d = d"
  "GetProperty shipped_props ''threadcount'' d = ''5''"
  "props_at shipped_props RECORD_COUNT_PROPERTY = Inr ''196608''"
  by (simp_all add: shipped_props_def GetProperty_def props_at_def property_names)

lemma shipped_numbers: "stoi ''196608'' = Inr 196608" "stoi ''100000'' = Inr 100000" "stoi ''5'' = Inr 5" "stod ''0'' = Inr (Fin 0)"
proof -
  show "stoi ''196608'' = Inr 196608" by (simp add: stoi_def read_sign_def isspace_def isdigit_def num10_def digit_val_def)
  show "stoi ''100000'' = Inr 100000" by (simp add: stoi_def read_sign_def isspace_def isdigit_def num10_def digit_val_def)
  show "stoi ''5'' = Inr 5" by code_simp
  show "stod ''0'' = Inr (Fin 0)" by code_simp
qed

lemma shipped_read_parameters:
  "\<exists>w. read_parameters sample_env shipped_props CoreWorkload sample_random = Inr (w, Fin 0, 1000, sample_random) \<and>
     field_len_generator w = Some (Const_gen (ConstGenerator 100)) \<and> field_count w = 10 \<and>
     record_count w = 196608 \<and> insert_key_sequence w = \<lparr>counter = 196608\<rparr> \<and>
     op_chooser w = op_chooser (two_ops READ ''0.5'' UPDATE ''0.5'')"
proof -
  have "GetFieldLenGenerator sample_env shipped_props sample_random =
      Inr (Const_gen (ConstGenerator 100), sample_random)"
    by (simp add: GetFieldLenGenerator_def shipped_get FIELD_LENGTH_DISTRIBUTION_DEFAULT_def
        FIELD_LENGTH_DEFAULT_def sample_numbers)
  moreover have "\<not> 0 < Fin 0" "0 < Fin (1 / 2)" by code_simp+
  ultimately show ?thesis
    by (simp add: read_parameters_def shipped_get shipped_numbers sample_numbers stod_50 FIELD_COUNT_DEFAULT_def
        READMODIFYWRITE_PROPORTION_DEFAULT_def ZERO_PADDING_DEFAULT_def MAX_SCAN_LENGTH_DEFAULT_def
        INSERT_START_DEFAULT_def WRITE_ALL_FIELDS_DEFAULT_def two_ops_def add_proportion_def
        CoreWorkload_def CounterGenerator_def Counter_Set_def Let_def del: zero_one_Fin)
qed

lemma shipped_Init:
  "\<exists>w r'. Workload_Init sample_env shipped_props CoreWorkload sample_random = Inr (w, r') \<and>
     sizes_ok w \<and> discrete_inv (op_chooser w)"
proof -
  obtain w where w: "read_parameters sample_env shipped_props CoreWorkload sample_random = Inr (w, Fin 0, 1000, sample_random)"
    "field_len_generator w = Some (Const_gen (ConstGenerator 100))" "field_count w = 10"
    "record_count w = 196608" "insert_key_sequence w = \<lparr>counter = 196608\<rparr>"
    "op_chooser w = op_chooser (two_ops READ ''0.5'' UPDATE ''0.5'')"
    using shipped_read_parameters by blast
  obtain z r' where z: "ZipfianGenerator sample_env 0 196607 kZipfianConst sample_random = Inr (z, r')" "num_items z = 196608"
    using ZipfianGenerator_establishes [of sample_env sample_random kZipfianConst 0 196607]
      sample_zipf_env_law unit_random_sample theta_ok_kZipfianConst
    by (auto simp: kMaxNumItems_val zipf_env_law_def)
  have "int_of_d (d_of_int 100000 * Fin 0 * Fin 2) = Inr 0" by code_simp
  then have kc: "new_key_chooser sample_env shipped_props ''zipfian'' (Fin 0) w sample_random =
      Inr (Scrambled_gen \<lparr>sbase = 0, snum_items = 196608, sgenerator = z\<rparr>, r')"
    using z(1) w(4) by (simp add: new_key_chooser_def shipped_get shipped_numbers
        ScrambledZipfianGenerator_items_def ScrambledZipfianGenerator_def del: zero_one_Fin)
  obtain sc where sc: "new_Uniform sample_env 1 1000 = Inr sc" "gen_size_ok sc"
    by (simp add: new_Uniform_def UniformGenerator_def Let_def)
  obtain fc where fc: "new_field_chooser sample_env 10 = Inr fc"
    by (simp add: new_field_chooser_def new_Uniform_def UniformGenerator_def Let_def)
  have "discrete_inv (op_chooser (two_ops READ ''0.5'' UPDATE ''0.5''))"
    unfolding two_ops_chooser [OF stod_50 stod_50 _ _ sum_50_50, simplified] using loop_50_50
    by (simp add: discrete_inv_def weights_ok_def pos_fin_def)
  then show ?thesis
    using w z(2) kc fc sc
    by (simp add: Workload_Init_def shipped_get SCAN_LENGTH_DISTRIBUTION_DEFAULT_def
        new_scan_len_chooser_def sizes_ok_def ConstGenerator_def string_max_size_def del: zero_one_Fin)
qed

lemma shipped_open:
  "\<exists>s. CreateDB (wd_ptree shipped_world) (wd_rocks shipped_world) (wd_level shipped_world) shipped_props = Inr (Some s)"
proof -
  obtain c where "ConfigRocksDB_init shipped_ptree ''leveldb_config.ini'' = Inr c" using shipped_files by blast
  then have "\<exists>s. LevelDB shipped_ptree (mem_lib initial_level_options) (c_str ''/db'') ''leveldb_config.ini'' = Inr s"
    by (simp add: LevelDB_def mem_lib_def Let_def)
  then obtain d where "LevelDB shipped_ptree (mem_lib initial_level_options) (c_str ''/db'') ''leveldb_config.ini'' = Inr d" by blast
  then show ?thesis
    by (simp add: CreateDB_def props_at_def GetProperty_def shipped_props_def shipped_world_def sample_world_def)
qed

lemma mem_lib_opens: "\<exists>ok mp rest. kv_law (mem_lib opts) ok mp rest \<and> opens (mem_lib opts) ok"
  by (intro exI conjI) (rule mem_lib_law, simp add: opens_def mem_lib_def mem_ok_def)

lemma shipped_world_law: "world_law shipped_world"
proof -
  have "steady (sconst 0)" by (simp add: steady_def)
  then show ?thesis
    using mem_lib_opens [of initial_rocks_options] mem_lib_opens [of initial_level_options]
    by (simp add: world_law_def shipped_world_def sample_world_def sample_uniform_law sample_zipf_env_law unit_random_sample)
qed

theorem main_completes_witness:
  "\<exists>rep cerr xs. ycsbc_main shipped_world shipped_args = Inr [(rep, cerr)] \<and> rep_loading rep \<and> rep_threads rep = 5 \<and>
     rep_sum rep = 196605 \<and> hist_repr (rep_his rep) xs \<and> length xs = 196605"
proof -
  obtain s where s: "CreateDB (wd_ptree shipped_world) (wd_rocks shipped_world) (wd_level shipped_world) shipped_props = Inr (Some s)"
    using shipped_open by blast
  obtain w r where w: "Workload_Init (wd_env shipped_world) shipped_props CoreWorkload (wd_random shipped_world) = Inr (w, r)"
    "sizes_ok w" "discrete_inv (op_chooser w)"
    using shipped_Init by (auto simp: shipped_world_def sample_world_def)
  have n: "no_new_keys shipped_props" by (simp add: no_new_keys_def shipped_get shipped_numbers)
  from main_completes [OF shipped_world_law shipped_parse s w n, of True 5 "''196608''" 196608]
  obtain rep cerr xs where "ycsbc_main shipped_world shipped_args = Inr [(rep, cerr)]" "rep_loading rep" "rep_threads rep = 5"
    "rep_sum rep = 5 * (196608 div 5)" "hist_repr (rep_his rep) xs" "int (length xs) = 5 * (196608 div 5)"
    by (auto simp: shipped_get shipped_numbers sample_numbers)
  moreover have "(5::int) * (196608 div 5) = 196605" by simp
  ultimately show ?thesis by (intro exI [of _ rep] exI [of _ cerr] exI [of _ xs]) simp
qed

end
