(* ===== verification/Spec2Isabelle.thy ===== *)
theory Spec2Isabelle
  imports Histogram_Stats Properties Zipfian Workload_Init Hashtable_DB DB_Factory Client
    Command_Line Ycsbc Threads Success Load_Phase End_To_End Histogram_Text Stream_Text
    Tbb_DBs Program
begin

text \<open>
  A verification development for YCSB-C with the RocksDB and LevelDB back ends: a benchmark that
  loads a key-value store with records and runs a mix of transactions on it, measuring the
  latency of every operation.

  \<^bold>\<open>The program.\<close> main (ycsbc.cc) parses the command line and the property files it names
  (core/properties.h), lets DBFactory (db/db\_factory.cc) create a back end of the class DB
  (core/db.h), initialises a CoreWorkload (core/core\_workload.h and .cc) from the properties and
  starts the client threads of a phase. A thread runs DelegateClient: it times (core/timer.h) the
  calls of a Client (core/client.h), which draws operations, keys and values from the workload's
  generators (core/*\_generator.h over core/utils.h) and calls the back end, and it records the
  durations in its Histogram (utils/histogram.cc). main merges the histograms of the threads and
  prints them. The back ends are BasicDB (db/basic\_db.h), which prints, the drivers RocksDB
  and LevelDB (db/rocksdb\_db.cc, db/leveldb\_db.cc) with their configuration
  (utils/rocksdb\_config.h), and HashtableDB (db/hashtable\_db.cc) over the tables of lib/, which
  the factory of this version no longer creates.

  \<^bold>\<open>The theories\<close>, from the bottom up.

  \<^item> Prelude: outcomes of a C++ call as a sum type (exceptions, failed assertions, exit,
    undefined behaviour and endless loops are the left values, one datatype), its sequencing
    operator, shared lemmas. Double: IEEE binary64 as rationals with rounding to nearest even,
    infinities and NaN; monotonicity and exactness of the rounding. Cxx\_Lib: stoi, stod,
    to\_string, character classes, C strings.
  \<^item> Timer, Histogram: the members and operations of the classes, AddFast with its loop as a
    partial function. Histogram\_Stats: a histogram represents a list of samples (a relation kept
    by Clear, Add, AddFast and Merge), AddFast finds the bucket Add finds for every latency the
    timer returns, AddFast ends exactly on finite values, percentiles are monotone and lie
    between the extremes. Histogram\_Text: StandardDeviation over the correctly rounded square root and
    ToString over the conversions of snprintf and its buffer; which rows appear, where the buffer
    cuts one, and when a statistic is a NaN. Stream\_Text: what a stream prints of a double (six
    significant digits), with its accuracy, and that stod reads it back within it.
  \<^item> Utils, Properties: FNV hash, Trim, StrToBool, Load as a reader of lines; printing properties
    and loading them is the identity on the accepted names and values.
  \<^item> Generators, Zipfian: the classes of generators, each with its state record; the locale
    \<open>generator\<close> (a call returns, keeps the invariant and gives a value in the range) is
    interpreted for every class and for the virtual dispatch.
  \<^item> Core\_Workload, Workload\_Init: Init on every branch and the seven operations of the workload;
    the workload invariant holds after Init and is kept, keys stay within the loaded records, key
    names order as numbers, with the proportions of each shipped workload file the choice of an
    operation never aborts, while other proportions can abort it.
  \<^item> Hashtables, Hashtable\_DB: String, StlHashtable and LockStlHashtable with the locale
    \<open>string_hashtable\<close>, HashtableDB over any classes of tables (the locale \<open>hashtable_tables\<close>) with
    its refinement to a map of maps, round trip, conflicts and the bounds of a scan, and LockStlDB.
    Tbb\_Tables: the two tables over TBB containers, and that the four tables answer every
    sequence of calls alike. Tbb\_DBs: TbbRandDB and TbbScanDB, which answer as LockStlDB does.
  \<^item> DB\_Interface: the virtual operations as a record, the contract \<open>db_contract\<close> (every call
    returns a status that is not negative and keeps the invariant of the back end), sequences of
    calls. Basic\_DB, Kv\_DBs, Config, DB\_Factory: the back ends the factory creates, their
    interpretations of the contract, the refinement of the two drivers to one abstract map, their
    equality, their errors, the options they open an engine with.
  \<^item> Client: DoInsert and DoTransaction with the five transactions, for any back end; the lemmas
    are proved once in the context of \<open>db_contract\<close>.
  \<^item> Command\_Line, Ycsbc, Threads: ParseCommandLine against a grammar of options; mergePerf, record,
    DelegateClient, a phase and main. A thread is a state machine whose steps are those of
    DelegateClient; a phase runs its threads under an arbitrary schedule and ends under each.
    A call of exit carries the text printed before it; a phase gives its report and the text it
    writes to standard error.
    The thread machine run alone is DelegateClient.
  \<^item> Success: a client measures its operations without disturbing them (\<open>client_spec\<close>, the same
    operations without timer and histogram); the locale \<open>db_success\<close> extends \<open>db_contract\<close> by the status kOK of every call; the
    back ends of the factory satisfy it, so a phase counts exactly the operations it executes as
    successes.
  \<^item> Program: what CreateDB and Init leave is what a phase needs, so main returns on every command
    line for one phase, in particular for workloads/workloada.spec on LevelDB; the columns it
    writes are read back.
  \<^item> Load\_Phase: the load with a thread interrupted between drawing a key and inserting it, a step
    relation with its invariant; every interleaving inserts every key exactly once.
  \<^item> End\_To\_End: a load of the hash table database followed by reads, all components together.

  \<^bold>\<open>Parameters.\<close> Code outside the repository is an argument: the engines (record \<open>kv_lib\<close>, law
  \<open>kv_law\<close>, instance \<open>mem_lib\<close>), the TBB containers
  (\<open>tbb_lib\<close>, law \<open>tbb_law\<close>, instance \<open>list_tbb\<close>), boost's property tree (\<open>ptree_lib\<close>), std::pow and the seeds of the
  distributions (\<open>cxx_env\<close>, law \<open>pow_unit_law\<close>), the performance counters of RocksDB and
  their text, and the text of a NaN. Random
  engines and the clock are streams of the values they will return. The iteration order of an
  unordered\_map is an arbitrary permutation at each insertion. Property files are functions from
  names to streams.

  \<^bold>\<open>Bounds and loops.\<close> Integers have their width wherever an operation can wrap (u64 and u32
  words); int values that the code never brings near their limits are mathematical integers.
  Loops that may not end (the scaling loop of AddFast, the rejection loop of
  NextTransactionKey, record) are partial functions with the value None for not returning, and
  that they return is proved. The bound of \<open>2 ^ 53\<close> samples is the range in which a double
  counts exactly; the bound of \<open>2 ^ 53\<close> nanoseconds on a latency (104 days) is that of the exact
  conversion of the clock's count. A phase gives each thread as many steps as it can need after
  the schedule is used up, so a schedule never decides whether a phase ends.

  \<^bold>\<open>Not modelled.\<close> The allocation of memory (lib/mem\_alloc.h) and addresses; data races
  inside a call (the engines and the hash tables lock, RandomDouble is taken as one shared
  stream); the order in which standard output and standard error appear on a terminal; the
  scripts and build files; of the workload files only the proportions and workloada.spec.
\<close>

end
